(* ===== verification/Winter_Prelude.thy ===== *)
theory Winter_Prelude
  imports Main "HOL-Library.Char_ord" "HOL-Library.List_Lexorder" "HOL-Library.Product_Lexorder"
    "HOL-Library.AList" "HOL-Library.Sublist"
begin

text \<open>
  Shared vocabulary of the development: the rule collections that carry the component
  proofs, the decimal rendering and parsing of integers that Go (\<open>strconv\<close>) and the wire
  protocol use, and list facts that several components need.
\<close>

section \<open>Rule collections\<close>

named_theorems key_simps \<open>distinctness of Redis keys\<close>
named_theorems keep_intros \<open>rules that carry an invariant through a computation\<close>
named_theorems redis_run \<open>effect of a documented Redis command on a typed key\<close>
named_theorems sim_intros \<open>a script on a server is simulated by the script on its dataset\<close>
named_theorems view_simps \<open>what a stored job looks like after an operation\<close>

section \<open>Decimal integers\<close>

definition digit_chr :: "nat \<Rightarrow> char" where
  "digit_chr d = ''0123456789'' ! d"

fun nat_str :: "nat \<Rightarrow> string" where
  "nat_str n = (if n < 10 then [digit_chr n] else nat_str (n div 10) @ [digit_chr (n mod 10)])"

declare nat_str.simps [simp del]

text \<open>\<open>strconv.Itoa\<close> and \<open>fmt.Sprint\<close> of an integer; also how a Lua integer is sent to Redis.\<close>

definition itoa :: "int \<Rightarrow> string" where
  "itoa n = (if n < 0 then CHR ''-'' # nat_str (nat (- n)) else nat_str (nat n))"

definition digit_val :: "char \<Rightarrow> nat option" where
  "digit_val c = (let v = of_char c :: nat in if 48 \<le> v \<and> v \<le> 57 then Some (v - 48) else None)"

datatype scan = Syntax | Range | Val nat

text \<open>
  The loop of \<open>strconv.ParseUint\<close> in base 10 with 64 bits: an invalid character is a syntax
  error, leaving the 64-bit range is a range error, and both stop the scan.
\<close>

fun scan_digits :: "nat \<Rightarrow> string \<Rightarrow> scan" where
  "scan_digits acc [] = Val acc"
| "scan_digits acc (c # cs) =
     (case digit_val c of
        None \<Rightarrow> Syntax
      | Some d \<Rightarrow> (if 10 * acc + d \<ge> 2 ^ 64 then Range else scan_digits (10 * acc + d) cs))"

definition parse_uint :: "string \<Rightarrow> scan" where
  "parse_uint s = (if s = [] then Syntax else scan_digits 0 s)"

definition max_int64 :: int where "max_int64 = 2 ^ 63 - 1"

definition min_int64 :: int where "min_int64 = - (2 ^ 63)"

text \<open>
  The value part of \<open>strconv.ParseInt(s, 10, 64)\<close> and of \<open>strconv.Atoi\<close>, whose error the code
  drops: 0 on a syntax error, the nearest bound on a range error.
\<close>

definition parse_int64 :: "string \<Rightarrow> int" where
  "parse_int64 s =
     (let neg = (s \<noteq> [] \<and> hd s = CHR ''-'');
          body = (if s \<noteq> [] \<and> (hd s = CHR ''-'' \<or> hd s = CHR ''+'') then tl s else s)
      in case parse_uint body of
           Syntax \<Rightarrow> 0
         | Range \<Rightarrow> (if neg then min_int64 else max_int64)
         | Val n \<Rightarrow> (if neg then max min_int64 (- int n) else min max_int64 (int n)))"

text \<open>
  Reading back an integer that was stored as a string: what Redis does for \<open>HINCRBY\<close> and Lua
  for \<open>tonumber\<close> on the decimal integers this program stores; \<open>None\<close> for anything else.
\<close>

fun digits_val :: "nat \<Rightarrow> string \<Rightarrow> nat option" where
  "digits_val acc [] = Some acc"
| "digits_val acc (c # cs) =
     (case digit_val c of None \<Rightarrow> None | Some d \<Rightarrow> digits_val (10 * acc + d) cs)"

definition parse_dec :: "string \<Rightarrow> int option" where
  "parse_dec s =
     (case s of
        [] \<Rightarrow> None
      | c # cs \<Rightarrow>
          (if c = CHR ''-''
           then (if cs = [] then None else map_option (\<lambda>n. - int n) (digits_val 0 cs))
           else map_option int (digits_val 0 s)))"

definition int64 :: "int \<Rightarrow> bool" where
  "int64 n \<longleftrightarrow> min_int64 \<le> n \<and> n \<le> max_int64"

lemma digit_val_chr [simp]: "d < 10 \<Longrightarrow> digit_val (digit_chr d) = Some d"
  by (auto simp: numeral_eq_Suc less_Suc_eq digit_val_def digit_chr_def)

lemma digit_chr_sign [simp]:
  assumes "d < 10"
  shows "digit_chr d \<noteq> CHR ''-''" and "digit_chr d \<noteq> CHR ''+''"
  using digit_val_chr [OF assms] by (auto simp: digit_val_def)

lemma nat_str_not_Nil [simp]: "nat_str n \<noteq> []"
  by (subst nat_str.simps) simp

lemma hd_nat_str: "\<exists>d<10. hd (nat_str n) = digit_chr d"
proof (induction n rule: nat_str.induct)
  case (1 n)
  then show ?case
    by (cases "n < 10") (auto simp: nat_str.simps [of n])
qed

lemma digits_val_append:
  "digits_val acc (xs @ ys) = Option.bind (digits_val acc xs) (\<lambda>a. digits_val a ys)"
  by (induction xs arbitrary: acc) (auto split: option.splits)

lemma digits_val_nat_str [simp]: "digits_val 0 (nat_str n) = Some n"
proof (induction n rule: nat_str.induct)
  case (1 n)
  then show ?case
    by (cases "n < 10") (simp_all add: nat_str.simps [of n] digits_val_append)
qed

lemma scan_digits_val:
  "digits_val acc xs = Some n \<Longrightarrow> n < 2 ^ 64 \<Longrightarrow> scan_digits acc xs = Val n"
proof (induction xs arbitrary: acc)
  case Nil
  then show ?case by simp
next
  case (Cons c cs)
  have mono: "a \<le> m" if "digits_val a xs = Some m" for a m xs
    using that by (induction xs arbitrary: a) (fastforce split: option.splits)+
  from Cons.prems(1) obtain d where d: "digit_val c = Some d"
    and rest: "digits_val (10 * acc + d) cs = Some n"
    by (auto split: option.splits)
  from mono [OF rest] Cons.prems(2) have "10 * acc + d < 2 ^ 64" by simp
  with d Cons.IH [OF rest Cons.prems(2)] show ?case by simp
qed

lemma hd_nat_str_sign [simp]: "hd (nat_str n) \<noteq> CHR ''-''" "hd (nat_str n) \<noteq> CHR ''+''"
  using hd_nat_str [of n] digit_chr_sign by metis+

lemma nat_str_Cons: "\<exists>c cs. nat_str n = c # cs \<and> c \<noteq> CHR ''-'' \<and> c \<noteq> CHR ''+''"
  by (metis hd_nat_str_sign list.collapse nat_str_not_Nil)

lemma parse_dec_itoa [simp]: "parse_dec (itoa n) = Some n"
proof (cases "n < 0")
  case True
  then show ?thesis by (simp add: parse_dec_def itoa_def)
next
  case False
  obtain c cs where "nat_str (nat n) = c # cs" "c \<noteq> CHR ''-''"
    using nat_str_Cons by blast
  with False digits_val_nat_str [of "nat n"] show ?thesis
    by (simp add: parse_dec_def itoa_def)
qed

lemma parse_int64_itoa [simp]: "int64 n \<Longrightarrow> parse_int64 (itoa n) = n"
proof -
  assume "int64 n"
  then have le: "nat \<bar>n\<bar> < 2 ^ 64" and b: "min_int64 \<le> n" "n \<le> max_int64"
    by (auto simp: int64_def max_int64_def min_int64_def)
  have s: "parse_uint (nat_str (nat \<bar>n\<bar>)) = Val (nat \<bar>n\<bar>)"
    using le by (simp add: parse_uint_def scan_digits_val)
  then show ?thesis
    using b by (cases "n < 0") (simp_all add: parse_int64_def itoa_def)
qed

lemma parse_int64_range: "int64 (parse_int64 s)"
  by (auto simp: parse_int64_def int64_def Let_def min_int64_def max_int64_def split: scan.splits)

lemma itoa_inject [simp]: "itoa a = itoa b \<longleftrightarrow> a = b"
  by (metis option.inject parse_dec_itoa)

lemma itoa_not_Nil [simp]: "itoa n \<noteq> []"
  by (simp add: itoa_def)

section \<open>Lists\<close>

lemma filter_neq_id: "x \<notin> f ` set xs \<Longrightarrow> filter (\<lambda>p. f p \<noteq> x) xs = xs"
  by (induction xs) auto

lemma distinct_map_filter: "distinct (map f xs) \<Longrightarrow> distinct (map f (filter P xs))"
  by (induction xs) auto

lemma fun_upd_const [simp]: "(\<lambda>_. c)(x := c) = (\<lambda>_. c)"
  by auto

lemma map_of_filter_neq:
  "map_of (filter (\<lambda>p. fst p \<noteq> k) xs) = (map_of xs)(k := None)"
  by (induction xs) auto

end
