(* ===== verification/Redis.thy ===== *)
theory Redis
  imports Winter_Prelude
begin

text \<open>
  The interface to Redis. Redis itself is not part of the repository: every operation of the
  model takes the server as an argument \<open>exec\<close>, a function from a command and a server state to
  a reply and a server state. What the program relies on is the documented behaviour of the
  commands it issues, written here as \<open>redis_doc\<close> on a logical dataset; the locale
  \<open>redis_server\<close> is the hypothesis that a server, seen through a view, behaves as documented.
\<close>

section \<open>Commands, replies and the logical dataset\<close>

type_synonym key = string

datatype rval =
    RString string
  | RHash "(string \<times> string) list"
  | RSet "string list"
  | RZSet "(int \<times> string) list"
  | RList "string list"

text \<open>
  The commands issued by the program, with the options it uses. Sorted set scores are integers:
  the program only uses priorities and millisecond timestamps as scores, which are exact in
  Redis' double representation up to \<open>2 ^ 53\<close>.
\<close>

datatype command =
    GET key
  | SET key string
  | SET_PX key string int
  | SET_NX_EX key string int
  | DEL key
  | EXISTS key
  | PEXPIRE key int
  | INCR key
  | HSET key "(string \<times> string) list"
  | HSETNX key string string
  | HGET key string
  | HGETALL key
  | HDEL key string
  | HINCRBY key string int
  | SADD key string
  | SREM key string
  | SCARD key
  | ZADD key int string
  | ZADD_XX key int string
  | ZREM key string
  | ZPOPMIN key
  | ZRANGEBYSCORE key int int
  | ZCARD key
  | LPUSH key string
  | LREM_1 key string
  | LRANGE key int int
  | LLEN key

datatype reply =
    RNil
  | RInt int
  | RBulk string
  | RStatus string
  | RArr "string list"
  | RErr string

record dataset =
  db :: "key \<Rightarrow> (rval \<times> int option) option"
  clock :: int

definition expired :: "int option \<Rightarrow> int \<Rightarrow> bool" where
  "expired e now = (case e of None \<Rightarrow> False | Some t \<Rightarrow> t \<le> now)"

definition live :: "dataset \<Rightarrow> key \<Rightarrow> (rval \<times> int option) option" where
  "live d k =
     (case db d k of
        None \<Rightarrow> None
      | Some (v, e) \<Rightarrow> (if expired e (clock d) then None else Some (v, e)))"

definition lookup :: "dataset \<Rightarrow> key \<Rightarrow> rval option" where
  "lookup d k = map_option fst (live d k)"

definition ttl_of :: "dataset \<Rightarrow> key \<Rightarrow> int option" where
  "ttl_of d k = (case live d k of None \<Rightarrow> None | Some (v, e) \<Rightarrow> e)"

text \<open>Writing a value keeps the expiry of a live key; \<open>SET\<close> and \<open>PEXPIRE\<close> replace it.\<close>

definition put :: "dataset \<Rightarrow> key \<Rightarrow> rval \<Rightarrow> dataset" where
  "put d k v = d\<lparr>db := (db d)(k := Some (v, ttl_of d k))\<rparr>"

definition put_ttl :: "dataset \<Rightarrow> key \<Rightarrow> rval \<Rightarrow> int option \<Rightarrow> dataset" where
  "put_ttl d k v e = d\<lparr>db := (db d)(k := Some (v, e))\<rparr>"

definition del :: "dataset \<Rightarrow> key \<Rightarrow> dataset" where
  "del d k = d\<lparr>db := (db d)(k := None)\<rparr>"

section \<open>Typed access\<close>

text \<open>A missing key reads as the empty value of any type.\<close>

definition str_at :: "dataset \<Rightarrow> key \<Rightarrow> string option" where
  "str_at d k = (case lookup d k of Some (RString s) \<Rightarrow> Some s | _ \<Rightarrow> None)"

definition hash_at :: "dataset \<Rightarrow> key \<Rightarrow> (string \<times> string) list" where
  "hash_at d k = (case lookup d k of Some (RHash h) \<Rightarrow> h | _ \<Rightarrow> [])"

definition set_at :: "dataset \<Rightarrow> key \<Rightarrow> string list" where
  "set_at d k = (case lookup d k of Some (RSet s) \<Rightarrow> s | _ \<Rightarrow> [])"

definition zset_at :: "dataset \<Rightarrow> key \<Rightarrow> (int \<times> string) list" where
  "zset_at d k = (case lookup d k of Some (RZSet z) \<Rightarrow> z | _ \<Rightarrow> [])"

definition list_at :: "dataset \<Rightarrow> key \<Rightarrow> string list" where
  "list_at d k = (case lookup d k of Some (RList l) \<Rightarrow> l | _ \<Rightarrow> [])"

text \<open>Whether a command of a type may be used on a key.\<close>

datatype rtype = TString | THash | TSet | TZSet | TList

fun rtype_of :: "rval \<Rightarrow> rtype" where
  "rtype_of (RString _) = TString"
| "rtype_of (RHash _) = THash"
| "rtype_of (RSet _) = TSet"
| "rtype_of (RZSet _) = TZSet"
| "rtype_of (RList _) = TList"

definition has_type :: "rtype \<Rightarrow> dataset \<Rightarrow> key \<Rightarrow> bool" where
  "has_type t d k = (case lookup d k of None \<Rightarrow> True | Some v \<Rightarrow> rtype_of v = t)"

text \<open>An aggregate that becomes empty is removed from the keyspace.\<close>

definition store_hash :: "dataset \<Rightarrow> key \<Rightarrow> (string \<times> string) list \<Rightarrow> dataset" where
  "store_hash d k h = (if h = [] then del d k else put d k (RHash h))"

definition store_set :: "dataset \<Rightarrow> key \<Rightarrow> string list \<Rightarrow> dataset" where
  "store_set d k xs = (if xs = [] then del d k else put d k (RSet xs))"

definition store_zset :: "dataset \<Rightarrow> key \<Rightarrow> (int \<times> string) list \<Rightarrow> dataset" where
  "store_zset d k z = (if z = [] then del d k else put d k (RZSet z))"

definition store_list :: "dataset \<Rightarrow> key \<Rightarrow> string list \<Rightarrow> dataset" where
  "store_list d k xs = (if xs = [] then del d k else put d k (RList xs))"

section \<open>Documented behaviour of the data types\<close>

definition hash_set :: "(string \<times> string) list \<Rightarrow> (string \<times> string) list \<Rightarrow> (string \<times> string) list" where
  "hash_set fs h = fold (\<lambda>(f, v) h. AList.update f v h) fs h"

text \<open>Members of a sorted set are unique; it is ordered by score, then by member.\<close>

definition zscore :: "(int \<times> string) list \<Rightarrow> string \<Rightarrow> int option" where
  "zscore z m = map_of (map (\<lambda>(s, x). (x, s)) z) m"

definition zrem :: "string \<Rightarrow> (int \<times> string) list \<Rightarrow> (int \<times> string) list" where
  "zrem m z = filter (\<lambda>p. snd p \<noteq> m) z"

definition zadd :: "int \<Rightarrow> string \<Rightarrow> (int \<times> string) list \<Rightarrow> (int \<times> string) list" where
  "zadd s m z = insort (s, m) (zrem m z)"

definition zrange_upto :: "int \<Rightarrow> int \<Rightarrow> (int \<times> string) list \<Rightarrow> string list" where
  "zrange_upto mx cnt z =
     (let xs = map snd (filter (\<lambda>p. fst p \<le> mx) z)
      in if cnt < 0 then xs else take (nat cnt) xs)"

definition lrange :: "string list \<Rightarrow> int \<Rightarrow> int \<Rightarrow> string list" where
  "lrange xs a b =
     (let n = int (length xs);
          lo = (if a < 0 then max 0 (n + a) else a);
          hi = min (n - 1) (if b < 0 then n + b else b)
      in if hi < lo then [] else take (nat (hi - lo + 1)) (drop (nat lo) xs))"

definition wrongtype :: string where
  "wrongtype = ''WRONGTYPE Operation against a key holding the wrong kind of value''"

definition not_an_integer :: string where
  "not_an_integer = ''ERR value is not an integer or out of range''"

definition typed :: "rtype \<Rightarrow> dataset \<Rightarrow> key \<Rightarrow> reply \<times> dataset \<Rightarrow> reply \<times> dataset" where
  "typed t d k r = (if has_type t d k then r else (RErr wrongtype, d))"

fun redis_doc :: "command \<Rightarrow> dataset \<Rightarrow> reply \<times> dataset" where
  "redis_doc (GET k) d = typed TString d k (case str_at d k of None \<Rightarrow> RNil | Some s \<Rightarrow> RBulk s, d)"
| "redis_doc (SET k v) d = (RStatus ''OK'', put_ttl d k (RString v) None)"
| "redis_doc (SET_PX k v ms) d =
     (if ms \<le> 0 then (RErr ''ERR invalid expire time in 'set' command'', d)
      else (RStatus ''OK'', put_ttl d k (RString v) (Some (clock d + ms))))"
| "redis_doc (SET_NX_EX k v secs) d =
     (if secs \<le> 0 then (RErr ''ERR invalid expire time in 'set' command'', d)
      else if lookup d k \<noteq> None then (RNil, d)
      else (RStatus ''OK'', put_ttl d k (RString v) (Some (clock d + 1000 * secs))))"
| "redis_doc (DEL k) d = (RInt (if lookup d k = None then 0 else 1), del d k)"
| "redis_doc (EXISTS k) d = (RInt (if lookup d k = None then 0 else 1), d)"
| "redis_doc (PEXPIRE k ms) d =
     (case lookup d k of
        None \<Rightarrow> (RInt 0, d)
      | Some v \<Rightarrow> (RInt 1, if ms \<le> 0 then del d k else put_ttl d k v (Some (clock d + ms))))"
| "redis_doc (INCR k) d =
     typed TString d k
       (case parse_dec (case str_at d k of None \<Rightarrow> ''0'' | Some s \<Rightarrow> s) of
          None \<Rightarrow> (RErr not_an_integer, d)
        | Some n \<Rightarrow> (RInt (n + 1), put d k (RString (itoa (n + 1)))))"
| "redis_doc (HSET k fs) d =
     typed THash d k
       (RInt (int (length (remdups (filter (\<lambda>f. map_of (hash_at d k) f = None) (map fst fs))))),
        store_hash d k (hash_set fs (hash_at d k)))"
| "redis_doc (HSETNX k f v) d =
     typed THash d k
       (if map_of (hash_at d k) f = None
        then (RInt 1, store_hash d k (hash_set [(f, v)] (hash_at d k))) else (RInt 0, d))"
| "redis_doc (HGET k f) d =
     typed THash d k (case map_of (hash_at d k) f of None \<Rightarrow> RNil | Some v \<Rightarrow> RBulk v, d)"
| "redis_doc (HGETALL k) d =
     typed THash d k (RArr (concat (map (\<lambda>(f, v). [f, v]) (hash_at d k))), d)"
| "redis_doc (HDEL k f) d =
     typed THash d k
       (RInt (if map_of (hash_at d k) f = None then 0 else 1),
        store_hash d k (filter (\<lambda>p. fst p \<noteq> f) (hash_at d k)))"
| "redis_doc (HINCRBY k f n) d =
     typed THash d k
       (case parse_dec (case map_of (hash_at d k) f of None \<Rightarrow> ''0'' | Some v \<Rightarrow> v) of
          None \<Rightarrow> (RErr not_an_integer, d)
        | Some m \<Rightarrow> (RInt (m + n), store_hash d k (hash_set [(f, itoa (m + n))] (hash_at d k))))"
| "redis_doc (SADD k x) d =
     typed TSet d k
       (if x \<in> set (set_at d k) then (RInt 0, d) else (RInt 1, store_set d k (set_at d k @ [x])))"
| "redis_doc (SREM k x) d =
     typed TSet d k
       (RInt (if x \<in> set (set_at d k) then 1 else 0), store_set d k (removeAll x (set_at d k)))"
| "redis_doc (SCARD k) d = typed TSet d k (RInt (int (length (set_at d k))), d)"
| "redis_doc (ZADD k s x) d =
     typed TZSet d k
       (RInt (if zscore (zset_at d k) x = None then 1 else 0),
        store_zset d k (zadd s x (zset_at d k)))"
| "redis_doc (ZADD_XX k s x) d =
     typed TZSet d k
       (RInt 0, if zscore (zset_at d k) x = None then d else store_zset d k (zadd s x (zset_at d k)))"
| "redis_doc (ZREM k x) d =
     typed TZSet d k
       (RInt (if zscore (zset_at d k) x = None then 0 else 1), store_zset d k (zrem x (zset_at d k)))"
| "redis_doc (ZPOPMIN k) d =
     typed TZSet d k
       (case zset_at d k of
          [] \<Rightarrow> (RArr [], d)
        | (s, x) # z \<Rightarrow> (RArr [x, itoa s], store_zset d k z))"
| "redis_doc (ZRANGEBYSCORE k mx cnt) d =
     typed TZSet d k (RArr (zrange_upto mx cnt (zset_at d k)), d)"
| "redis_doc (ZCARD k) d = typed TZSet d k (RInt (int (length (zset_at d k))), d)"
| "redis_doc (LPUSH k x) d =
     typed TList d k (RInt (int (length (list_at d k)) + 1), store_list d k (x # list_at d k))"
| "redis_doc (LREM_1 k x) d =
     typed TList d k
       (RInt (if x \<in> set (list_at d k) then 1 else 0), store_list d k (remove1 x (list_at d k)))"
| "redis_doc (LRANGE k a b) d = typed TList d k (RArr (lrange (list_at d k) a b), d)"
| "redis_doc (LLEN k) d = typed TList d k (RInt (int (length (list_at d k))), d)"

declare redis_doc.simps [simp del]

section \<open>Reading back what was written\<close>

lemma expired_None [simp]: "\<not> expired None now"
  by (simp add: expired_def)

lemma expired_Some [simp]: "expired (Some t) now \<longleftrightarrow> t \<le> now"
  by (simp add: expired_def)

lemma ttl_of_live: "\<not> expired (ttl_of d k) (clock d)"
  by (auto simp: ttl_of_def live_def expired_def split: option.splits)

lemma lookup_put [simp]: "lookup (put d k v) k' = (if k' = k then Some v else lookup d k')"
  using ttl_of_live [of d k] by (auto simp: lookup_def live_def put_def split: option.split)

lemma lookup_put_ttl [simp]:
  "lookup (put_ttl d k v e) k' =
     (if k' = k then (if expired e (clock d) then None else Some v) else lookup d k')"
  by (auto simp: lookup_def live_def put_ttl_def split: option.split)

lemma lookup_del [simp]: "lookup (del d k) k' = (if k' = k then None else lookup d k')"
  by (auto simp: lookup_def live_def del_def split: option.split)

lemma clock_writes [simp]:
  "clock (put d k v) = clock d" "clock (put_ttl d k v e) = clock d" "clock (del d k) = clock d"
  "clock (store_hash d k h) = clock d" "clock (store_set d k xs) = clock d"
  "clock (store_zset d k z) = clock d" "clock (store_list d k l) = clock d"
  by (simp_all add: put_def put_ttl_def del_def store_hash_def store_set_def store_zset_def
      store_list_def)

lemma lookup_store [simp]:
  "lookup (store_hash d k h) k' =
     (if k' = k then (if h = [] then None else Some (RHash h)) else lookup d k')"
  "lookup (store_set d k xs) k' =
     (if k' = k then (if xs = [] then None else Some (RSet xs)) else lookup d k')"
  "lookup (store_zset d k z) k' =
     (if k' = k then (if z = [] then None else Some (RZSet z)) else lookup d k')"
  "lookup (store_list d k l) k' =
     (if k' = k then (if l = [] then None else Some (RList l)) else lookup d k')"
  by (simp_all add: store_hash_def store_set_def store_zset_def store_list_def)

lemma hash_at_write [simp]:
  "hash_at (store_hash d k h) k' = (if k' = k then h else hash_at d k')"
  "hash_at (store_set d k xs) k' = (if k' = k then [] else hash_at d k')"
  "hash_at (store_zset d k z) k' = (if k' = k then [] else hash_at d k')"
  "hash_at (store_list d k l) k' = (if k' = k then [] else hash_at d k')"
  "hash_at (put_ttl d k (RString s) e) k' = (if k' = k then [] else hash_at d k')"
  "hash_at (put d k (RString s)) k' = (if k' = k then [] else hash_at d k')"
  "hash_at (del d k) k' = (if k' = k then [] else hash_at d k')"
  by (simp_all add: hash_at_def)

lemma set_at_write [simp]:
  "set_at (store_hash d k h) k' = (if k' = k then [] else set_at d k')"
  "set_at (store_set d k xs) k' = (if k' = k then xs else set_at d k')"
  "set_at (store_zset d k z) k' = (if k' = k then [] else set_at d k')"
  "set_at (store_list d k l) k' = (if k' = k then [] else set_at d k')"
  "set_at (put_ttl d k (RString s) e) k' = (if k' = k then [] else set_at d k')"
  "set_at (put d k (RString s)) k' = (if k' = k then [] else set_at d k')"
  "set_at (del d k) k' = (if k' = k then [] else set_at d k')"
  by (simp_all add: set_at_def)

lemma zset_at_write [simp]:
  "zset_at (store_hash d k h) k' = (if k' = k then [] else zset_at d k')"
  "zset_at (store_set d k xs) k' = (if k' = k then [] else zset_at d k')"
  "zset_at (store_zset d k z) k' = (if k' = k then z else zset_at d k')"
  "zset_at (store_list d k l) k' = (if k' = k then [] else zset_at d k')"
  "zset_at (put_ttl d k (RString s) e) k' = (if k' = k then [] else zset_at d k')"
  "zset_at (put d k (RString s)) k' = (if k' = k then [] else zset_at d k')"
  "zset_at (del d k) k' = (if k' = k then [] else zset_at d k')"
  by (simp_all add: zset_at_def)

lemma list_at_write [simp]:
  "list_at (store_hash d k h) k' = (if k' = k then [] else list_at d k')"
  "list_at (store_set d k xs) k' = (if k' = k then [] else list_at d k')"
  "list_at (store_zset d k z) k' = (if k' = k then [] else list_at d k')"
  "list_at (store_list d k l) k' = (if k' = k then l else list_at d k')"
  "list_at (put_ttl d k (RString s) e) k' = (if k' = k then [] else list_at d k')"
  "list_at (put d k (RString s)) k' = (if k' = k then [] else list_at d k')"
  "list_at (del d k) k' = (if k' = k then [] else list_at d k')"
  by (simp_all add: list_at_def)

lemma str_at_write [simp]:
  "str_at (store_hash d k h) k' = (if k' = k then None else str_at d k')"
  "str_at (store_set d k xs) k' = (if k' = k then None else str_at d k')"
  "str_at (store_zset d k z) k' = (if k' = k then None else str_at d k')"
  "str_at (store_list d k l) k' = (if k' = k then None else str_at d k')"
  "str_at (put_ttl d k (RString s) e) k' =
     (if k' = k then (if expired e (clock d) then None else Some s) else str_at d k')"
  "str_at (put d k (RString s)) k' = (if k' = k then Some s else str_at d k')"
  "str_at (del d k) k' = (if k' = k then None else str_at d k')"
  by (simp_all add: str_at_def)

lemma has_type_write [simp]:
  "has_type t (store_hash d k h) k' = (if k' = k then h = [] \<or> t = THash else has_type t d k')"
  "has_type t (store_set d k xs) k' = (if k' = k then xs = [] \<or> t = TSet else has_type t d k')"
  "has_type t (store_zset d k z) k' = (if k' = k then z = [] \<or> t = TZSet else has_type t d k')"
  "has_type t (store_list d k l) k' = (if k' = k then l = [] \<or> t = TList else has_type t d k')"
  "has_type t (put_ttl d k (RString s) e) k' =
     (if k' = k then expired e (clock d) \<or> t = TString else has_type t d k')"
  "has_type t (put d k (RString s)) k' = (if k' = k then t = TString else has_type t d k')"
  "has_type t (del d k) k' = (if k' = k then True else has_type t d k')"
  by (auto simp: has_type_def)

section \<open>Hashes and sorted sets\<close>

lemma map_of_hash_set [simp]: "map_of (hash_set fs h) = map_of h ++ map_of (rev fs)"
proof (induction fs arbitrary: h)
  case Nil
  then show ?case by (simp add: hash_set_def)
next
  case (Cons p fs)
  obtain f v where p: "p = (f, v)" by (cases p)
  have "map_of (hash_set (p # fs) h) = map_of (hash_set fs (AList.update f v h))"
    by (simp add: hash_set_def p)
  also have "\<dots> = (map_of h)(f \<mapsto> v) ++ map_of (rev fs)"
    by (simp add: Cons.IH update_conv' fun_upd_def)
  finally show ?case
    by (auto simp: p map_add_def fun_eq_iff split: option.splits)
qed

lemma hash_set_not_Nil [simp]: "fs \<noteq> [] \<Longrightarrow> hash_set fs h \<noteq> []"
proof
  assume "fs \<noteq> []" "hash_set fs h = []"
  then have "map_of h ++ map_of (rev fs) = Map.empty" by (metis map_of.simps(1) map_of_hash_set)
  then have "map_of (rev fs) = Map.empty" by simp
  with \<open>fs \<noteq> []\<close> show False
    by (metis map_of_eq_empty_iff rev_is_Nil_conv)
qed

lemma distinct_hash_set [simp]: "distinct (map fst h) \<Longrightarrow> distinct (map fst (hash_set fs h))"
  by (induction fs arbitrary: h) (auto simp: hash_set_def distinct_update)

definition zset_ok :: "(int \<times> string) list \<Rightarrow> bool" where
  "zset_ok z \<longleftrightarrow> sorted z \<and> distinct (map snd z)"

lemma zset_ok_Nil [simp]: "zset_ok []"
  by (simp add: zset_ok_def)

lemma set_zrem [simp]: "set (zrem m z) = {p \<in> set z. snd p \<noteq> m}"
  by (simp add: zrem_def)

lemma set_zadd [simp]: "set (zadd s m z) = insert (s, m) {p \<in> set z. snd p \<noteq> m}"
  by (simp add: zadd_def set_insort_key)

lemma zset_ok_zrem [simp]: "zset_ok z \<Longrightarrow> zset_ok (zrem m z)"
  by (simp add: zset_ok_def zrem_def sorted_wrt_filter distinct_map_filter)

lemma distinct_snd_insort:
  "distinct (map snd z) \<Longrightarrow> snd p \<notin> snd ` set z \<Longrightarrow> distinct (map snd (insort p z))"
  by (induction z) (auto simp: set_insort_key)

lemma zset_ok_zadd [simp]: "zset_ok z \<Longrightarrow> zset_ok (zadd s m z)"
  using zset_ok_zrem [of z m]
  by (auto simp: zset_ok_def zadd_def sorted_insort intro!: distinct_snd_insort)

lemma zset_ok_Cons: "zset_ok (p # z) \<Longrightarrow> zset_ok z \<and> snd p \<notin> snd ` set z \<and> (\<forall>r\<in>set z. p \<le> r)"
  by (simp add: zset_ok_def)

lemma zadd_not_Nil [simp]: "zadd s m z \<noteq> []"
  by (metis empty_iff insertI1 list.set(1) set_zadd)

lemma zscore_Nil [simp]: "zscore [] m = None"
  by (simp add: zscore_def)

lemma zscore_Cons [simp]: "zscore ((s, x) # z) m = (if m = x then Some s else zscore z m)"
  by (simp add: zscore_def)

lemma zscore_None_iff: "zscore z m = None \<longleftrightarrow> m \<notin> snd ` set z"
  by (induction z) (auto split: if_splits)

lemma zscore_SomeD: "zscore z m = Some s \<Longrightarrow> (s, m) \<in> set z"
  by (induction z) (auto split: if_splits)

lemma zscore_Some_iff: "zset_ok z \<Longrightarrow> zscore z m = Some s \<longleftrightarrow> (s, m) \<in> set z"
proof (induction z)
  case (Cons p z)
  obtain t x where p: "p = (t, x)" by (cases p)
  from Cons.prems have ok: "zset_ok z" "x \<notin> snd ` set z"
    using zset_ok_Cons [of p z] by (auto simp: p)
  with Cons.IH show ?case by (auto simp: p split: if_splits) (force+)?
qed simp

lemma zscore_zrem [simp]: "zscore (zrem x z) m = (if m = x then None else zscore z m)"
  by (induction z) (auto simp: zrem_def)

lemma zscore_insort: "x \<notin> snd ` set z \<Longrightarrow> zscore (insort (s, x) z) m = (if m = x then Some s else zscore z m)"
  by (induction z) (auto simp: zscore_None_iff)

lemma zscore_zadd [simp]: "zscore (zadd s x z) m = (if m = x then Some s else zscore z m)"
proof -
  have "x \<notin> snd ` set (zrem x z)" by auto
  then show ?thesis by (simp add: zadd_def zscore_insort)
qed

lemma zset_ok_min:
  assumes "zset_ok ((s, x) # z)" and "zscore ((s, x) # z) m = Some t"
  shows "(s, x) \<le> (t, m)"
  using assms zscore_SomeD [OF assms(2)] by (auto simp: zset_ok_def)

section \<open>Commands on keys of the right type\<close>

lemma typed_ok [simp]: "has_type t d k \<Longrightarrow> typed t d k r = r"
  by (simp add: typed_def)

section \<open>The interface\<close>

text \<open>
  A server behaves as documented when some view of its state as a dataset makes every command
  answer and act as \<open>redis_doc\<close> says. Time passes outside commands only: a script runs at one
  frozen instant.
\<close>

locale redis_server =
  fixes exec :: "command \<Rightarrow> 's \<Rightarrow> reply \<times> 's"
    and view :: "'s \<Rightarrow> dataset"
  assumes exec_documented: "map_prod id view (exec c s) = redis_doc c (view s)"
begin

lemma exec_reply: "fst (exec c s) = fst (redis_doc c (view s))"
  using exec_documented [of c s] by (metis fst_map_prod id_apply)

lemma exec_view: "view (snd (exec c s)) = snd (redis_doc c (view s))"
  using exec_documented [of c s] by (metis snd_map_prod)

end

text \<open>The logical dataset with the documented commands is itself such a server.\<close>

interpretation logical: redis_server redis_doc id
  by unfold_locales (simp add: prod.map_id)

end
