(* ===== verification/Lua.thy ===== *)
theory Lua
  imports Redis
begin

text \<open>
  The execution of embedded Lua scripts and of Go calls to Redis. A script is a state passing
  computation over the server: \<open>redis.call\<close> raises a Lua error when the command fails, which
  aborts the script and keeps the writes made so far. \<open>run\<close> is the round trip of go-redis: the
  request may not arrive, or arrive while its reply is lost.
\<close>

type_synonym ('s, 'a) lua = "'s \<Rightarrow> (string + 'a) \<times> 's"

type_synonym 's server = "command \<Rightarrow> 's \<Rightarrow> reply \<times> 's"

definition ret :: "'a \<Rightarrow> ('s, 'a) lua" where
  "ret a s = (Inr a, s)"

definition raise :: "string \<Rightarrow> ('s, 'a) lua" where
  "raise e s = (Inl e, s)"

definition lbind :: "('s, 'a) lua \<Rightarrow> ('a \<Rightarrow> ('s, 'b) lua) \<Rightarrow> ('s, 'b) lua" where
  "lbind m f s = (case m s of (Inl e, s') \<Rightarrow> (Inl e, s') | (Inr a, s') \<Rightarrow> f a s')"

text \<open>\<open>redis.call(...)\<close>\<close>

definition lcall :: "'s server \<Rightarrow> command \<Rightarrow> ('s, reply) lua" where
  "lcall exec c s = (case exec c s of (RErr e, s') \<Rightarrow> (Inl e, s') | (r, s') \<Rightarrow> (Inr r, s'))"

definition call :: "'s server \<Rightarrow> command \<Rightarrow> (reply \<Rightarrow> ('s, 'a) lua) \<Rightarrow> ('s, 'a) lua" where
  "call exec c f = lbind (lcall exec c) f"

text \<open>\<open>for _, x in ipairs(xs) do ... end\<close>, with the local variables the body updates.\<close>

fun lfold :: "('x \<Rightarrow> 'b \<Rightarrow> ('s, 'b) lua) \<Rightarrow> 'x list \<Rightarrow> 'b \<Rightarrow> ('s, 'b) lua" where
  "lfold f [] b = ret b"
| "lfold f (x # xs) b = lbind (f x b) (lfold f xs)"

text \<open>\<open>tonumber\<close> of a reply: a nil reply is \<open>false\<close> in Lua and has no number.\<close>

fun tonumber :: "reply \<Rightarrow> int option" where
  "tonumber (RBulk s) = parse_dec s"
| "tonumber (RInt n) = Some n"
| "tonumber _ = None"

fun elements :: "reply \<Rightarrow> string list" where
  "elements (RArr xs) = xs"
| "elements _ = []"

section \<open>Round trips from Go\<close>

datatype fault = NoFault | ConnError string | ReplyLost string

fun run :: "fault \<Rightarrow> ('s, 'a) lua \<Rightarrow> ('s, 'a) lua" where
  "run NoFault m s = m s"
| "run (ConnError e) m s = (Inl e, s)"
| "run (ReplyLost e) m s = (Inl e, snd (m s))"

text \<open>
  A go-redis pipeline: the commands are sent together and each is executed whatever the others
  answer; \<open>Exec\<close> reports the first failing command.
\<close>

fun pipe_cmds :: "'s server \<Rightarrow> command list \<Rightarrow> 's \<Rightarrow> reply list \<times> 's" where
  "pipe_cmds exec [] s = ([], s)"
| "pipe_cmds exec (c # cs) s =
     (let (r, s1) = exec c s; (rs, s2) = pipe_cmds exec cs s1 in (r # rs, s2))"

fun first_err :: "reply list \<Rightarrow> string option" where
  "first_err [] = None"
| "first_err (RErr e # rs) = Some e"
| "first_err (r # rs) = first_err rs"

definition pipe_exec :: "'s server \<Rightarrow> command list \<Rightarrow> ('s, reply list) lua" where
  "pipe_exec exec cs s =
     (case pipe_cmds exec cs s of
        (rs, s') \<Rightarrow> (case first_err rs of Some e \<Rightarrow> (Inl e, s') | None \<Rightarrow> (Inr rs, s')))"

lemma lbind_ret [simp]: "lbind (ret a) f = f a"
  by (simp add: lbind_def ret_def fun_eq_iff)

lemma lbind_raise [simp]: "lbind (raise e) f = raise e"
  by (simp add: lbind_def raise_def fun_eq_iff)

lemma lbind_assoc: "lbind (lbind m f) g = lbind m (\<lambda>a. lbind (f a) g)"
  by (auto simp: lbind_def fun_eq_iff split: prod.splits sum.splits)

lemma lbind_call [simp]: "lbind (call exec c f) g = call exec c (\<lambda>r. lbind (f r) g)"
  by (simp add: call_def lbind_assoc)

lemma lbind_Inr: "m s = (Inr a, s') \<Longrightarrow> lbind m f s = f a s'"
  by (simp add: lbind_def)

lemma call_ok: "exec c s = (r, s') \<Longrightarrow> (\<And>e. r \<noteq> RErr e) \<Longrightarrow> call exec c f s = f r s'"
  by (cases r) (auto simp: call_def lbind_def lcall_def)

section \<open>Documented commands in a script\<close>

lemma call_SREM [redis_run]:
  "has_type TSet d k \<Longrightarrow> call redis_doc (SREM k x) f d =
     f (RInt (if x \<in> set (set_at d k) then 1 else 0)) (store_set d k (removeAll x (set_at d k)))"
  by (rule call_ok) (simp_all add: redis_doc.simps)

lemma call_SADD [redis_run]:
  "has_type TSet d k \<Longrightarrow> call redis_doc (SADD k x) f d =
     f (RInt (if x \<in> set (set_at d k) then 0 else 1))
       (if x \<in> set (set_at d k) then d else store_set d k (set_at d k @ [x]))"
  by (rule call_ok) (simp_all add: redis_doc.simps)

lemma call_SCARD [redis_run]:
  "has_type TSet d k \<Longrightarrow> call redis_doc (SCARD k) f d = f (RInt (int (length (set_at d k)))) d"
  by (rule call_ok) (simp_all add: redis_doc.simps)

lemma call_ZREM [redis_run]:
  "has_type TZSet d k \<Longrightarrow> call redis_doc (ZREM k x) f d =
     f (RInt (if zscore (zset_at d k) x = None then 0 else 1)) (store_zset d k (zrem x (zset_at d k)))"
  by (rule call_ok) (simp_all add: redis_doc.simps)

lemma call_ZADD [redis_run]:
  "has_type TZSet d k \<Longrightarrow> call redis_doc (ZADD k s x) f d =
     f (RInt (if zscore (zset_at d k) x = None then 1 else 0)) (store_zset d k (zadd s x (zset_at d k)))"
  by (rule call_ok) (simp_all add: redis_doc.simps)

lemma call_ZADD_XX [redis_run]:
  "has_type TZSet d k \<Longrightarrow> call redis_doc (ZADD_XX k s x) f d =
     f (RInt 0) (if zscore (zset_at d k) x = None then d else store_zset d k (zadd s x (zset_at d k)))"
  by (rule call_ok) (simp_all add: redis_doc.simps)

lemma call_ZPOPMIN [redis_run]:
  "has_type TZSet d k \<Longrightarrow> call redis_doc (ZPOPMIN k) f d =
     (case zset_at d k of [] \<Rightarrow> f (RArr []) d
      | (s, x) # z \<Rightarrow> f (RArr [x, itoa s]) (store_zset d k z))"
  by (cases "zset_at d k") (auto intro!: call_ok simp: redis_doc.simps)

lemma call_ZRANGEBYSCORE [redis_run]:
  "has_type TZSet d k \<Longrightarrow> call redis_doc (ZRANGEBYSCORE k mx n) f d =
     f (RArr (zrange_upto mx n (zset_at d k))) d"
  by (rule call_ok) (simp_all add: redis_doc.simps)

lemma call_HSET [redis_run]:
  "has_type THash d k \<Longrightarrow> call redis_doc (HSET k fs) f d =
     f (RInt (int (length (remdups (filter (\<lambda>f. map_of (hash_at d k) f = None) (map fst fs))))))
       (store_hash d k (hash_set fs (hash_at d k)))"
  by (rule call_ok) (simp_all add: redis_doc.simps)

lemma call_HGET [redis_run]:
  "has_type THash d k \<Longrightarrow> call redis_doc (HGET k x) f d =
     f (case map_of (hash_at d k) x of None \<Rightarrow> RNil | Some v \<Rightarrow> RBulk v) d"
  by (rule call_ok) (simp_all add: redis_doc.simps split: option.splits)

lemma call_HGETALL [redis_run]:
  "has_type THash d k \<Longrightarrow> call redis_doc (HGETALL k) f d =
     f (RArr (concat (map (\<lambda>(f, v). [f, v]) (hash_at d k)))) d"
  by (rule call_ok) (simp_all add: redis_doc.simps)

text \<open>The integer a hash field holds, a missing field counting as 0.\<close>

definition hash_int :: "(string \<times> string) list \<Rightarrow> string \<Rightarrow> int option" where
  "hash_int h f = (case map_of h f of None \<Rightarrow> Some 0 | Some v \<Rightarrow> parse_dec v)"

lemma parse_dec_0: "parse_dec ''0'' = Some 0"
  by (simp add: parse_dec_def digit_val_def)

lemma call_HINCRBY [redis_run]:
  "has_type THash d k \<Longrightarrow> hash_int (hash_at d k) x = Some m \<Longrightarrow> call redis_doc (HINCRBY k x n) f d =
     f (RInt (m + n)) (store_hash d k (hash_set [(x, itoa (m + n))] (hash_at d k)))"
  by (rule call_ok) (auto simp: redis_doc.simps hash_int_def parse_dec_0 split: option.splits)

lemma call_GET [redis_run]:
  "has_type TString d k \<Longrightarrow> call redis_doc (GET k) f d =
     f (case str_at d k of None \<Rightarrow> RNil | Some v \<Rightarrow> RBulk v) d"
  by (rule call_ok) (simp_all add: redis_doc.simps split: option.splits)

lemma call_SET [redis_run]:
  "call redis_doc (SET k v) f d = f (RStatus ''OK'') (put_ttl d k (RString v) None)"
  by (rule call_ok) (simp_all add: redis_doc.simps)

lemma call_SET_PX [redis_run]:
  "0 < ms \<Longrightarrow> call redis_doc (SET_PX k v ms) f d =
     f (RStatus ''OK'') (put_ttl d k (RString v) (Some (clock d + ms)))"
  by (rule call_ok) (simp_all add: redis_doc.simps)

lemma call_SET_NX_EX [redis_run]:
  "0 < ex \<Longrightarrow> call redis_doc (SET_NX_EX k v ex) f d =
     (if lookup d k = None
      then f (RStatus ''OK'') (put_ttl d k (RString v) (Some (clock d + 1000 * ex)))
      else f RNil d)"
  by (cases "lookup d k") (auto intro!: call_ok simp: redis_doc.simps)

lemma call_DEL [redis_run]:
  "call redis_doc (DEL k) f d = f (RInt (if lookup d k = None then 0 else 1)) (del d k)"
  by (rule call_ok) (simp_all add: redis_doc.simps)

lemma call_EXISTS [redis_run]:
  "call redis_doc (EXISTS k) f d = f (RInt (if lookup d k = None then 0 else 1)) d"
  by (rule call_ok) (simp_all add: redis_doc.simps)

lemma call_LPUSH [redis_run]:
  "has_type TList d k \<Longrightarrow> call redis_doc (LPUSH k x) f d =
     f (RInt (int (length (list_at d k)) + 1)) (store_list d k (x # list_at d k))"
  by (rule call_ok) (simp_all add: redis_doc.simps)

lemma call_LREM_1 [redis_run]:
  "has_type TList d k \<Longrightarrow> call redis_doc (LREM_1 k x) f d =
     f (RInt (if x \<in> set (list_at d k) then 1 else 0)) (store_list d k (remove1 x (list_at d k)))"
  by (rule call_ok) (simp_all add: redis_doc.simps)

lemma call_LRANGE [redis_run]:
  "has_type TList d k \<Longrightarrow> call redis_doc (LRANGE k a b) f d = f (RArr (lrange (list_at d k) a b)) d"
  by (rule call_ok) (simp_all add: redis_doc.simps)

section \<open>Simulation\<close>

text \<open>
  A computation on a server is simulated by one on its dataset when both give the same result
  and leave corresponding states. Every operation of the model is built from the combinators
  above, so the simulation follows the structure of its definition.
\<close>

definition sim :: "('s \<Rightarrow> 't) \<Rightarrow> ('s \<Rightarrow> 'a \<times> 's) \<Rightarrow> ('t \<Rightarrow> 'a \<times> 't) \<Rightarrow> bool" where
  "sim v m n \<longleftrightarrow> (\<forall>s. map_prod id v (m s) = n (v s))"

lemma simI: "(\<And>s. map_prod id v (m s) = n (v s)) \<Longrightarrow> sim v m n"
  by (simp add: sim_def)

lemma sim_fst: "sim v m n \<Longrightarrow> fst (m s) = fst (n (v s))"
  by (metis fst_map_prod id_apply sim_def)

lemma sim_snd: "sim v m n \<Longrightarrow> v (snd (m s)) = snd (n (v s))"
  by (metis snd_map_prod sim_def)

lemma sim_ret [sim_intros]: "sim v (ret a) (ret a)"
  by (simp add: sim_def ret_def)

lemma sim_raise [sim_intros]: "sim v (raise e) (raise e)"
  by (simp add: sim_def raise_def)

lemma sim_lbind [sim_intros]:
  assumes "sim v m n" and "\<And>a. sim v (f a) (g a)"
  shows "sim v (lbind m f) (lbind n g)"
proof (rule simI)
  fix s
  obtain r s' where m: "m s = (r, s')" by (cases "m s")
  with assms(1) have n: "n (v s) = (r, v s')" by (metis map_prod_simp id_apply sim_def)
  show "map_prod id v (lbind m f s) = lbind n g (v s)"
    using assms(2) by (cases r) (simp_all add: lbind_def m n sim_def)
qed

lemma sim_if [sim_intros]:
  "sim v m n \<Longrightarrow> sim v m' n' \<Longrightarrow> sim v (if b then m else m') (if b then n else n')"
  by simp

lemma sim_let [sim_intros]: "(\<And>x. sim v (f x) (g x)) \<Longrightarrow> sim v (let x = a in f x) (let x = a in g x)"
  by simp

lemma sim_case_option [sim_intros]:
  "sim v m n \<Longrightarrow> (\<And>x. sim v (f x) (g x)) \<Longrightarrow>
   sim v (case opt of None \<Rightarrow> m | Some x \<Rightarrow> f x) (case opt of None \<Rightarrow> n | Some x \<Rightarrow> g x)"
  by (cases opt) auto

lemma sim_case_list [sim_intros]:
  "sim v m n \<Longrightarrow> (\<And>x xs. sim v (f x xs) (g x xs)) \<Longrightarrow>
   sim v (case ys of [] \<Rightarrow> m | x # xs \<Rightarrow> f x xs) (case ys of [] \<Rightarrow> n | x # xs \<Rightarrow> g x xs)"
  by (cases ys) auto

lemma sim_lfold [sim_intros]:
  assumes "\<And>x b. sim v (f x b) (g x b)"
  shows "sim v (lfold f xs b) (lfold g xs b)"
proof (induction xs arbitrary: b)
  case Nil
  then show ?case by (simp add: sim_ret)
next
  case (Cons x xs)
  then show ?case using assms by (simp add: sim_lbind)
qed

lemma sim_run [sim_intros]: "sim v m n \<Longrightarrow> sim v (run flt m) (run flt n)"
  by (cases flt) (simp_all add: sim_def, metis snd_map_prod)

context redis_server
begin

lemma sim_lcall: "sim view (lcall exec c) (lcall redis_doc c)"
proof (rule simI)
  fix s
  obtain r s' where e: "exec c s = (r, s')" by (cases "exec c s")
  with exec_documented [of c s] have d: "redis_doc c (view s) = (r, view s')" by simp
  show "map_prod id view (lcall exec c s) = lcall redis_doc c (view s)"
    by (cases r) (simp_all add: lcall_def e d)
qed

lemma sim_call: "(\<And>r. sim view (f r) (g r)) \<Longrightarrow> sim view (call exec c f) (call redis_doc c g)"
  by (simp add: call_def sim_lbind sim_lcall)

lemma sim_pipe_cmds: "sim view (pipe_cmds exec cs) (pipe_cmds redis_doc cs)"
proof (induction cs)
  case Nil
  then show ?case by (simp add: sim_def)
next
  case (Cons c cs)
  show ?case
  proof (rule simI)
    fix s
    obtain r s' where e: "exec c s = (r, s')" by (cases "exec c s")
    with exec_documented [of c s] have d: "redis_doc c (view s) = (r, view s')" by simp
    obtain rs t where p: "pipe_cmds exec cs s' = (rs, t)" by (cases "pipe_cmds exec cs s'")
    with Cons.IH have q: "pipe_cmds redis_doc cs (view s') = (rs, view t)"
      by (metis map_prod_simp id_apply sim_def)
    show "map_prod id view (pipe_cmds exec (c # cs) s) = pipe_cmds redis_doc (c # cs) (view s)"
      by (simp add: e d p q)
  qed
qed

lemma sim_pipe_exec: "sim view (pipe_exec exec cs) (pipe_exec redis_doc cs)"
proof (rule simI)
  fix s
  obtain rs t where p: "pipe_cmds exec cs s = (rs, t)" by (cases "pipe_cmds exec cs s")
  with sim_pipe_cmds have q: "pipe_cmds redis_doc cs (view s) = (rs, view t)"
    by (metis map_prod_simp id_apply sim_def)
  show "map_prod id view (pipe_exec exec cs s) = pipe_exec redis_doc cs (view s)"
    by (simp add: pipe_exec_def p q split: option.split)
qed

end

end
