(* ===== verification/Keys.thy ===== *)
theory Keys
  imports Winter_Prelude
begin

text \<open>
  The Redis keys of \<^verbatim>\<open>internal/queue/queue.go\<close>, \<^verbatim>\<open>internal/workflow/workflow.go\<close>,
  \<^verbatim>\<open>internal/ratelimit/limiter.go\<close> and \<^verbatim>\<open>internal/scheduler/cron.go\<close>, and the conditions on
  queue names and job identifiers under which distinct keys are distinct strings.
\<close>

definition readyKey :: "string \<Rightarrow> string" where
  "readyKey queue = ''winter:'' @ queue @ '':ready''"

definition delayedKey :: "string \<Rightarrow> string" where
  "delayedKey queue = ''winter:'' @ queue @ '':delayed''"

definition activeKey :: "string \<Rightarrow> string" where
  "activeKey queue = ''winter:'' @ queue @ '':active''"

definition deadKey :: "string \<Rightarrow> string" where
  "deadKey queue = ''winter:'' @ queue @ '':dead''"

definition pausedKey :: "string \<Rightarrow> string" where
  "pausedKey queue = ''winter:'' @ queue @ '':paused''"

definition statsKey :: "string \<Rightarrow> string" where
  "statsKey queue = ''winter:stats:'' @ queue"

definition jobKey :: "string \<Rightarrow> string" where
  "jobKey i = ''winter:job:'' @ i"

definition leaseKey :: "string \<Rightarrow> string" where
  "leaseKey queue = ''winter:'' @ queue @ '':lease''"

definition workerJobsKey :: "string \<Rightarrow> string" where
  "workerJobsKey i = ''winter:worker:'' @ i @ '':jobs''"

definition uniqueKey :: "string \<Rightarrow> string" where
  "uniqueKey key = ''winter:unique:'' @ key"

definition workersKey :: string where
  "workersKey = ''winter:workers''"

definition resultKey :: "string \<Rightarrow> string" where
  "resultKey jobID = ''winter:job:'' @ jobID @ '':result''"

definition workflowKey :: "string \<Rightarrow> string" where
  "workflowKey i = ''winter:workflow:'' @ i"

definition depsKey :: "string \<Rightarrow> string" where
  "depsKey i = ''winter:workflow:'' @ i @ '':deps''"

definition counterKey :: "string \<Rightarrow> string" where
  "counterKey i = ''winter:workflow:'' @ i @ '':counter''"

definition bucketKey :: "string \<Rightarrow> string" where
  "bucketKey kind = ''winter:ratelimit:'' @ kind"

definition cronKey :: string where
  "cronKey = ''winter:cron''"

section \<open>Names that keep the key families apart\<close>

definition reserved_names :: "string list" where
  "reserved_names = [''job'', ''stats'', ''worker'', ''unique'', ''workflow'', ''ratelimit'']"

definition wf_queue :: "string \<Rightarrow> bool" where
  "wf_queue q \<longleftrightarrow> CHR '':'' \<notin> set q \<and> q \<notin> set reserved_names"

definition wf_id :: "string \<Rightarrow> bool" where
  "wf_id i \<longleftrightarrow> \<not> suffix '':result'' i"

text \<open>The part of a key between its first two colons.\<close>

definition segment :: "string \<Rightarrow> string" where
  "segment k = takeWhile (\<lambda>c. c \<noteq> CHR '':'') (drop 7 k)"

lemma takeWhile_name: "x \<notin> set q \<Longrightarrow> takeWhile (\<lambda>c. c \<noteq> x) (q @ x # r) = q"
  by (induction q) auto

lemma segment_queue:
  assumes "wf_queue q"
  shows "segment (readyKey q) = q" "segment (delayedKey q) = q" "segment (activeKey q) = q"
    "segment (deadKey q) = q" "segment (pausedKey q) = q" "segment (leaseKey q) = q"
  using assms
  by (simp_all add: segment_def readyKey_def delayedKey_def activeKey_def deadKey_def
      pausedKey_def leaseKey_def wf_queue_def takeWhile_name)

lemma segment_global:
  "segment (jobKey i) = ''job''" "segment (resultKey i) = ''job''" "segment (statsKey q) = ''stats''"
  "segment (workerJobsKey w) = ''worker''" "segment (uniqueKey u) = ''unique''"
  "segment (workflowKey w) = ''workflow''" "segment (depsKey w) = ''workflow''"
  "segment (counterKey w) = ''workflow''" "segment (bucketKey w) = ''ratelimit''"
  "segment workersKey = ''workers''" "segment cronKey = ''cron''"
  by (simp_all add: segment_def jobKey_def resultKey_def statsKey_def workerJobsKey_def uniqueKey_def
      workflowKey_def depsKey_def counterKey_def bucketKey_def workersKey_def cronKey_def)

lemma wf_queue_reserved: "wf_queue q \<Longrightarrow> q \<notin> set reserved_names"
  by (simp add: wf_queue_def)

lemma segment_neq: "segment a \<noteq> segment b \<Longrightarrow> a \<noteq> b"
  by auto

lemmas queue_key_defs = readyKey_def delayedKey_def activeKey_def deadKey_def pausedKey_def leaseKey_def

lemma key_inject [key_simps]:
  "readyKey q = readyKey q' \<longleftrightarrow> q = q'" "delayedKey q = delayedKey q' \<longleftrightarrow> q = q'"
  "activeKey q = activeKey q' \<longleftrightarrow> q = q'" "deadKey q = deadKey q' \<longleftrightarrow> q = q'"
  "pausedKey q = pausedKey q' \<longleftrightarrow> q = q'" "leaseKey q = leaseKey q' \<longleftrightarrow> q = q'"
  "statsKey q = statsKey q' \<longleftrightarrow> q = q'" "jobKey i = jobKey i' \<longleftrightarrow> i = i'"
  "workerJobsKey w = workerJobsKey w' \<longleftrightarrow> w = w'" "uniqueKey u = uniqueKey u' \<longleftrightarrow> u = u'"
  "resultKey i = resultKey i' \<longleftrightarrow> i = i'"
  by (simp_all add: queue_key_defs statsKey_def jobKey_def workerJobsKey_def uniqueKey_def resultKey_def)

text \<open>Two keys of one queue family end differently.\<close>

lemma queue_suffix_neq [key_simps]:
  "readyKey q \<noteq> delayedKey q'" "readyKey q \<noteq> activeKey q'" "readyKey q \<noteq> deadKey q'"
  "readyKey q \<noteq> pausedKey q'" "readyKey q \<noteq> leaseKey q'"
  "delayedKey q \<noteq> readyKey q'" "delayedKey q \<noteq> activeKey q'" "delayedKey q \<noteq> deadKey q'"
  "delayedKey q \<noteq> pausedKey q'" "delayedKey q \<noteq> leaseKey q'"
  "activeKey q \<noteq> readyKey q'" "activeKey q \<noteq> delayedKey q'" "activeKey q \<noteq> deadKey q'"
  "activeKey q \<noteq> pausedKey q'" "activeKey q \<noteq> leaseKey q'"
  "deadKey q \<noteq> readyKey q'" "deadKey q \<noteq> delayedKey q'" "deadKey q \<noteq> activeKey q'"
  "deadKey q \<noteq> pausedKey q'" "deadKey q \<noteq> leaseKey q'"
  "pausedKey q \<noteq> readyKey q'" "pausedKey q \<noteq> delayedKey q'" "pausedKey q \<noteq> activeKey q'"
  "pausedKey q \<noteq> deadKey q'" "pausedKey q \<noteq> leaseKey q'"
  "leaseKey q \<noteq> readyKey q'" "leaseKey q \<noteq> delayedKey q'" "leaseKey q \<noteq> activeKey q'"
  "leaseKey q \<noteq> deadKey q'" "leaseKey q \<noteq> pausedKey q'"
  by (auto simp: queue_key_defs dest: arg_cong [where f = rev])

text \<open>The keys of a well-named queue are none of the global keys.\<close>

lemma readyKey_global [key_simps]:
  assumes "wf_queue q"
  shows "readyKey q \<noteq> jobKey x" "jobKey x \<noteq> readyKey q"
    "readyKey q \<noteq> resultKey x" "resultKey x \<noteq> readyKey q"
    "readyKey q \<noteq> statsKey x" "statsKey x \<noteq> readyKey q"
    "readyKey q \<noteq> workerJobsKey x" "workerJobsKey x \<noteq> readyKey q"
    "readyKey q \<noteq> uniqueKey x" "uniqueKey x \<noteq> readyKey q"
    "readyKey q \<noteq> workflowKey x" "workflowKey x \<noteq> readyKey q"
    "readyKey q \<noteq> depsKey x" "depsKey x \<noteq> readyKey q"
    "readyKey q \<noteq> counterKey x" "counterKey x \<noteq> readyKey q"
    "readyKey q \<noteq> bucketKey x" "bucketKey x \<noteq> readyKey q"
  using wf_queue_reserved [OF assms] segment_queue [OF assms] segment_global
  by (auto simp: reserved_names_def dest: arg_cong [where f = segment])

lemma delayedKey_global [key_simps]:
  assumes "wf_queue q"
  shows "delayedKey q \<noteq> jobKey x" "jobKey x \<noteq> delayedKey q"
    "delayedKey q \<noteq> resultKey x" "resultKey x \<noteq> delayedKey q"
    "delayedKey q \<noteq> statsKey x" "statsKey x \<noteq> delayedKey q"
    "delayedKey q \<noteq> workerJobsKey x" "workerJobsKey x \<noteq> delayedKey q"
    "delayedKey q \<noteq> uniqueKey x" "uniqueKey x \<noteq> delayedKey q"
    "delayedKey q \<noteq> workflowKey x" "workflowKey x \<noteq> delayedKey q"
    "delayedKey q \<noteq> depsKey x" "depsKey x \<noteq> delayedKey q"
    "delayedKey q \<noteq> counterKey x" "counterKey x \<noteq> delayedKey q"
    "delayedKey q \<noteq> bucketKey x" "bucketKey x \<noteq> delayedKey q"
  using wf_queue_reserved [OF assms] segment_queue [OF assms] segment_global
  by (auto simp: reserved_names_def dest: arg_cong [where f = segment])

lemma activeKey_global [key_simps]:
  assumes "wf_queue q"
  shows "activeKey q \<noteq> jobKey x" "jobKey x \<noteq> activeKey q"
    "activeKey q \<noteq> resultKey x" "resultKey x \<noteq> activeKey q"
    "activeKey q \<noteq> statsKey x" "statsKey x \<noteq> activeKey q"
    "activeKey q \<noteq> workerJobsKey x" "workerJobsKey x \<noteq> activeKey q"
    "activeKey q \<noteq> uniqueKey x" "uniqueKey x \<noteq> activeKey q"
    "activeKey q \<noteq> workflowKey x" "workflowKey x \<noteq> activeKey q"
    "activeKey q \<noteq> depsKey x" "depsKey x \<noteq> activeKey q"
    "activeKey q \<noteq> counterKey x" "counterKey x \<noteq> activeKey q"
    "activeKey q \<noteq> bucketKey x" "bucketKey x \<noteq> activeKey q"
  using wf_queue_reserved [OF assms] segment_queue [OF assms] segment_global
  by (auto simp: reserved_names_def dest: arg_cong [where f = segment])

lemma deadKey_global [key_simps]:
  assumes "wf_queue q"
  shows "deadKey q \<noteq> jobKey x" "jobKey x \<noteq> deadKey q"
    "deadKey q \<noteq> resultKey x" "resultKey x \<noteq> deadKey q"
    "deadKey q \<noteq> statsKey x" "statsKey x \<noteq> deadKey q"
    "deadKey q \<noteq> workerJobsKey x" "workerJobsKey x \<noteq> deadKey q"
    "deadKey q \<noteq> uniqueKey x" "uniqueKey x \<noteq> deadKey q"
    "deadKey q \<noteq> workflowKey x" "workflowKey x \<noteq> deadKey q"
    "deadKey q \<noteq> depsKey x" "depsKey x \<noteq> deadKey q"
    "deadKey q \<noteq> counterKey x" "counterKey x \<noteq> deadKey q"
    "deadKey q \<noteq> bucketKey x" "bucketKey x \<noteq> deadKey q"
  using wf_queue_reserved [OF assms] segment_queue [OF assms] segment_global
  by (auto simp: reserved_names_def dest: arg_cong [where f = segment])

lemma pausedKey_global [key_simps]:
  assumes "wf_queue q"
  shows "pausedKey q \<noteq> jobKey x" "jobKey x \<noteq> pausedKey q"
    "pausedKey q \<noteq> resultKey x" "resultKey x \<noteq> pausedKey q"
    "pausedKey q \<noteq> statsKey x" "statsKey x \<noteq> pausedKey q"
    "pausedKey q \<noteq> workerJobsKey x" "workerJobsKey x \<noteq> pausedKey q"
    "pausedKey q \<noteq> uniqueKey x" "uniqueKey x \<noteq> pausedKey q"
    "pausedKey q \<noteq> workflowKey x" "workflowKey x \<noteq> pausedKey q"
    "pausedKey q \<noteq> depsKey x" "depsKey x \<noteq> pausedKey q"
    "pausedKey q \<noteq> counterKey x" "counterKey x \<noteq> pausedKey q"
    "pausedKey q \<noteq> bucketKey x" "bucketKey x \<noteq> pausedKey q"
  using wf_queue_reserved [OF assms] segment_queue [OF assms] segment_global
  by (auto simp: reserved_names_def dest: arg_cong [where f = segment])

lemma leaseKey_global [key_simps]:
  assumes "wf_queue q"
  shows "leaseKey q \<noteq> jobKey x" "jobKey x \<noteq> leaseKey q"
    "leaseKey q \<noteq> resultKey x" "resultKey x \<noteq> leaseKey q"
    "leaseKey q \<noteq> statsKey x" "statsKey x \<noteq> leaseKey q"
    "leaseKey q \<noteq> workerJobsKey x" "workerJobsKey x \<noteq> leaseKey q"
    "leaseKey q \<noteq> uniqueKey x" "uniqueKey x \<noteq> leaseKey q"
    "leaseKey q \<noteq> workflowKey x" "workflowKey x \<noteq> leaseKey q"
    "leaseKey q \<noteq> depsKey x" "depsKey x \<noteq> leaseKey q"
    "leaseKey q \<noteq> counterKey x" "counterKey x \<noteq> leaseKey q"
    "leaseKey q \<noteq> bucketKey x" "bucketKey x \<noteq> leaseKey q"
  using wf_queue_reserved [OF assms] segment_queue [OF assms] segment_global
  by (auto simp: reserved_names_def dest: arg_cong [where f = segment])

lemma registry_keys [key_simps]:
  "readyKey q \<noteq> workersKey" "workersKey \<noteq> readyKey q"
  "readyKey q \<noteq> cronKey" "cronKey \<noteq> readyKey q"
  "delayedKey q \<noteq> workersKey" "workersKey \<noteq> delayedKey q"
  "delayedKey q \<noteq> cronKey" "cronKey \<noteq> delayedKey q"
  "activeKey q \<noteq> workersKey" "workersKey \<noteq> activeKey q"
  "activeKey q \<noteq> cronKey" "cronKey \<noteq> activeKey q"
  "deadKey q \<noteq> workersKey" "workersKey \<noteq> deadKey q"
  "deadKey q \<noteq> cronKey" "cronKey \<noteq> deadKey q"
  "pausedKey q \<noteq> workersKey" "workersKey \<noteq> pausedKey q"
  "pausedKey q \<noteq> cronKey" "cronKey \<noteq> pausedKey q"
  "leaseKey q \<noteq> workersKey" "workersKey \<noteq> leaseKey q"
  "leaseKey q \<noteq> cronKey" "cronKey \<noteq> leaseKey q"
  by (auto simp: queue_key_defs workersKey_def cronKey_def dest: arg_cong [where f = rev])

lemma global_neq [key_simps]:
  "jobKey x \<noteq> statsKey y" "statsKey y \<noteq> jobKey x"
  "jobKey x \<noteq> workerJobsKey y" "workerJobsKey y \<noteq> jobKey x"
  "jobKey x \<noteq> uniqueKey y" "uniqueKey y \<noteq> jobKey x"
  "jobKey x \<noteq> workflowKey y" "workflowKey y \<noteq> jobKey x"
  "jobKey x \<noteq> depsKey y" "depsKey y \<noteq> jobKey x"
  "jobKey x \<noteq> counterKey y" "counterKey y \<noteq> jobKey x"
  "jobKey x \<noteq> bucketKey y" "bucketKey y \<noteq> jobKey x"
  "jobKey x \<noteq> workersKey" "workersKey \<noteq> jobKey x"
  "jobKey x \<noteq> cronKey" "cronKey \<noteq> jobKey x"
  "resultKey x \<noteq> statsKey y" "statsKey y \<noteq> resultKey x"
  "resultKey x \<noteq> workerJobsKey y" "workerJobsKey y \<noteq> resultKey x"
  "resultKey x \<noteq> uniqueKey y" "uniqueKey y \<noteq> resultKey x"
  "resultKey x \<noteq> workflowKey y" "workflowKey y \<noteq> resultKey x"
  "resultKey x \<noteq> depsKey y" "depsKey y \<noteq> resultKey x"
  "resultKey x \<noteq> counterKey y" "counterKey y \<noteq> resultKey x"
  "resultKey x \<noteq> bucketKey y" "bucketKey y \<noteq> resultKey x"
  "resultKey x \<noteq> workersKey" "workersKey \<noteq> resultKey x"
  "resultKey x \<noteq> cronKey" "cronKey \<noteq> resultKey x"
  "statsKey x \<noteq> workerJobsKey y" "workerJobsKey y \<noteq> statsKey x"
  "statsKey x \<noteq> uniqueKey y" "uniqueKey y \<noteq> statsKey x"
  "statsKey x \<noteq> workflowKey y" "workflowKey y \<noteq> statsKey x"
  "statsKey x \<noteq> depsKey y" "depsKey y \<noteq> statsKey x"
  "statsKey x \<noteq> counterKey y" "counterKey y \<noteq> statsKey x"
  "statsKey x \<noteq> bucketKey y" "bucketKey y \<noteq> statsKey x"
  "statsKey x \<noteq> workersKey" "workersKey \<noteq> statsKey x"
  "statsKey x \<noteq> cronKey" "cronKey \<noteq> statsKey x"
  "workerJobsKey x \<noteq> uniqueKey y" "uniqueKey y \<noteq> workerJobsKey x"
  "workerJobsKey x \<noteq> workflowKey y" "workflowKey y \<noteq> workerJobsKey x"
  "workerJobsKey x \<noteq> depsKey y" "depsKey y \<noteq> workerJobsKey x"
  "workerJobsKey x \<noteq> counterKey y" "counterKey y \<noteq> workerJobsKey x"
  "workerJobsKey x \<noteq> bucketKey y" "bucketKey y \<noteq> workerJobsKey x"
  "workerJobsKey x \<noteq> workersKey" "workersKey \<noteq> workerJobsKey x"
  "workerJobsKey x \<noteq> cronKey" "cronKey \<noteq> workerJobsKey x"
  "uniqueKey x \<noteq> workflowKey y" "workflowKey y \<noteq> uniqueKey x"
  "uniqueKey x \<noteq> depsKey y" "depsKey y \<noteq> uniqueKey x"
  "uniqueKey x \<noteq> counterKey y" "counterKey y \<noteq> uniqueKey x"
  "uniqueKey x \<noteq> bucketKey y" "bucketKey y \<noteq> uniqueKey x"
  "uniqueKey x \<noteq> workersKey" "workersKey \<noteq> uniqueKey x"
  "uniqueKey x \<noteq> cronKey" "cronKey \<noteq> uniqueKey x"
  "workflowKey x \<noteq> bucketKey y" "bucketKey y \<noteq> workflowKey x"
  "workflowKey x \<noteq> workersKey" "workersKey \<noteq> workflowKey x"
  "workflowKey x \<noteq> cronKey" "cronKey \<noteq> workflowKey x"
  "depsKey x \<noteq> counterKey y" "counterKey y \<noteq> depsKey x"
  "depsKey x \<noteq> bucketKey y" "bucketKey y \<noteq> depsKey x"
  "depsKey x \<noteq> workersKey" "workersKey \<noteq> depsKey x"
  "depsKey x \<noteq> cronKey" "cronKey \<noteq> depsKey x"
  "counterKey x \<noteq> bucketKey y" "bucketKey y \<noteq> counterKey x"
  "counterKey x \<noteq> workersKey" "workersKey \<noteq> counterKey x"
  "counterKey x \<noteq> cronKey" "cronKey \<noteq> counterKey x"
  "bucketKey x \<noteq> workersKey" "workersKey \<noteq> bucketKey x"
  "bucketKey x \<noteq> cronKey" "cronKey \<noteq> bucketKey x"
  "workersKey \<noteq> cronKey" "cronKey \<noteq> workersKey"
  by (auto simp: jobKey_def resultKey_def statsKey_def workerJobsKey_def uniqueKey_def workflowKey_def
      depsKey_def counterKey_def bucketKey_def workersKey_def cronKey_def dest: arg_cong [where f = rev])

lemma resultKey_jobKey [key_simps]:
  assumes "wf_id i"
  shows "jobKey i \<noteq> resultKey j" "resultKey j \<noteq> jobKey i"
  using assms by (auto simp: jobKey_def resultKey_def wf_id_def suffix_def)

text \<open>An unset unique key is the empty string, which is no key of the program.\<close>

lemma keys_not_Nil [simp]:
  "uniqueKey u \<noteq> []" "jobKey i \<noteq> []" "readyKey q \<noteq> []" "delayedKey q \<noteq> []" "statsKey q \<noteq> []"
  by (simp_all add: uniqueKey_def jobKey_def readyKey_def delayedKey_def statsKey_def)

end
