(* ===== verification/Scripts.thy ===== *)
theory Scripts
  imports Lua Keys
begin

text \<open>
  The Lua scripts of \<^verbatim>\<open>internal/queue/scripts.go\<close>, one definition per script. The first
  arguments are the keys (\<open>KEYS\<close>), the others the values (\<open>ARGV\<close>): an argument that the script
  passes through \<open>tonumber\<close> is an integer, the others are strings. The result is the script's
  reply, or the error that ends it.
\<close>

definition jobKeyOf :: "string \<Rightarrow> string" where
  "jobKeyOf i = ''winter:job:'' @ i"

lemma jobKeyOf_eq [simp]: "jobKeyOf i = jobKey i"
  by (simp add: jobKeyOf_def jobKey_def)

text \<open>Release of the unique lock, shared by \<open>ack\<close>, \<open>nack\<close> and \<open>cancel\<close>: only its owner's id deletes it.\<close>

definition release_unique :: "'s server \<Rightarrow> key \<Rightarrow> string \<Rightarrow> ('s, 'a) lua \<Rightarrow> ('s, 'a) lua" where
  "release_unique exec jobK jid k =
     call exec (HGET jobK ''unique_key'') (\<lambda>uk.
       case uk of
         RBulk u \<Rightarrow>
           (if u \<noteq> '''' then
              call exec (GET u) (\<lambda>own.
                if own = RBulk jid then call exec (DEL u) (\<lambda>_. k) else k)
            else k)
       | _ \<Rightarrow> k)"

definition enqueueScript :: "'s server \<Rightarrow> key \<Rightarrow> key \<Rightarrow> key \<Rightarrow> key \<Rightarrow> key \<Rightarrow> string \<Rightarrow> string \<Rightarrow> string \<Rightarrow>
    int \<Rightarrow> string \<Rightarrow> string \<Rightarrow> int \<Rightarrow> string \<Rightarrow> int \<Rightarrow> int \<Rightarrow> string \<Rightarrow> ('s, reply) lua" where
  "enqueueScript exec jobK readyK delayedK statsK uniqueK jid kind qname priority state payload
       maxRetries createdAt scheduledAt uniqueTTL workflowID =
     (let insert_job =
        call exec (HSET jobK
          [(''id'', jid), (''kind'', kind), (''queue'', qname), (''priority'', itoa priority),
           (''state'', state), (''payload'', payload), (''attempt'', itoa 0),
           (''max_retries'', itoa maxRetries), (''created_at'', createdAt),
           (''scheduled_at'', itoa scheduledAt), (''started_at'', itoa 0),
           (''completed_at'', itoa 0), (''last_error'', ''''), (''unique_key'', uniqueK),
           (''workflow_id'', workflowID)]) (\<lambda>_.
        call exec (if scheduledAt > 0 then ZADD delayedK scheduledAt jid else ZADD readyK priority jid) (\<lambda>_.
        call exec (HINCRBY statsK ''enqueued'' 1) (\<lambda>_.
        ret (RBulk jid))))
      in if uniqueK \<noteq> '''' \<and> uniqueTTL > 0
         then call exec (SET_NX_EX uniqueK jid uniqueTTL) (\<lambda>set.
                if set = RNil then raise ''DUPLICATE'' else insert_job)
         else insert_job)"

definition dequeueScript :: "'s server \<Rightarrow> key \<Rightarrow> key \<Rightarrow> key \<Rightarrow> key \<Rightarrow> key \<Rightarrow> int \<Rightarrow> int \<Rightarrow> ('s, reply) lua" where
  "dequeueScript exec readyK activeK pausedK workerJobsK leaseK now leaseDurationMs =
     call exec (EXISTS pausedK) (\<lambda>p.
       if p = RInt 1 then ret RNil
       else call exec (ZPOPMIN readyK) (\<lambda>result.
         case elements result of
           [] \<Rightarrow> ret RNil
         | jid # _ \<Rightarrow>
             call exec (SADD activeK jid) (\<lambda>_.
             call exec (HSET (jobKeyOf jid) [(''state'', ''active''), (''started_at'', itoa now)]) (\<lambda>_.
             call exec (SADD workerJobsK jid) (\<lambda>_.
             call exec (ZADD leaseK (now + leaseDurationMs) jid) (\<lambda>_.
             call exec (HGETALL (jobKeyOf jid)) (\<lambda>data. ret data)))))))"

definition ackScript :: "'s server \<Rightarrow> key \<Rightarrow> key \<Rightarrow> key \<Rightarrow> key \<Rightarrow> key \<Rightarrow> string \<Rightarrow> string \<Rightarrow> ('s, reply) lua" where
  "ackScript exec jobK activeK statsK workerJobsK leaseK jid now =
     call exec (SREM activeK jid) (\<lambda>_.
     call exec (SREM workerJobsK jid) (\<lambda>_.
     call exec (ZREM leaseK jid) (\<lambda>_.
     call exec (HSET jobK [(''state'', ''completed''), (''completed_at'', now)]) (\<lambda>_.
     call exec (HINCRBY statsK ''completed'' 1) (\<lambda>_.
     release_unique exec jobK jid (ret (RInt 1)))))))"

definition nackScript :: "'s server \<Rightarrow> key \<Rightarrow> key \<Rightarrow> key \<Rightarrow> key \<Rightarrow> key \<Rightarrow> key \<Rightarrow> key \<Rightarrow> string \<Rightarrow> string \<Rightarrow>
    int \<Rightarrow> int \<Rightarrow> int \<Rightarrow> ('s, reply) lua" where
  "nackScript exec jobK activeK delayedK deadK statsK workerJobsK leaseK jid errorMsg backoffMs now skipRetry =
     call exec (SREM activeK jid) (\<lambda>_.
     call exec (SREM workerJobsK jid) (\<lambda>_.
     call exec (ZREM leaseK jid) (\<lambda>_.
     call exec (HINCRBY jobK ''attempt'' 1) (\<lambda>attempt.
     call exec (HSET jobK [(''last_error'', errorMsg)]) (\<lambda>_.
     call exec (HINCRBY statsK ''failed'' 1) (\<lambda>_.
     call exec (HGET jobK ''max_retries'') (\<lambda>mr.
       let dead =
         call exec (LPUSH deadK jid) (\<lambda>_.
         call exec (HSET jobK [(''state'', ''dead'')]) (\<lambda>_.
         call exec (HINCRBY statsK ''dead_total'' 1) (\<lambda>_.
         release_unique exec jobK jid (ret (RBulk ''dead'')))));
         retry =
         call exec (ZADD delayedK (now + backoffMs) jid) (\<lambda>_.
         call exec (HSET jobK [(''state'', ''retry'')]) (\<lambda>_.
         ret (RBulk ''retry'')))
       in if skipRetry = 1 then dead
          else case (tonumber attempt, tonumber mr) of
                 (Some a, Some maxRetries) \<Rightarrow> if a \<ge> maxRetries then dead else retry
               | _ \<Rightarrow> raise ''attempt to compare nil with number'')))))))"

definition rescheduleScript :: "'s server \<Rightarrow> key \<Rightarrow> key \<Rightarrow> key \<Rightarrow> key \<Rightarrow> key \<Rightarrow> string \<Rightarrow> int \<Rightarrow> ('s, reply) lua" where
  "rescheduleScript exec jobK activeK delayedK workerJobsK leaseK jid newTimestamp =
     call exec (SREM activeK jid) (\<lambda>_.
     call exec (SREM workerJobsK jid) (\<lambda>_.
     call exec (ZREM leaseK jid) (\<lambda>_.
     call exec (ZADD delayedK newTimestamp jid) (\<lambda>_.
     call exec (HSET jobK [(''state'', ''pending''), (''scheduled_at'', itoa newTimestamp),
                           (''started_at'', itoa 0)]) (\<lambda>_.
     ret (RInt 1))))))"

definition cancelScript :: "'s server \<Rightarrow> key \<Rightarrow> key \<Rightarrow> key \<Rightarrow> key \<Rightarrow> string \<Rightarrow> string \<Rightarrow> string \<Rightarrow> ('s, reply) lua" where
  "cancelScript exec jobK activeK workerJobsK leaseK jid now reason =
     call exec (SREM activeK jid) (\<lambda>_.
     call exec (SREM workerJobsK jid) (\<lambda>_.
     call exec (ZREM leaseK jid) (\<lambda>_.
     call exec (HSET jobK [(''state'', ''cancelled''), (''completed_at'', now), (''last_error'', reason)]) (\<lambda>_.
     release_unique exec jobK jid (ret (RInt 1))))))"

definition extendLeaseScript :: "'s server \<Rightarrow> key \<Rightarrow> string \<Rightarrow> int \<Rightarrow> ('s, reply) lua" where
  "extendLeaseScript exec leaseK jid newExpiry = call exec (ZADD_XX leaseK newExpiry jid) ret"

text \<open>\<open>tonumber(redis.call("HGET", jobKey, "priority")) or 5\<close>\<close>

definition priority_or_default :: "reply \<Rightarrow> int" where
  "priority_or_default r = (case tonumber r of None \<Rightarrow> 5 | Some p \<Rightarrow> p)"

text \<open>The body of the recovery loop; \<open>recovered\<close> is the table it appends to.\<close>

definition recover_one :: "'s server \<Rightarrow> key \<Rightarrow> key \<Rightarrow> key \<Rightarrow> string \<Rightarrow> string list \<Rightarrow> ('s, string list) lua" where
  "recover_one exec leaseK activeK readyK jid recovered =
     call exec (SREM activeK jid) (\<lambda>removed.
       if removed = RInt 1 then
         call exec (ZREM leaseK jid) (\<lambda>_.
         call exec (HGET (jobKeyOf jid) ''priority'') (\<lambda>p.
         call exec (ZADD readyK (priority_or_default p) jid) (\<lambda>_.
         call exec (HSET (jobKeyOf jid) [(''state'', ''pending''), (''started_at'', itoa 0)]) (\<lambda>_.
         ret (recovered @ [jid])))))
       else call exec (ZREM leaseK jid) (\<lambda>_. ret recovered))"

definition recoverLeasesScript :: "'s server \<Rightarrow> key \<Rightarrow> key \<Rightarrow> key \<Rightarrow> int \<Rightarrow> int \<Rightarrow> ('s, reply) lua" where
  "recoverLeasesScript exec leaseK activeK readyK now limit =
     call exec (ZRANGEBYSCORE leaseK now limit) (\<lambda>expired.
       if elements expired = [] then ret (RArr [])
       else lbind (lfold (recover_one exec leaseK activeK readyK) (elements expired) [])
              (\<lambda>recovered. ret (RArr recovered)))"

definition promote_one :: "'s server \<Rightarrow> key \<Rightarrow> key \<Rightarrow> string \<Rightarrow> unit \<Rightarrow> ('s, unit) lua" where
  "promote_one exec delayedK readyK jid u =
     call exec (ZREM delayedK jid) (\<lambda>_.
     call exec (HGET (jobKeyOf jid) ''priority'') (\<lambda>p.
     call exec (ZADD readyK (priority_or_default p) jid) (\<lambda>_.
     call exec (HSET (jobKeyOf jid) [(''state'', ''pending'')]) (\<lambda>_.
     ret ()))))"

definition promoteScript :: "'s server \<Rightarrow> key \<Rightarrow> key \<Rightarrow> int \<Rightarrow> int \<Rightarrow> ('s, reply) lua" where
  "promoteScript exec delayedK readyK now limit =
     call exec (ZRANGEBYSCORE delayedK now limit) (\<lambda>jobs.
       if elements jobs = [] then ret (RInt 0)
       else lbind (lfold (promote_one exec delayedK readyK) (elements jobs) ())
              (\<lambda>_. ret (RInt (int (length (elements jobs))))))"

definition retryDeadScript :: "'s server \<Rightarrow> key \<Rightarrow> key \<Rightarrow> key \<Rightarrow> key \<Rightarrow> string \<Rightarrow> ('s, reply) lua" where
  "retryDeadScript exec jobK deadK readyK statsK jid =
     call exec (LREM_1 deadK jid) (\<lambda>removed.
       if removed = RInt 0 then ret (RInt 0)
       else call exec (HGET jobK ''priority'') (\<lambda>p.
         call exec (HSET jobK [(''state'', ''pending''), (''attempt'', itoa 0), (''last_error'', ''''),
                               (''completed_at'', itoa 0), (''started_at'', itoa 0)]) (\<lambda>_.
         call exec (ZADD readyK (priority_or_default p) jid) (\<lambda>_.
         call exec (HINCRBY statsK ''retried'' 1) (\<lambda>_.
         ret (RInt 1))))))"

definition purge_one :: "'s server \<Rightarrow> string \<Rightarrow> unit \<Rightarrow> ('s, unit) lua" where
  "purge_one exec jid u = call exec (DEL (jobKeyOf jid)) (\<lambda>_. ret ())"

definition purgeDeadScript :: "'s server \<Rightarrow> key \<Rightarrow> ('s, reply) lua" where
  "purgeDeadScript exec deadK =
     call exec (LRANGE deadK 0 (- 1)) (\<lambda>ids.
       lbind (lfold (purge_one exec) (elements ids) ()) (\<lambda>_.
       call exec (DEL deadK) (\<lambda>_.
       ret (RInt (int (length (elements ids)))))))"

section \<open>Simulation of the scripts\<close>

text \<open>On any server that behaves as documented a script acts as on the logical dataset.\<close>

lemma sim_case_bulk [sim_intros]:
  "(\<And>u. sim v (f u) (g u)) \<Longrightarrow> sim v m n \<Longrightarrow>
   sim v (case r of RBulk u \<Rightarrow> f u | _ \<Rightarrow> m) (case r of RBulk u \<Rightarrow> g u | _ \<Rightarrow> n)"
  by (cases r) auto

lemma sim_case_numbers [sim_intros]:
  "(\<And>a b. sim v (f a b) (g a b)) \<Longrightarrow> sim v m n \<Longrightarrow>
   sim v (case p of (Some a, Some b) \<Rightarrow> f a b | _ \<Rightarrow> m) (case p of (Some a, Some b) \<Rightarrow> g a b | _ \<Rightarrow> n)"
  by (auto split: prod.splits option.splits)

context redis_server
begin

lemmas script_sim = sim_intros sim_call

lemma sim_release_unique:
  "sim view k k' \<Longrightarrow> sim view (release_unique exec jobK jid k) (release_unique redis_doc jobK jid k')"
  unfolding release_unique_def by (intro script_sim)

lemma sim_enqueueScript: "sim view (enqueueScript exec a b c d e f g h i j k l m n p q)
    (enqueueScript redis_doc a b c d e f g h i j k l m n p q)"
  unfolding enqueueScript_def Let_def by (intro script_sim)

lemma sim_dequeueScript:
  "sim view (dequeueScript exec a b c d e f g) (dequeueScript redis_doc a b c d e f g)"
  unfolding dequeueScript_def by (intro script_sim)

lemma sim_ackScript: "sim view (ackScript exec a b c d e f g) (ackScript redis_doc a b c d e f g)"
  unfolding ackScript_def by (intro script_sim sim_release_unique)

lemma sim_nackScript:
  "sim view (nackScript exec a b c d e f g h i j k l) (nackScript redis_doc a b c d e f g h i j k l)"
  unfolding nackScript_def Let_def by (intro script_sim sim_release_unique)

lemma sim_rescheduleScript:
  "sim view (rescheduleScript exec a b c d e f g) (rescheduleScript redis_doc a b c d e f g)"
  unfolding rescheduleScript_def by (intro script_sim)

lemma sim_cancelScript:
  "sim view (cancelScript exec a b c d e f g) (cancelScript redis_doc a b c d e f g)"
  unfolding cancelScript_def by (intro script_sim sim_release_unique)

lemma sim_extendLeaseScript:
  "sim view (extendLeaseScript exec a b c) (extendLeaseScript redis_doc a b c)"
  unfolding extendLeaseScript_def by (intro script_sim)

lemma sim_recoverLeasesScript:
  "sim view (recoverLeasesScript exec a b c d e) (recoverLeasesScript redis_doc a b c d e)"
  unfolding recoverLeasesScript_def recover_one_def by (intro script_sim)

lemma sim_promoteScript:
  "sim view (promoteScript exec a b c d) (promoteScript redis_doc a b c d)"
  unfolding promoteScript_def promote_one_def by (intro script_sim)

lemma sim_retryDeadScript:
  "sim view (retryDeadScript exec a b c d e) (retryDeadScript redis_doc a b c d e)"
  unfolding retryDeadScript_def by (intro script_sim)

lemma sim_purgeDeadScript: "sim view (purgeDeadScript exec a) (purgeDeadScript redis_doc a)"
  unfolding purgeDeadScript_def purge_one_def by (intro script_sim)

lemmas scripts_sim = sim_enqueueScript sim_dequeueScript sim_ackScript sim_nackScript
  sim_rescheduleScript sim_cancelScript sim_extendLeaseScript sim_recoverLeasesScript
  sim_promoteScript sim_retryDeadScript sim_purgeDeadScript

end

end
