(* ===== verification/Float64.thy ===== *)
theory Float64
  imports Winter_Prelude "HOL-Library.Log_Nat" Complex_Main
begin

text \<open>
  Floating point numbers of 64 bits (IEEE 754 doubles), which Lua computes with and which Go uses to
  read fractions of a duration: the rounding of a rational to the nearest double, ties to even, and
  the conversions to and from decimal text (\<open>%.17g\<close> and \<open>strtod\<close>). Doubles are the rationals that
  rounding leaves alone; infinities and NaN are outside of the model.
\<close>

section \<open>Magnitudes\<close>

text \<open>The exponent of the greatest power of the base that is not above a positive rational.\<close>

definition floor_log :: "nat \<Rightarrow> rat \<Rightarrow> int" where
  "floor_log b x =
     (case quotient_of x of
        (p, q) \<Rightarrow> let e = int (floorlog b (nat p)) - int (floorlog b (nat q))
                  in if of_nat b powi e \<le> x then e else e - 1)"

lemma powi_less_iff: "1 < b \<Longrightarrow> (of_nat b :: rat) powi i < of_nat b powi j \<longleftrightarrow> i < j"
  by (metis linorder_not_less nless_le of_nat_1 of_nat_less_iff power_int_increasing power_int_strict_increasing)

lemma powi_le_iff: "1 < b \<Longrightarrow> (of_nat b :: rat) powi i \<le> of_nat b powi j \<longleftrightarrow> i \<le> j"
  by (meson linorder_not_less powi_less_iff)

lemma floorlog_powi:
  assumes "1 < b" "0 < n"
  shows "(of_nat b :: rat) powi (int (floorlog b n) - 1) \<le> of_nat n" "(of_nat n :: rat) < of_nat b powi int (floorlog b n)"
proof -
  have "0 < floorlog b n" using assms by (simp add: floorlog_def)
  then have "(of_nat b :: rat) powi (int (floorlog b n) - 1) = of_nat (b ^ (floorlog b n - 1))"
    by (simp add: power_int_def nat_diff_distrib)
  then show "(of_nat b :: rat) powi (int (floorlog b n) - 1) \<le> of_nat n" using floorlog_bounds [of n b] assms by (simp del: of_nat_power)
  have "(of_nat b :: rat) powi int (floorlog b n) = of_nat (b ^ floorlog b n)" by (simp add: power_int_def)
  then show "(of_nat n :: rat) < of_nat b powi int (floorlog b n)" using floorlog_bounds [of n b] assms by (simp del: of_nat_power)
qed

lemma floor_log_bounds:
  assumes "1 < b" "0 < x"
  shows "of_nat b powi floor_log b x \<le> x" "x < of_nat b powi (floor_log b x + 1)"
proof -
  obtain p q where pq: "quotient_of x = (p, q)" by fastforce
  have q: "0 < q" and x: "x = of_int p / of_int q" using quotient_of_denom_pos [OF pq] quotient_of_div [OF pq] by simp_all
  then have p: "0 < p" using assms(2) by (simp add: zero_less_divide_iff)
  define fp fq where "fp = int (floorlog b (nat p))" and "fq = int (floorlog b (nat q))"
  let ?b = "of_nat b :: rat"
  have b0: "0 < ?b" using assms(1) by simp
  have bp: "?b powi (fp - 1) \<le> of_int p" "of_int p < ?b powi fp" and bq: "?b powi (fq - 1) \<le> of_int q" "of_int q < ?b powi fq"
    using floorlog_powi [OF assms(1), of "nat p"] floorlog_powi [OF assms(1), of "nat q"] p q by (simp_all add: fp_def fq_def)
  have pos: "0 < ?b powi i" for i using b0 by simp
  have "?b powi (fp - fq - 1) = ?b powi (fp - 1) / ?b powi fq"
    using b0 by (simp add: power_int_diff)
  also have "\<dots> \<le> x" unfolding x using bp bq p q pos [of fq] by (intro frac_le) auto
  finally have lo: "?b powi (fp - fq - 1) \<le> x" .
  have "x < ?b powi fp / ?b powi (fq - 1)"
    unfolding x using bp(2) bq(1) pos [of "fq - 1"] p by (intro frac_less) auto
  also have "\<dots> = ?b powi (fp - fq + 1)" using b0 by (simp add: power_int_diff power_int_add)
  finally have hi: "x < ?b powi (fp - fq + 1)" .
  have fl: "floor_log b x = (if ?b powi (fp - fq) \<le> x then fp - fq else fp - fq - 1)"
    by (simp add: floor_log_def pq fp_def fq_def Let_def)
  show "?b powi floor_log b x \<le> x" using lo by (simp add: fl)
  show "x < ?b powi (floor_log b x + 1)" using hi by (simp add: fl not_le)
qed

lemma floor_log_unique:
  assumes "1 < b" "of_nat b powi k \<le> x" "x < of_nat b powi (k + 1)"
  shows "floor_log b x = k"
proof -
  have "(0 :: rat) < of_nat b powi k" using assms(1) by simp
  then have x: "0 < x" using assms(2) by linarith
  note fl = floor_log_bounds [OF assms(1) x]
  have "(of_nat b :: rat) powi k < of_nat b powi (floor_log b x + 1)" "(of_nat b :: rat) powi floor_log b x < of_nat b powi (k + 1)"
    using assms(2,3) fl by linarith+
  then show ?thesis using assms(1) by (simp add: powi_less_iff)
qed

lemma floor_log_mono:
  assumes "1 < b" "0 < x" "x \<le> y"
  shows "floor_log b x \<le> floor_log b y"
proof -
  have "(of_nat b :: rat) powi floor_log b x < of_nat b powi (floor_log b y + 1)"
    using floor_log_bounds(1) [OF assms(1,2)] floor_log_bounds(2) [OF assms(1), of y] assms(2,3) by linarith
  then show ?thesis using assms(1) by (simp add: powi_less_iff)
qed

section \<open>Rounding\<close>

text \<open>The nearest integer, ties to even.\<close>

definition round_even :: "rat \<Rightarrow> int" where
  "round_even x =
     (let n = \<lfloor>x\<rfloor>; r = x - of_int n
      in if r < 1 / 2 \<or> r = 1 / 2 \<and> even n then n else n + 1)"

lemma round_even_int [simp]: "round_even (of_int n) = n"
  by (simp add: round_even_def)

lemma round_even_close: "\<bar>of_int (round_even x) - x\<bar> \<le> 1 / 2"
  using floor_correct [of x] by (auto simp: round_even_def Let_def)

lemma round_even_unique: "\<bar>of_int n - x\<bar> < 1 / 2 \<Longrightarrow> round_even x = n"
  using round_even_close [of x] by linarith

lemma round_even_mono:
  assumes "x \<le> y"
  shows "round_even x \<le> round_even y"
proof (cases "\<lfloor>x\<rfloor> = \<lfloor>y\<rfloor>")
  case True
  then show ?thesis using assms by (auto simp: round_even_def Let_def)
next
  case False
  then have "\<lfloor>x\<rfloor> + 1 \<le> \<lfloor>y\<rfloor>" using floor_mono [OF assms] by linarith
  moreover have "round_even x \<le> \<lfloor>x\<rfloor> + 1" "\<lfloor>y\<rfloor> \<le> round_even y" by (simp_all add: round_even_def Let_def)
  ultimately show ?thesis by linarith
qed

lemma round_even_minus: "round_even (- x) = - round_even x"
proof (cases "x = of_int \<lfloor>x\<rfloor>")
  case True
  then show ?thesis by (metis of_int_minus round_even_int)
next
  case False
  then have "\<lfloor>- x\<rfloor> = - \<lfloor>x\<rfloor> - 1" by linarith
  then show ?thesis using floor_correct [of x] False by (auto simp: round_even_def Let_def)
qed

text \<open>The exponent of the last place of a double of this size: 53 significant bits, but not below \<open>2 ^ - 1074\<close>.\<close>

definition last_place :: "rat \<Rightarrow> int" where
  "last_place x = max (floor_log 2 \<bar>x\<bar> - 52) (- 1074)"

definition round64 :: "rat \<Rightarrow> rat" where
  "round64 x = (if x = 0 then 0 else of_int (round_even (x / 2 powi last_place x)) * 2 powi last_place x)"

lemma powi2_less_iff [simp]: "(2 :: rat) powi i < 2 powi j \<longleftrightarrow> i < j"
  using powi_less_iff [of 2 i j] by simp

lemma powi2_le_iff [simp]: "(2 :: rat) powi i \<le> 2 powi j \<longleftrightarrow> i \<le> j"
  using powi_le_iff [of 2 i j] by simp

lemmas floor_log2 = floor_log_bounds [of 2, simplified]

lemma powi2_add: "(2 :: rat) powi (i + j) = 2 powi i * 2 powi j"
  by (simp add: power_int_add)

lemma powi2_int: "0 \<le> k \<Longrightarrow> (2 :: rat) powi k = of_int (2 ^ nat k)"
  by (simp add: power_int_def)

lemma last_place_abs [simp]: "last_place \<bar>x\<bar> = last_place x" "last_place (- x) = last_place x"
  by (simp_all add: last_place_def)

lemma last_place_mono: "0 < x \<Longrightarrow> x \<le> y \<Longrightarrow> last_place x \<le> last_place y"
  using floor_log_mono [of 2 x y] by (auto simp: last_place_def)

text \<open>A double has at most 53 bits.\<close>

lemma last_place_covers:
  assumes "x \<noteq> 0"
  shows "\<bar>x\<bar> < 2 powi (last_place x + 53)"
proof -
  have "\<bar>x\<bar> < 2 powi (floor_log 2 \<bar>x\<bar> + 1)" using floor_log2(2) [of "\<bar>x\<bar>"] assms by simp
  also have "\<dots> \<le> 2 powi (last_place x + 53)" by (simp add: last_place_def)
  finally show ?thesis .
qed

text \<open>What lies on the grid of the last place is a double.\<close>

lemma round64_grid:
  assumes "x = of_int n * 2 powi k" "last_place x \<le> k"
  shows "round64 x = x"
proof (cases "x = 0")
  case False
  have "x / 2 powi last_place x = of_int n * 2 powi (k - last_place x)" unfolding assms(1) by (simp add: power_int_diff)
  also have "\<dots> = of_int (n * 2 ^ nat (k - last_place x))" using assms(2) by (simp add: powi2_int)
  finally have "round_even (x / 2 powi last_place x) = n * 2 ^ nat (k - last_place x)"
    and x: "x / 2 powi last_place x = of_int (n * 2 ^ nat (k - last_place x))" by (metis round_even_int)+
  then have "round64 x = x / 2 powi last_place x * 2 powi last_place x" using False by (simp add: round64_def)
  then show ?thesis by simp
qed (simp add: round64_def)

lemma round64_0 [simp]: "round64 0 = 0"
  by (simp add: round64_def)

lemma round64_minus: "round64 (- x) = - round64 x"
  by (simp add: round64_def round_even_minus [of "x / 2 powi last_place x", simplified])

lemma round64_nonneg: "0 \<le> x \<Longrightarrow> 0 \<le> round64 x"
  using round_even_mono [of 0 "x / 2 powi last_place x"] round_even_int [of 0] by (simp add: round64_def)

lemma round64_bits:
  assumes "x \<noteq> 0"
  shows "\<bar>round_even (x / 2 powi last_place x)\<bar> \<le> 2 ^ 53"
proof -
  have "\<bar>x\<bar> / 2 powi last_place x < 2 powi 53"
    using last_place_covers [OF assms] by (simp add: powi2_add divide_less_eq mult.commute)
  then have "x / 2 powi last_place x \<le> of_int (2 ^ 53)" "of_int (- (2 ^ 53)) \<le> x / 2 powi last_place x"
    by (auto simp: abs_less_iff divide_le_eq le_divide_eq divide_less_eq)
  then have "round_even (x / 2 powi last_place x) \<le> 2 ^ 53" "- (2 ^ 53) \<le> round_even (x / 2 powi last_place x)"
    using round_even_mono round_even_int by metis+
  then show ?thesis by linarith
qed

lemma last_place_grid:
  assumes "\<bar>n\<bar> < 2 ^ 53" "n \<noteq> 0" "- 1074 \<le> k"
  shows "last_place (of_int n * 2 powi k) \<le> k"
proof -
  let ?x = "of_int n * 2 powi k :: rat"
  have "\<bar>of_int n\<bar> < (2 :: rat) powi 53" using assms(1) by (simp flip: of_int_abs)
  then have "\<bar>?x\<bar> < 2 powi (k + 53)" by (simp add: powi2_add abs_mult mult.commute)
  moreover have "2 powi floor_log 2 \<bar>?x\<bar> \<le> \<bar>?x\<bar>" using floor_log2(1) [of "\<bar>?x\<bar>"] assms(2) by simp
  ultimately have "(2 :: rat) powi floor_log 2 \<bar>?x\<bar> < 2 powi (k + 53)" by linarith
  then show ?thesis using assms(3) by (simp add: last_place_def)
qed

lemma round64_small:
  assumes "\<bar>n\<bar> \<le> 2 ^ 53" "- 1074 \<le> k"
  shows "round64 (of_int n * 2 powi k) = of_int n * 2 powi k"
proof (cases "\<bar>n\<bar> < 2 ^ 53")
  case True
  then show ?thesis using last_place_grid [OF True _ assms(2)] round64_grid [OF refl, of n k] by (cases "n = 0") auto
next
  case False
  then have "n = 2 ^ 53 \<or> n = - (2 ^ 53)" using assms(1) by linarith
  then obtain h where n: "n = 2 * h" "\<bar>h\<bar> < 2 ^ 53" "h \<noteq> 0" by (auto intro: that [of "2 ^ 52"] that [of "- (2 ^ 52)"])
  have x: "(of_int n * 2 powi k :: rat) = of_int h * 2 powi (k + 1)" by (simp add: n(1) powi2_add)
  show ?thesis using round64_grid [OF x] last_place_grid [OF n(2,3), of "k + 1"] assms(2) x by simp
qed

lemma round64_int: "\<bar>n\<bar> \<le> 2 ^ 53 \<Longrightarrow> round64 (of_int n) = of_int n"
  using round64_small [of n 0] by simp

lemma round64_idem: "round64 (round64 x) = round64 x"
proof (cases "x = 0")
  case False
  then show ?thesis using round64_small [OF round64_bits [OF False], of "last_place x"] by (simp add: round64_def last_place_def)
qed simp

lemma round64_mono_pos:
  assumes "0 < x" "x \<le> y"
  shows "round64 x \<le> round64 y"
proof (cases "last_place x = last_place y")
  case True
  have "round_even (x / 2 powi last_place x) \<le> round_even (y / 2 powi last_place x)"
    by (rule round_even_mono) (simp add: assms(2) divide_right_mono)
  then show ?thesis using assms True by (simp add: round64_def)
next
  case False
  define e where "e = floor_log 2 y"
  have lt: "last_place x < last_place y" using last_place_mono [OF assms] False by simp
  then have ly: "last_place y = e - 52" "last_place x \<le> e" "floor_log 2 x < e" using assms by (auto simp: last_place_def e_def)
  have "x < 2 powi (floor_log 2 x + 1)" by (rule floor_log2(2) [OF assms(1)])
  also have "\<dots> \<le> 2 powi e" using ly(3) by simp
  finally have "x / 2 powi last_place x \<le> 2 powi (e - last_place x)"
    by (simp add: power_int_diff divide_right_mono)
  then have "x / 2 powi last_place x \<le> of_int (2 ^ nat (e - last_place x))" using ly(2) powi2_int [of "e - last_place x"] by simp
  then have "round_even (x / 2 powi last_place x) \<le> 2 ^ nat (e - last_place x)" using round_even_mono round_even_int by metis
  then have "(of_int (round_even (x / 2 powi last_place x)) :: rat) \<le> of_int (2 ^ nat (e - last_place x))" by (simp only: of_int_le_iff)
  then have "round64 x \<le> of_int (2 ^ nat (e - last_place x)) * 2 powi last_place x" using assms(1) by (simp add: round64_def)
  also have "\<dots> = 2 powi e" using ly(2) powi2_int [of "e - last_place x"] powi2_add [of "e - last_place x" "last_place x"] by simp
  also have "\<dots> \<le> round64 y"
  proof -
    have "of_int (2 ^ 52) \<le> y / 2 powi last_place y"
      using floor_log2(1) [of y] assms by (simp add: ly(1) e_def power_int_diff le_divide_eq)
    then have "2 ^ 52 \<le> round_even (y / 2 powi last_place y)" using round_even_mono round_even_int by metis
    then have "(of_int (2 ^ 52) :: rat) \<le> of_int (round_even (y / 2 powi last_place y))" by (simp only: of_int_le_iff)
    then have "of_int (2 ^ 52) * 2 powi (e - 52) \<le> round64 y" using assms by (simp add: round64_def ly(1))
    then show ?thesis by (simp add: power_int_diff)
  qed
  finally show ?thesis .
qed

lemma round64_mono:
  assumes "x \<le> y"
  shows "round64 x \<le> round64 y"
proof -
  consider "0 < x" | "x \<le> 0" "0 \<le> y" | "y < 0" by linarith
  then show ?thesis
  proof cases
    case 2
    then have "0 \<le> round64 (- x)" "0 \<le> round64 y" by (simp_all add: round64_nonneg)
    then show ?thesis by (simp add: round64_minus)
  next
    case 3
    then have "round64 (- y) \<le> round64 (- x)" using assms by (intro round64_mono_pos) simp_all
    then show ?thesis by (simp add: round64_minus)
  qed (use assms in \<open>simp add: round64_mono_pos\<close>)
qed

text \<open>The error of one rounding: half of the last place.\<close>

definition eps :: rat where
  "eps = 1 / 2 ^ 53"

definition tiny :: rat where
  "tiny = 2 powi (- 1075)"

lemma eps_bounds: "0 < eps" "eps \<le> 1 / 8"
  by (simp_all add: eps_def)

lemma tiny_pos: "0 < tiny"
  by (simp add: tiny_def)

lemma tiny_small: "2 ^ 53 * tiny \<le> 1 / 8"
proof -
  have "tiny \<le> 2 powi (- 56)" unfolding tiny_def by (simp only: powi2_le_iff)
  then have "2 ^ 53 * tiny \<le> 2 ^ 53 * 2 powi (- 56)" by (rule mult_left_mono) simp
  also have "\<dots> = 1 / 8" by (simp add: power_int_minus)
  finally show ?thesis .
qed

lemma round64_error: "\<bar>round64 x - x\<bar> \<le> \<bar>x\<bar> * eps + tiny"
proof (cases "x = 0")
  case False
  let ?u = "2 powi last_place x :: rat"
  have "round64 x - x = (of_int (round_even (x / ?u)) - x / ?u) * ?u" using False by (simp add: round64_def field_simps)
  then have "\<bar>round64 x - x\<bar> = \<bar>of_int (round_even (x / ?u)) - x / ?u\<bar> * ?u" by (simp add: abs_mult)
  also have "\<dots> \<le> 1 / 2 * ?u" using round_even_close by (intro mult_right_mono) simp_all
  also have "\<dots> \<le> \<bar>x\<bar> * eps + tiny"
  proof (cases "last_place x = - 1074")
    case True
    have "1 / 2 * (2 powi (- 1074) :: rat) = tiny" unfolding tiny_def using powi2_add [of "- 1" "- 1074"] by simp
    then show ?thesis unfolding True using eps_bounds(1) by simp
  next
    case False
    then have "last_place x = floor_log 2 \<bar>x\<bar> - 52" by (simp add: last_place_def max_def split: if_splits)
    then have "1 / 2 * ?u = 2 powi floor_log 2 \<bar>x\<bar> * eps" by (simp add: power_int_diff eps_def)
    also have "\<dots> \<le> \<bar>x\<bar> * eps" using floor_log2(1) [of "\<bar>x\<bar>"] \<open>x \<noteq> 0\<close> eps_bounds(1) by (intro mult_right_mono) simp_all
    finally show ?thesis using tiny_pos by linarith
  qed
  finally show ?thesis .
qed (use tiny_pos in simp)

section \<open>Neighbours\<close>

text \<open>
  A double is the nearest one to everything within the relative distance that 17 decimal digits leave,
  also at a power of two, below which the doubles are twice as dense.
\<close>

lemma round64_near:
  assumes "round64 x = x" "0 < x" "\<bar>v - x\<bar> \<le> x / (2 * 10 ^ 16)"
  shows "round64 v = x"
proof -
  define k where "k = last_place x"
  define u :: rat where "u = 2 powi k"
  define n where "n = round_even (x / u)"
  have u: "0 < u" by (simp add: u_def)
  have x: "x = of_int n * u" using assms(1,2) by (simp add: round64_def n_def u_def k_def)
  have "x < 2 ^ 53 * u" using last_place_covers [of x] assms(2) by (simp add: powi2_add u_def k_def mult.commute)
  then have n: "n < 2 ^ 53" unfolding x using u by simp
  have "x - v \<le> x / (2 * 10 ^ 16)" using assms(3) abs_ge_self [of "x - v"] by (simp only: abs_minus_commute)
  then have v: "0 < v" using assms(2) by (simp add: field_simps)
  have round_v: "round64 v = x" if "last_place v = j" "x = of_int i * 2 powi j" "\<bar>v - x\<bar> < 2 powi j / 2" for i j
  proof -
    have "of_int i - v / 2 powi j = (x - v) / 2 powi j" by (simp add: that(2) field_simps)
    also have "\<bar>\<dots>\<bar> < 1 / 2" using that(3) by (simp add: divide_less_eq abs_minus_commute)
    finally have "round_even (v / 2 powi j) = i" by (rule round_even_unique)
    then show ?thesis using v that(1,2) by (simp add: round64_def)
  qed
  have dist: "\<bar>v - x\<bar> < u / 2"
  proof -
    have "x / (2 * 10 ^ 16) < u / 2" using \<open>x < 2 ^ 53 * u\<close> u by simp
    with assms(3) show ?thesis by (rule le_less_trans)
  qed
  consider "last_place v = k" | "k < last_place v" | "last_place v < k" by linarith
  then show ?thesis
  proof cases
    case 1
    then show ?thesis using round_v [OF 1, of n] x dist by (simp add: u_def)
  next
    case 2
    then have e: "k + 53 \<le> floor_log 2 v" using v by (auto simp: last_place_def k_def)
    have "(of_int (n + 1) :: rat) \<le> of_int (2 ^ 53)" using n by (simp only: of_int_le_iff)
    then have "(of_int n + 1) * u \<le> 2 ^ 53 * u" using u by (intro mult_right_mono) simp_all
    also have "\<dots> = 2 powi (k + 53)" by (simp add: powi2_add u_def mult.commute)
    also have "\<dots> \<le> 2 powi floor_log 2 v" using e by simp
    also have "\<dots> \<le> v" by (rule floor_log2(1) [OF v])
    finally have "x + u \<le> v" by (simp add: x distrib_right)
    then show ?thesis using dist u abs_ge_self [of "v - x"] by linarith
  next
    case 3
    then have e: "floor_log 2 x = k + 52" "floor_log 2 v < k + 52" "- 1074 < k" using v assms(2) by (auto simp: last_place_def k_def)
    have lo: "2 ^ 52 * u \<le> x" using floor_log2(1) [OF assms(2)] by (simp add: e(1) powi2_add u_def mult.commute)
    have "v < 2 powi (k + 52)" using floor_log2(2) [OF v] e(2) by (meson less_le_trans powi2_le_iff zless_imp_add1_zle)
    then have hi: "v < 2 ^ 52 * u" by (simp add: powi2_add u_def mult.commute)
    have "x < 2 ^ 52 * u + u" using dist hi u abs_ge_self [of "x - v"] by (simp add: abs_minus_commute)
    then have "of_int n * u < of_int (2 ^ 52 + 1) * u" by (simp add: x distrib_right)
    then have "n < 2 ^ 52 + 1" using u by (simp only: mult_less_cancel_right_pos of_int_less_iff)
    moreover have "of_int (2 ^ 52) * u \<le> of_int n * u" using lo x by simp
    then have "2 ^ 52 \<le> n" using u by (simp only: mult_le_cancel_right_pos of_int_le_iff)
    ultimately have n52: "n = 2 ^ 52" by simp
    have x52: "x = of_int (2 ^ 53) * 2 powi (k - 1)" by (simp add: x n52 u_def power_int_diff)
    have close: "\<bar>v - x\<bar> < u / 4"
    proof -
      have "x / (2 * 10 ^ 16) < u / 4" using u by (simp add: x n52)
      with assms(3) show ?thesis by (rule le_less_trans)
    qed
    have "x - v < u / 4" using close abs_ge_self [of "x - v"] by (simp add: abs_minus_commute)
    then have "2 powi (k + 51) \<le> v" using x n52 u by (simp add: powi2_add u_def [symmetric] mult.commute)
    then have "floor_log 2 v = k + 51" using floor_log_unique [of 2 "k + 51" v] \<open>v < 2 powi (k + 52)\<close> by (simp add: add.commute)
    then have "last_place v = k - 1" using v e(3) by (simp add: last_place_def)
    then show ?thesis using round_v [of "k - 1" "2 ^ 53"] x52 close by (simp add: u_def power_int_diff)
  qed
qed

section \<open>Decimal text\<close>

text \<open>The 17 significant digits of a positive number, as an integer, and the exponent of the first of them.\<close>

definition digits17 :: "rat \<Rightarrow> nat \<times> int" where
  "digits17 x =
     (let e = floor_log 10 x; n = round_even (x * 10 powi (16 - e))
      in if n = 10 ^ 17 then (10 ^ 16, e + 1) else (nat n, e))"

definition strip_zeros :: "string \<Rightarrow> string" where
  "strip_zeros ds = rev (dropWhile (\<lambda>c. c = CHR ''0'') (rev ds))"

definition fraction :: "string \<Rightarrow> string" where
  "fraction ds = (case strip_zeros ds of [] \<Rightarrow> [] | fs \<Rightarrow> CHR ''.'' # fs)"

definition exponent :: "int \<Rightarrow> string" where
  "exponent e = CHR ''e'' # (if e < 0 then CHR ''-'' else CHR ''+'') # (if \<bar>e\<bar> < 10 then ''0'' else '''') @ itoa \<bar>e\<bar>"

text \<open>The format \<open>%.17g\<close>.\<close>

definition layout :: "nat \<times> int \<Rightarrow> string" where
  "layout ne =
     (case ne of (n, e) \<Rightarrow>
        let ds = nat_str n in
        if e < - 4 \<or> e \<ge> 17 then take 1 ds @ fraction (drop 1 ds) @ exponent e
        else if 0 \<le> e then take (nat (e + 1)) ds @ fraction (drop (nat (e + 1)) ds)
        else ''0'' @ fraction (replicate (nat (- e - 1)) (CHR ''0'') @ ds))"

definition format17g :: "rat \<Rightarrow> string" where
  "format17g x =
     (if x = 0 then ''0'' else if x < 0 then CHR ''-'' # layout (digits17 (- x)) else layout (digits17 x))"

text \<open>Reading a decimal number: digits, a fraction, an exponent.\<close>

definition is_digit :: "char \<Rightarrow> bool" where
  "is_digit c = (digit_val c \<noteq> None)"

definition read_exponent :: "string \<Rightarrow> int option" where
  "read_exponent s =
     (case s of
        [] \<Rightarrow> Some 0
      | c # cs \<Rightarrow>
          if c \<noteq> CHR ''e'' then None
          else (case cs of
                  [] \<Rightarrow> None
                | d # ds \<Rightarrow> if d = CHR ''+'' then map_option int (digits_val 0 ds)
                            else if d = CHR ''-'' then map_option (\<lambda>n. - int n) (digits_val 0 ds) else map_option int (digits_val 0 cs)))"

definition read_fraction :: "string \<Rightarrow> string \<times> string" where
  "read_fraction s =
     (case s of
        [] \<Rightarrow> ([], [])
      | c # cs \<Rightarrow> if c = CHR ''.'' then (takeWhile is_digit cs, dropWhile is_digit cs) else ([], s))"

definition scaled :: "nat \<Rightarrow> int \<Rightarrow> rat" where
  "scaled n e = of_nat n * 10 powi e"

definition read_unsigned :: "string \<Rightarrow> rat option" where
  "read_unsigned s =
     (let ds = takeWhile is_digit s in
      case read_fraction (dropWhile is_digit s) of
        (fs, rest) \<Rightarrow>
          if ds @ fs = [] then None
          else Option.bind (read_exponent rest) (\<lambda>e. map_option (\<lambda>n. scaled n (e - int (length fs))) (digits_val 0 (ds @ fs))))"

definition strtod :: "string \<Rightarrow> rat option" where
  "strtod s =
     map_option round64
       (case s of
          [] \<Rightarrow> None
        | c # cs \<Rightarrow> if c = CHR ''-'' then map_option uminus (read_unsigned cs) else read_unsigned s)"

subsection \<open>The digits\<close>

lemma floor_log10: "0 < x \<Longrightarrow> 10 powi floor_log 10 x \<le> x" "0 < x \<Longrightarrow> x < 10 powi (floor_log 10 x + 1)"
  using floor_log_bounds [of 10 x] by simp_all

lemma digits17:
  assumes "0 < x" "digits17 x = (n, e)"
  shows "10 ^ 16 \<le> n" "n < 10 ^ 17" "\<bar>scaled n (e - 16) - x\<bar> \<le> x / (2 * 10 ^ 16)"
proof -
  define k where "k = floor_log 10 x"
  define m where "m = round_even (x * 10 powi (16 - k))"
  define s :: rat where "s = 10 powi (k - 16)"
  have s: "0 < s" "10 powi (16 - k) = 1 / s" "10 powi k = 10 ^ 16 * s"
    by (simp_all add: s_def power_int_diff)
  have lo: "10 ^ 16 * s \<le> x" and hi: "x < 10 ^ 17 * s"
    using floor_log10 [OF assms(1)] by (simp_all add: k_def [symmetric] s(3) power_int_add)
  have "of_int (10 ^ 16) \<le> x * 10 powi (16 - k)" using lo s(1) by (simp add: s(2) le_divide_eq)
  then have m1: "10 ^ 16 \<le> m" unfolding m_def using round_even_mono round_even_int by metis
  have "x * 10 powi (16 - k) \<le> of_int (10 ^ 17)" using hi s(1) by (simp add: s(2) divide_le_eq)
  then have m2: "m \<le> 10 ^ 17" unfolding m_def using round_even_mono round_even_int by metis
  have "\<bar>of_int m - x / s\<bar> \<le> 1 / 2" using round_even_close [of "x * 10 powi (16 - k)"] by (simp add: m_def s(2))
  moreover have "of_int m * s - x = (of_int m - x / s) * s" using s(1) by (simp add: field_simps)
  then have "\<bar>of_int m * s - x\<bar> = \<bar>of_int m - x / s\<bar> * s" using s(1) by (simp add: abs_mult)
  ultimately have "\<bar>of_int m * s - x\<bar> \<le> 1 / 2 * s" using s(1) by (metis less_imp_le mult_right_mono)
  also have "\<dots> \<le> x / (2 * 10 ^ 16)" using lo by simp
  finally have close: "\<bar>of_int m * s - x\<bar> \<le> x / (2 * 10 ^ 16)" .
  have ne: "(n, e) = (if m = 10 ^ 17 then (10 ^ 16, k + 1) else (nat m, k))" using assms(2) by (auto simp: digits17_def Let_def k_def m_def split: if_splits)
  have "scaled n (e - 16) = of_int m * s"
    using ne m1 by (auto simp: scaled_def s_def power_int_diff power_int_add split: if_splits)
  with close show "\<bar>scaled n (e - 16) - x\<bar> \<le> x / (2 * 10 ^ 16)" by simp
  show "10 ^ 16 \<le> n" "n < 10 ^ 17" using ne m1 m2 by (auto split: if_splits)
qed

subsection \<open>Reading back\<close>

abbreviation all_digits :: "string \<Rightarrow> bool" where
  "all_digits ds \<equiv> \<forall>c\<in>set ds. is_digit c"

lemma is_digit_chr [simp]: "d < 10 \<Longrightarrow> is_digit (digit_chr d)"
  by (simp add: is_digit_def)

lemma is_digit_simps [simp]: "is_digit (CHR ''0'')" "\<not> is_digit (CHR ''.'')" "\<not> is_digit (CHR ''e'')"
  by (simp_all add: is_digit_def digit_val_def)

lemma all_digits_nat_str [simp]: "all_digits (nat_str n)"
proof (induction n rule: nat_str.induct)
  case (1 n)
  then show ?case by (cases "n < 10") (auto simp: nat_str.simps [of n])
qed

lemma length_nat_str: "10 ^ k \<le> n \<Longrightarrow> n < 10 ^ Suc k \<Longrightarrow> length (nat_str n) = Suc k"
proof (induction k arbitrary: n)
  case (Suc k)
  then have "10 ^ k \<le> n div 10" "n div 10 < 10 ^ Suc k" by simp_all
  moreover have "10 * 1 \<le> (10 * 10 ^ k :: nat)" by (rule mult_le_mono2) simp
  then have "\<not> n < 10" using Suc.prems(1) unfolding power_Suc by linarith
  ultimately show ?case using Suc.IH by (simp add: nat_str.simps [of n])
qed (simp add: nat_str.simps)

lemma digits_val_total: "all_digits ds \<Longrightarrow> \<exists>n. digits_val a ds = Some n"
  by (induction ds arbitrary: a) (auto simp: is_digit_def)

lemma digit_val_0 [simp]: "digit_val (CHR ''0'') = Some 0"
  by (simp add: digit_val_def)

lemma digits_val_zeros: "digits_val a (replicate k (CHR ''0'')) = Some (a * 10 ^ k)"
  by (induction k arbitrary: a) (simp_all add: algebra_simps)

lemma digits_val_leading [simp]: "digits_val 0 (replicate k (CHR ''0'') @ ds) = digits_val 0 ds"
  by (simp add: digits_val_append digits_val_zeros)

lemma strip_zeros:
  obtains k where "ds = strip_zeros ds @ replicate k (CHR ''0'')"
proof -
  define zs where "zs = takeWhile (\<lambda>c. c = CHR ''0'') (rev ds)"
  have "\<forall>c\<in>set zs. c = CHR ''0''" unfolding zs_def using set_takeWhileD by fastforce
  then have "rev zs = replicate (length zs) (CHR ''0'')" by (metis length_rev replicate_eqI set_rev)
  moreover have "rev ds = zs @ rev (strip_zeros ds)" by (simp add: zs_def strip_zeros_def)
  then have "ds = strip_zeros ds @ rev zs" by (metis rev_append rev_rev_ident)
  ultimately show thesis using that by metis
qed

lemma scaled_shift: "scaled (n * 10 ^ k) e = scaled n (e + int k)"
  by (simp add: scaled_def power_int_add)

lemma fraction_hd: "fraction fs @ ex = [] \<or> \<not> is_digit (hd (fraction fs @ ex))" if "ex = [] \<or> \<not> is_digit (hd ex)"
  using that by (auto simp: fraction_def split: list.splits)

lemma span_digits:
  assumes "all_digits ds" "rest = [] \<or> \<not> is_digit (hd rest)"
  shows "takeWhile is_digit (ds @ rest) = ds" "dropWhile is_digit (ds @ rest) = rest"
  using assms by (induction ds) (cases rest; auto)+

lemma read_fraction:
  assumes "all_digits fs" "ex = [] \<or> \<not> is_digit (hd ex) \<and> hd ex \<noteq> CHR ''.''"
  shows "read_fraction (fraction fs @ ex) = (strip_zeros fs, ex)"
proof (cases "strip_zeros fs")
  case Nil
  then show ?thesis using assms(2) by (cases ex) (auto simp: fraction_def read_fraction_def)
next
  case (Cons c cs)
  obtain k where "fs = strip_zeros fs @ replicate k (CHR ''0'')" by (rule strip_zeros)
  then have "all_digits (strip_zeros fs)" using assms(1) by (metis UnCI set_append)
  then show ?thesis using Cons assms(2) span_digits [of "c # cs" ex] by (auto simp del: takeWhile.simps dropWhile.simps simp: fraction_def read_fraction_def)
qed

lemma read_decimal:
  assumes "all_digits ds" "ds \<noteq> []" "all_digits fs" "digits_val 0 (ds @ fs) = Some n" "read_exponent ex = Some e"
    and "ex = [] \<or> hd ex = CHR ''e''"
  shows "read_unsigned (ds @ fraction fs @ ex) = Some (scaled n (e - int (length fs)))"
proof -
  obtain k where k: "fs = strip_zeros fs @ replicate k (CHR ''0'')" by (rule strip_zeros)
  obtain a where a: "digits_val 0 (ds @ strip_zeros fs) = Some a"
    using assms(1,3) k digits_val_total [of "ds @ strip_zeros fs" 0] by (metis UnE UnI1 set_append)
  have "digits_val 0 ((ds @ strip_zeros fs) @ replicate k (CHR ''0'')) = Some n" using assms(4) k by simp
  then have n: "n = a * 10 ^ k" unfolding digits_val_append [of 0 "ds @ strip_zeros fs"] a by (simp add: digits_val_zeros)
  have len: "int (length fs) = int (length (strip_zeros fs)) + int k" by (subst k) simp
  have ex: "ex = [] \<or> \<not> is_digit (hd ex) \<and> hd ex \<noteq> CHR ''.''" using assms(6) by auto
  note span = span_digits [OF assms(1) fraction_hd, of ex fs]
  show ?thesis using assms(2,5) a ex span read_fraction [OF assms(3) ex]
    by (auto simp: read_unsigned_def n len scaled_shift algebra_simps)
qed

lemma read_exponent: "read_exponent (exponent e) = Some e"
proof -
  have "digits_val 0 ((if \<bar>e\<bar> < 10 then ''0'' else '''') @ itoa \<bar>e\<bar>) = Some (nat \<bar>e\<bar>)"
    by (simp add: itoa_def)
  then show ?thesis by (auto simp: read_exponent_def exponent_def)
qed

lemma read_layout:
  assumes "10 ^ 16 \<le> n" "n < 10 ^ 17"
  shows "read_unsigned (layout (n, e)) = Some (scaled n (e - 16))"
proof -
  let ?ds = "nat_str n"
  have len: "length ?ds = 17" using length_nat_str [of 16 n] assms by simp
  have part: "all_digits (take j ?ds)" "all_digits (drop j ?ds)" "digits_val 0 (take j ?ds @ drop j ?ds) = Some n" for j
    using all_digits_nat_str [of n] by (auto dest: in_set_takeD in_set_dropD)
  consider "e < - 4 \<or> e \<ge> 17" | "0 \<le> e" "e < 17" | "- 4 \<le> e" "e < 0" by linarith
  then show ?thesis
  proof cases
    case 1
    have "read_unsigned (take 1 ?ds @ fraction (drop 1 ?ds) @ exponent e) = Some (scaled n (e - int (length (drop 1 ?ds))))"
      using len by (intro read_decimal part read_exponent) (auto simp: exponent_def)
    then show ?thesis using 1 len by (simp add: layout_def Let_def)
  next
    case 2
    have "read_unsigned (take (nat (e + 1)) ?ds @ fraction (drop (nat (e + 1)) ?ds) @ []) =
        Some (scaled n (0 - int (length (drop (nat (e + 1)) ?ds))))"
      using len 2 by (intro read_decimal part) (auto simp: read_exponent_def)
    then show ?thesis using 2 len by (simp add: layout_def Let_def)
  next
    case 3
    let ?fs = "replicate (nat (- e - 1)) (CHR ''0'') @ ?ds"
    have "read_unsigned (''0'' @ fraction ?fs @ []) = Some (scaled n (0 - int (length ?fs)))"
      using 3 by (intro read_decimal) (auto simp: read_exponent_def)
    then show ?thesis using 3 len by (simp add: layout_def Let_def algebra_simps)
  qed
qed

lemma layout_hd: "layout (n, e) \<noteq> [] \<and> hd (layout (n, e)) \<noteq> CHR ''-''"
proof -
  have "\<exists>c cs. nat_str n = c # cs \<and> c \<noteq> CHR ''-''"
    using hd_nat_str [of n] digit_chr_sign(1) by (cases "nat_str n") (auto simp: nat_str.simps [of n] split: if_splits)
  then show ?thesis by (auto simp: layout_def Let_def take_Cons')
qed

lemma strtod_format17g:
  assumes "round64 x = x"
  shows "strtod (format17g x) = Some x"
proof -
  have pos: "read_unsigned (layout (digits17 y)) = Some v \<Longrightarrow> round64 v = y" "\<exists>v. read_unsigned (layout (digits17 y)) = Some v"
    if "0 < y" "round64 y = y" for y v
  proof -
    obtain n e where ne: "digits17 y = (n, e)" by fastforce
    note d = digits17 [OF that(1) ne]
    show "\<exists>v. read_unsigned (layout (digits17 y)) = Some v" using read_layout [OF d(1,2)] by (simp add: ne)
    show "round64 v = y" if "read_unsigned (layout (digits17 y)) = Some v"
      using that read_layout [OF d(1,2), of e] round64_near [OF \<open>round64 y = y\<close> \<open>0 < y\<close> d(3)] by (simp add: ne)
  qed
  consider "x = 0" | "0 < x" | "x < 0" by linarith
  then show ?thesis
  proof cases
    case 1
    then show ?thesis by (simp add: format17g_def strtod_def read_unsigned_def read_fraction_def read_exponent_def scaled_def)
  next
    case 2
    obtain c cs where "layout (digits17 x) = c # cs" "c \<noteq> CHR ''-''" using layout_hd by (metis list.exhaust_sel surj_pair)
    then show ?thesis using 2 pos [OF 2 assms] by (auto simp: format17g_def strtod_def)
  next
    case 3
    have "round64 (- x) = - x" using assms by (simp add: round64_minus)
    then show ?thesis using 3 pos [of "- x"] by (auto simp: format17g_def strtod_def round64_minus)
  qed
qed

subsection \<open>Integers\<close>

text \<open>
  Lua's \<open>tonumber\<close> of a decimal integer, and the text that Redis makes of such a number, for integers up
  to \<open>2 ^ 53\<close>: the number is that integer and the text is its decimal form. The scripts of the queue are
  modelled with integers on the strength of this.
\<close>

lemma nat_str_zeros: "0 < n \<Longrightarrow> nat_str (n * 10 ^ k) = nat_str n @ replicate k (CHR ''0'')"
proof (induction k)
  case (Suc k)
  have "10 \<le> n * 10 ^ Suc k" using Suc.prems by simp
  then have "nat_str (n * 10 ^ Suc k) = nat_str (n * 10 ^ k) @ [digit_chr 0]" by (subst nat_str.simps) simp
  then show ?case using Suc by (simp add: digit_chr_def replicate_append_same)
qed simp

lemma fraction_zeros: "fraction (replicate k (CHR ''0'')) = []"
  by (simp add: fraction_def strip_zeros_def)

lemma layout_integer:
  assumes "0 < n" "n < 10 ^ 17"
  shows "layout (digits17 (of_nat n)) = nat_str n"
proof -
  define k where "k = floor_log 10 (of_nat n :: rat)"
  have b: "10 powi k \<le> (of_nat n :: rat)" "(of_nat n :: rat) < 10 powi (k + 1)"
    using floor_log10 [of "of_nat n"] assms(1) by (simp_all add: k_def)
  have k0: "0 \<le> k"
  proof (rule ccontr)
    assume "\<not> 0 \<le> k"
    then have "10 powi (k + 1) \<le> (10 :: rat) powi 0" by (intro power_int_increasing) simp_all
    with b(2) assms(1) show False by simp
  qed
  have "10 powi k < (10 :: rat) powi 17"
  proof -
    have "(of_nat n :: rat) < of_nat (10 ^ 17)" using assms(2) by (simp only: of_nat_less_iff)
    then show ?thesis using b(1) by simp
  qed
  then have k17: "k < 17" using powi_less_iff [of 10 k 17] by simp
  define j where "j = nat k"
  have j: "k = int j" "j \<le> 16" using k0 k17 by (simp_all add: j_def)
  have pow: "10 powi (16 - k) = (of_nat (10 ^ (16 - j)) :: rat)" using j by (simp add: power_int_def nat_diff_distrib)
  have "round_even (of_nat n * 10 powi (16 - k)) = int (n * 10 ^ (16 - j))"
    unfolding pow of_nat_mult [symmetric] using round_even_int [of "int (n * 10 ^ (16 - j))"] by (simp only: of_int_of_nat_eq)
  moreover have "n * 10 ^ (16 - j) < 10 ^ 17"
  proof -
    have "(of_nat n :: rat) < of_nat (10 ^ Suc j)" using b(2) by (simp add: j power_int_add)
    then have "n < 10 ^ Suc j" by (simp only: of_nat_less_iff)
    then have "n * 10 ^ (16 - j) < 10 ^ Suc j * 10 ^ (16 - j)" by simp
    then show ?thesis unfolding power_add [symmetric] using j(2) by simp
  qed
  ultimately have d: "digits17 (of_nat n) = (n * 10 ^ (16 - j), k)"
    unfolding digits17_def Let_def k_def [symmetric] by (simp del: of_nat_mult of_nat_power)
  have len: "length (nat_str n) = Suc j"
  proof (rule length_nat_str)
    have "(of_nat (10 ^ j) :: rat) \<le> of_nat n" using b(1) by (simp add: j)
    then show "10 ^ j \<le> n" by (simp only: of_nat_le_iff)
    have "(of_nat n :: rat) < of_nat (10 ^ Suc j)" using b(2) by (simp add: j power_int_add)
    then show "n < 10 ^ Suc j" by (simp only: of_nat_less_iff)
  qed
  have "nat (k + 1) = Suc j" using j(1) by simp
  then show ?thesis using j(1,2) len by (simp add: d layout_def Let_def nat_str_zeros [OF assms(1)] fraction_zeros)
qed

lemma lua_integers:
  assumes "\<bar>n\<bar> \<le> 2 ^ 53"
  shows "strtod (itoa n) = Some (of_int n)" "format17g (of_int n) = itoa n"
proof -
  have r: "round64 (of_int n) = of_int n" by (rule round64_int [OF assms])
  show "format17g (of_int n) = itoa n"
    using layout_integer [of "nat \<bar>n\<bar>"] assms
    by (cases n rule: int_cases2) (auto simp: format17g_def itoa_def nat_str.simps [of 0] digit_chr_def)
  then show "strtod (itoa n) = Some (of_int n)" using strtod_format17g [OF r] by simp
qed

end
