(* ===== verification/Queue.thy ===== *)
theory Queue
  imports Scripts Float64
begin

text \<open>
  The operations of \<^verbatim>\<open>internal/queue/queue.go\<close> and the job record of \<^verbatim>\<open>internal/queue/job.go\<close>.
  The clock and the outcome of the round trip to Redis are arguments: \<open>now\<close> is the value of
  \<open>time.Now().UnixMilli()\<close>, times and durations that the code adds up are in nanoseconds, and
  a \<open>fault\<close> says whether the request or its reply is lost.
\<close>

section \<open>Job records\<close>

record JobRecord =
  ID :: string
  Kind :: string
  Queue :: string
  Priority :: int
  State :: string
  Payload :: string
  Attempt :: int
  MaxRetries :: int
  CreatedAt :: int
  ScheduledAt :: int
  StartedAt :: int
  CompletedAt :: int
  LastError :: string
  UniqueKey :: string
  WorkflowID :: string

definition mget :: "(string \<rightharpoonup> string) \<Rightarrow> string \<Rightarrow> string" where
  "mget m f = (case m f of None \<Rightarrow> '''' | Some v \<Rightarrow> v)"

definition parseJobRecordFromMap :: "(string \<rightharpoonup> string) \<Rightarrow> JobRecord" where
  "parseJobRecordFromMap m =
     \<lparr>ID = mget m ''id'', Kind = mget m ''kind'', Queue = mget m ''queue'',
      Priority = parse_int64 (mget m ''priority''), State = mget m ''state'',
      Payload = mget m ''payload'', Attempt = parse_int64 (mget m ''attempt''),
      MaxRetries = parse_int64 (mget m ''max_retries''),
      CreatedAt = parse_int64 (mget m ''created_at''),
      ScheduledAt = parse_int64 (mget m ''scheduled_at''),
      StartedAt = parse_int64 (mget m ''started_at''),
      CompletedAt = parse_int64 (mget m ''completed_at''),
      LastError = mget m ''last_error'', UniqueKey = mget m ''unique_key'',
      WorkflowID = mget m ''workflow_id''\<rparr>"

text \<open>The loop over alternating fields and values; a later value of a field wins.\<close>

fun field_pairs :: "string list \<Rightarrow> (string \<times> string) list" where
  "field_pairs (f # v # rest) = (f, v) # field_pairs rest"
| "field_pairs _ = []"

definition parseJobRecord :: "string list \<Rightarrow> JobRecord" where
  "parseJobRecord vals = parseJobRecordFromMap (map_of (rev (field_pairs vals)))"

section \<open>Errors and results\<close>

text \<open>\<open>Wrapped p e\<close> is \<open>fmt.Errorf("p: %w", e)\<close>; \<open>Plain e\<close> is an error passed on as it is.\<close>

datatype qerr = ErrDuplicate | Wrapped string string | Plain string

definition go_result :: "('s, 'a) lua \<Rightarrow> (string \<Rightarrow> 'e) \<Rightarrow> ('a \<Rightarrow> 'e + 'b) \<Rightarrow> 's \<Rightarrow> ('e + 'b) \<times> 's" where
  "go_result m onerr onok s =
     (case m s of (Inl e, s') \<Rightarrow> (Inl (onerr e), s') | (Inr r, s') \<Rightarrow> (onok r, s'))"

definition is_duplicate :: "string \<Rightarrow> bool" where
  "is_duplicate e = sublist ''DUPLICATE'' e"

definition unexpected :: string where
  "unexpected = ''unexpected result type''"

text \<open>\<open>int(d.Seconds())\<close>: whole seconds and nanoseconds are added as doubles, then truncated towards 0.\<close>

definition whole_seconds :: "int \<Rightarrow> int" where
  "whole_seconds d = (if d < 0 then - ((- d) div 1000000000) else d div 1000000000)"

definition seconds :: "int \<Rightarrow> int" where
  "seconds d =
     (let f = round64 (of_int (whole_seconds d) + round64 (of_int (d - whole_seconds d * 1000000000) / 1000000000))
      in if f < 0 then \<lceil>f\<rceil> else \<lfloor>f\<rfloor>)"

definition unixMilli :: "int \<Rightarrow> int" where
  "unixMilli t = t div 1000000"

section \<open>Enqueueing\<close>

definition enqueue_call :: "'s server \<Rightarrow> JobRecord \<Rightarrow> key \<Rightarrow> int \<Rightarrow> ('s, reply) lua" where
  "enqueue_call exec job uniqueK uniqueTTL =
     enqueueScript exec (jobKey (ID job)) (readyKey (Queue job)) (delayedKey (Queue job))
       (statsKey (Queue job)) uniqueK (ID job) (Kind job) (Queue job) (Priority job) (State job)
       (Payload job) (MaxRetries job) (itoa (CreatedAt job)) (ScheduledAt job) uniqueTTL (WorkflowID job)"

definition Enqueue :: "'s server \<Rightarrow> fault \<Rightarrow> JobRecord \<Rightarrow> string \<Rightarrow> int \<Rightarrow> 's \<Rightarrow> (qerr + unit) \<times> 's" where
  "Enqueue exec flt job uniqKey uniquePeriod =
     (let (uniqueK, uniqueTTL) =
        (if uniqKey \<noteq> '''' \<and> uniquePeriod > 0 then (uniqueKey uniqKey, seconds uniquePeriod) else ('''', 0))
      in go_result (run flt (enqueue_call exec job uniqueK uniqueTTL))
           (\<lambda>e. if is_duplicate e then ErrDuplicate else Wrapped ''winter: enqueue'' e)
           (\<lambda>_. Inr ()))"

definition DefaultLeaseDuration :: int where
  "DefaultLeaseDuration = 30 * 1000000000"

text \<open>Pipelined scripts: every script runs; the results are those of the commands.\<close>

fun pipe_scripts :: "('s, 'a) lua list \<Rightarrow> 's \<Rightarrow> (string + 'a) list \<times> 's" where
  "pipe_scripts [] s = ([], s)"
| "pipe_scripts (m # ms) s =
     (let (r, s1) = m s; (rs, s2) = pipe_scripts ms s1 in (r # rs, s2))"

text \<open>The results a pipeline reports under a fault: a lost round trip fails every command.\<close>

fun pipe_results :: "fault \<Rightarrow> ('s, 'a) lua list \<Rightarrow> 's \<Rightarrow> (string + 'a) list \<times> 's" where
  "pipe_results NoFault ms s = pipe_scripts ms s"
| "pipe_results (ConnError e) ms s = (map (\<lambda>_. Inl e) ms, s)"
| "pipe_results (ReplyLost e) ms s = (map (\<lambda>_. Inl e) ms, snd (pipe_scripts ms s))"

text \<open>The first command error that is no duplicate.\<close>

fun batch_error :: "(string + 'a) list \<Rightarrow> string option" where
  "batch_error [] = None"
| "batch_error (Inl e # rs) = (if is_duplicate e then batch_error rs else Some e)"
| "batch_error (Inr _ # rs) = batch_error rs"

definition enqueueBatch :: "'s server \<Rightarrow> fault \<Rightarrow> fault \<Rightarrow> JobRecord list \<Rightarrow> 's \<Rightarrow> (qerr + unit) \<times> 's" where
  "enqueueBatch exec loadFlt flt jobs s =
     (case run loadFlt (ret ()) s of
        (Inl e, s') \<Rightarrow> (Inl (Wrapped ''winter: script load'' e), s')
      | (Inr _, s') \<Rightarrow>
          (case pipe_results flt (map (\<lambda>job. enqueue_call exec job '''' 0) jobs) s' of
             (rs, s'') \<Rightarrow>
               (case batch_error rs of
                  Some e \<Rightarrow> (Inl (Wrapped ''winter: batch enqueue'' e), s'')
                | None \<Rightarrow> (Inr (), s''))))"

definition chunkSize :: nat where
  "chunkSize = 100"

text \<open>The loop of \<open>EnqueueMany\<close>; the i-th batch meets the i-th faults.\<close>

function enqueue_chunks :: "'s server \<Rightarrow> (nat \<Rightarrow> fault) \<Rightarrow> (nat \<Rightarrow> fault) \<Rightarrow> nat \<Rightarrow> JobRecord list \<Rightarrow>
    's \<Rightarrow> (qerr + unit) \<times> 's" where
  "enqueue_chunks exec loadF execF i jobs s =
     (if jobs = [] then (Inr (), s)
      else case enqueueBatch exec (loadF i) (execF i) (take chunkSize jobs) s of
             (Inl e, s') \<Rightarrow> (Inl e, s')
           | (Inr _, s') \<Rightarrow> enqueue_chunks exec loadF execF (Suc i) (drop chunkSize jobs) s')"
  by pat_completeness auto
termination
  by (relation "measure (\<lambda>(exec, l, x, i, jobs, s). length jobs)") (auto simp: chunkSize_def)

declare enqueue_chunks.simps [simp del]

definition EnqueueMany :: "'s server \<Rightarrow> (nat \<Rightarrow> fault) \<Rightarrow> (nat \<Rightarrow> fault) \<Rightarrow> JobRecord list \<Rightarrow>
    's \<Rightarrow> (qerr + unit) \<times> 's" where
  "EnqueueMany exec loadF execF jobs = enqueue_chunks exec loadF execF 0 jobs"

section \<open>The life of a dequeued job\<close>

definition Dequeue :: "'s server \<Rightarrow> fault \<Rightarrow> int \<Rightarrow> string \<Rightarrow> string \<Rightarrow> 's \<Rightarrow> (qerr + JobRecord option) \<times> 's" where
  "Dequeue exec flt now queueName workerID =
     go_result (run flt (dequeueScript exec (readyKey queueName) (activeKey queueName)
         (pausedKey queueName) (workerJobsKey workerID) (leaseKey queueName) now
         (DefaultLeaseDuration div 1000000)))
       (Wrapped ''winter: dequeue'')
       (\<lambda>r. case elements r of [] \<Rightarrow> Inr None | v # vs \<Rightarrow> Inr (Some (parseJobRecord (v # vs))))"

definition Ack :: "'s server \<Rightarrow> fault \<Rightarrow> int \<Rightarrow> string \<Rightarrow> string \<Rightarrow> string \<Rightarrow> 's \<Rightarrow> (qerr + unit) \<times> 's" where
  "Ack exec flt now queueName jobID workerID =
     go_result (run flt (ackScript exec (jobKey jobID) (activeKey queueName) (statsKey queueName)
         (workerJobsKey workerID) (leaseKey queueName) jobID (itoa now)))
       (Wrapped ''winter: ack'') (\<lambda>_. Inr ())"

definition Nack :: "'s server \<Rightarrow> fault \<Rightarrow> int \<Rightarrow> string \<Rightarrow> string \<Rightarrow> string \<Rightarrow> string \<Rightarrow> int \<Rightarrow> bool \<Rightarrow>
    's \<Rightarrow> (qerr + string) \<times> 's" where
  "Nack exec flt now queueName jobID workerID errMsg backoffMs skipRetry =
     go_result (run flt (nackScript exec (jobKey jobID) (activeKey queueName) (delayedKey queueName)
         (deadKey queueName) (statsKey queueName) (workerJobsKey workerID) (leaseKey queueName)
         jobID errMsg backoffMs now (if skipRetry then 1 else 0)))
       (Wrapped ''winter: nack'')
       (\<lambda>r. case r of RBulk s \<Rightarrow> Inr s | _ \<Rightarrow> Inl (Wrapped ''winter: nack'' unexpected))"

definition RescheduleJob :: "'s server \<Rightarrow> fault \<Rightarrow> string \<Rightarrow> string \<Rightarrow> string \<Rightarrow> int \<Rightarrow> 's \<Rightarrow> (qerr + unit) \<times> 's" where
  "RescheduleJob exec flt queueName jobID workerID newTime =
     go_result (run flt (rescheduleScript exec (jobKey jobID) (activeKey queueName)
         (delayedKey queueName) (workerJobsKey workerID) (leaseKey queueName) jobID (unixMilli newTime)))
       (Wrapped ''winter: reschedule'') (\<lambda>_. Inr ())"

definition CancelJob :: "'s server \<Rightarrow> fault \<Rightarrow> int \<Rightarrow> string \<Rightarrow> string \<Rightarrow> string \<Rightarrow> string \<Rightarrow> 's \<Rightarrow> (qerr + unit) \<times> 's" where
  "CancelJob exec flt now queueName jobID workerID reason =
     go_result (run flt (cancelScript exec (jobKey jobID) (activeKey queueName)
         (workerJobsKey workerID) (leaseKey queueName) jobID (itoa now) reason))
       (Wrapped ''winter: cancel'') (\<lambda>_. Inr ())"

definition Promote :: "'s server \<Rightarrow> fault \<Rightarrow> int \<Rightarrow> string \<Rightarrow> int \<Rightarrow> 's \<Rightarrow> (qerr + int) \<times> 's" where
  "Promote exec flt now queueName limit =
     go_result (run flt (promoteScript exec (delayedKey queueName) (readyKey queueName) now limit))
       (Wrapped ''winter: promote'')
       (\<lambda>r. case r of RInt n \<Rightarrow> Inr n | _ \<Rightarrow> Inl (Wrapped ''winter: promote'' unexpected))"

definition ExtendLease :: "'s server \<Rightarrow> fault \<Rightarrow> int \<Rightarrow> string \<Rightarrow> string \<Rightarrow> int \<Rightarrow> 's \<Rightarrow> (qerr + unit) \<times> 's" where
  "ExtendLease exec flt t queueName jobID extension =
     go_result (run flt (extendLeaseScript exec (leaseKey queueName) jobID (unixMilli (t + extension))))
       (Wrapped ''winter: extend lease'') (\<lambda>_. Inr ())"

definition RecoverExpiredLeasesAt :: "'s server \<Rightarrow> fault \<Rightarrow> string \<Rightarrow> int \<Rightarrow> int \<Rightarrow> 's \<Rightarrow> (qerr + string list) \<times> 's" where
  "RecoverExpiredLeasesAt exec flt queueName limit nowMs =
     go_result (run flt (recoverLeasesScript exec (leaseKey queueName) (activeKey queueName)
         (readyKey queueName) nowMs limit))
       (Wrapped ''winter: recover leases'') (\<lambda>r. Inr (elements r))"

definition RecoverExpiredLeases :: "'s server \<Rightarrow> fault \<Rightarrow> int \<Rightarrow> string \<Rightarrow> int \<Rightarrow> 's \<Rightarrow> (qerr + string list) \<times> 's" where
  "RecoverExpiredLeases exec flt now queueName limit = RecoverExpiredLeasesAt exec flt queueName limit now"

section \<open>Workers, statistics and pausing\<close>

definition Heartbeat :: "'s server \<Rightarrow> fault \<Rightarrow> int \<Rightarrow> string \<Rightarrow> 's \<Rightarrow> (qerr + unit) \<times> 's" where
  "Heartbeat exec flt now workerID =
     go_result (run flt (lcall exec (HSET workersKey [(workerID, itoa now)]))) Plain (\<lambda>_. Inr ())"

definition DeregisterWorker :: "'s server \<Rightarrow> fault \<Rightarrow> string \<Rightarrow> 's \<Rightarrow> (qerr + unit) \<times> 's" where
  "DeregisterWorker exec flt workerID =
     go_result (run flt (pipe_exec exec [HDEL workersKey workerID, DEL (workerJobsKey workerID)]))
       Plain (\<lambda>_. Inr ())"

definition int_reply :: "reply \<Rightarrow> int" where
  "int_reply r = (case r of RInt n \<Rightarrow> n | _ \<Rightarrow> 0)"

definition queue_stats_of :: "reply list \<Rightarrow> string \<rightharpoonup> int" where
  "queue_stats_of rs =
     [''ready'' \<mapsto> int_reply (rs ! 0), ''active'' \<mapsto> int_reply (rs ! 1),
      ''delayed'' \<mapsto> int_reply (rs ! 2), ''dead'' \<mapsto> int_reply (rs ! 3)]
     ++ (\<lambda>k. map_option parse_int64 (map_of (rev (field_pairs (elements (rs ! 4)))) k))"

definition QueueStats :: "'s server \<Rightarrow> fault \<Rightarrow> string \<Rightarrow> 's \<Rightarrow> (qerr + (string \<rightharpoonup> int)) \<times> 's" where
  "QueueStats exec flt queueName =
     go_result (run flt (pipe_exec exec
         [ZCARD (readyKey queueName), SCARD (activeKey queueName), ZCARD (delayedKey queueName),
          LLEN (deadKey queueName), HGETALL (statsKey queueName)]))
       (Wrapped ''winter: queue stats'') (\<lambda>rs. Inr (queue_stats_of rs))"

definition Pause :: "'s server \<Rightarrow> fault \<Rightarrow> string \<Rightarrow> 's \<Rightarrow> (qerr + unit) \<times> 's" where
  "Pause exec flt queueName =
     go_result (run flt (lcall exec (SET (pausedKey queueName) ''1''))) Plain (\<lambda>_. Inr ())"

definition Resume :: "'s server \<Rightarrow> fault \<Rightarrow> string \<Rightarrow> 's \<Rightarrow> (qerr + unit) \<times> 's" where
  "Resume exec flt queueName =
     go_result (run flt (lcall exec (DEL (pausedKey queueName)))) Plain (\<lambda>_. Inr ())"

section \<open>Inspection and the dead letter queue\<close>

definition GetJob :: "'s server \<Rightarrow> fault \<Rightarrow> string \<Rightarrow> 's \<Rightarrow> (qerr + JobRecord option) \<times> 's" where
  "GetJob exec flt jobID =
     go_result (run flt (lcall exec (HGETALL (jobKey jobID)))) (Wrapped ''winter: get job'')
       (\<lambda>r. case elements r of [] \<Rightarrow> Inr None
          | v # vs \<Rightarrow> Inr (Some (parseJobRecordFromMap (map_of (rev (field_pairs (v # vs)))))))"

text \<open>The loop of \<open>ListDead\<close>: one round trip per identifier, ids without a hash are skipped.\<close>

fun get_jobs :: "'s server \<Rightarrow> (nat \<Rightarrow> fault) \<Rightarrow> nat \<Rightarrow> string list \<Rightarrow> 's \<Rightarrow> (qerr + JobRecord list) \<times> 's" where
  "get_jobs exec flts n [] s = (Inr [], s)"
| "get_jobs exec flts n (i # is) s =
     (case GetJob exec (flts n) i s of
        (Inl e, s') \<Rightarrow> (Inl e, s')
      | (Inr rec, s') \<Rightarrow>
          (case get_jobs exec flts (Suc n) is s' of
             (Inl e, s'') \<Rightarrow> (Inl e, s'')
           | (Inr recs, s'') \<Rightarrow> (Inr (case rec of None \<Rightarrow> recs | Some r \<Rightarrow> r # recs), s'')))"

definition ListDead :: "'s server \<Rightarrow> fault \<Rightarrow> (nat \<Rightarrow> fault) \<Rightarrow> string \<Rightarrow> int \<Rightarrow> int \<Rightarrow>
    's \<Rightarrow> (qerr + JobRecord list) \<times> 's" where
  "ListDead exec flt flts queueName offset limit s =
     (case run flt (lcall exec (LRANGE (deadKey queueName) offset (offset + limit - 1))) s of
        (Inl e, s') \<Rightarrow> (Inl (Wrapped ''winter: list dead'' e), s')
      | (Inr r, s') \<Rightarrow> get_jobs exec flts 0 (elements r) s')"

definition PeekDead :: "'s server \<Rightarrow> fault \<Rightarrow> fault \<Rightarrow> string \<Rightarrow> 's \<Rightarrow> (qerr + JobRecord option) \<times> 's" where
  "PeekDead exec flt flt2 queueName s =
     (case run flt (lcall exec (LRANGE (deadKey queueName) 0 0)) s of
        (Inl e, s') \<Rightarrow> (Inl (Wrapped ''winter: peek dead'' e), s')
      | (Inr r, s') \<Rightarrow>
          (case elements r of [] \<Rightarrow> (Inr None, s') | i # _ \<Rightarrow> GetJob exec flt2 i s'))"

definition RetryDead :: "'s server \<Rightarrow> fault \<Rightarrow> string \<Rightarrow> string \<Rightarrow> 's \<Rightarrow> (qerr + unit) \<times> 's" where
  "RetryDead exec flt queueName jobID =
     go_result (run flt (retryDeadScript exec (jobKey jobID) (deadKey queueName) (readyKey queueName)
         (statsKey queueName) jobID))
       (Wrapped ''winter: retry dead'')
       (\<lambda>r. case r of
          RInt n \<Rightarrow> (if n = 0 then Inl (Plain (''winter: job '' @ jobID @ '' not found in dead queue''))
                     else Inr ())
        | _ \<Rightarrow> Inl (Wrapped ''winter: retry dead'' unexpected))"

definition PurgeDead :: "'s server \<Rightarrow> fault \<Rightarrow> string \<Rightarrow> 's \<Rightarrow> (qerr + int) \<times> 's" where
  "PurgeDead exec flt queueName =
     go_result (run flt (purgeDeadScript exec (deadKey queueName)))
       (Wrapped ''winter: purge dead'')
       (\<lambda>r. case r of RInt n \<Rightarrow> Inr n | _ \<Rightarrow> Inl (Wrapped ''winter: purge dead'' unexpected))"

definition DeadCount :: "'s server \<Rightarrow> fault \<Rightarrow> string \<Rightarrow> 's \<Rightarrow> (qerr + int) \<times> 's" where
  "DeadCount exec flt queueName =
     go_result (run flt (lcall exec (LLEN (deadKey queueName)))) Plain (\<lambda>r. Inr (int_reply r))"

definition SetResult :: "'s server \<Rightarrow> fault \<Rightarrow> string \<Rightarrow> string \<Rightarrow> int \<Rightarrow> 's \<Rightarrow> (qerr + unit) \<times> 's" where
  "SetResult exec flt jobID data ttl =
     go_result (run flt (lcall exec (if ttl > 0 then SET_PX (resultKey jobID) data (max 1 (ttl div 1000000))
                                     else SET (resultKey jobID) data))) Plain (\<lambda>_. Inr ())"

definition GetResult :: "'s server \<Rightarrow> fault \<Rightarrow> string \<Rightarrow> 's \<Rightarrow> (qerr + string option) \<times> 's" where
  "GetResult exec flt jobID =
     go_result (run flt (lcall exec (GET (resultKey jobID)))) (Wrapped ''winter: get result'')
       (\<lambda>r. Inr (case r of RBulk v \<Rightarrow> Some v | _ \<Rightarrow> None))"

section \<open>Simulation of the operations\<close>

lemma sim_go_result [sim_intros]:
  assumes "sim v m n"
  shows "sim v (go_result m onerr onok) (go_result n onerr onok)"
proof (rule simI)
  fix s
  obtain r s' where m: "m s = (r, s')" by (cases "m s")
  with assms have n: "n (v s) = (r, v s')" by (metis map_prod_simp id_apply sim_def)
  show "map_prod id v (go_result m onerr onok s) = go_result n onerr onok (v s)"
    by (cases r) (simp_all add: go_result_def m n)
qed

context redis_server
begin

lemma sim_enqueue_call: "sim view (enqueue_call exec job u ttl) (enqueue_call redis_doc job u ttl)"
  unfolding enqueue_call_def by (rule sim_enqueueScript)

lemma sim_Enqueue: "sim view (Enqueue exec flt job u p) (Enqueue redis_doc flt job u p)"
  unfolding Enqueue_def Let_def by (auto intro!: sim_intros sim_enqueue_call split: prod.split)

lemma sim_Dequeue: "sim view (Dequeue exec flt now q w) (Dequeue redis_doc flt now q w)"
  unfolding Dequeue_def by (intro sim_intros scripts_sim)

lemma sim_Ack: "sim view (Ack exec flt now q j w) (Ack redis_doc flt now q j w)"
  unfolding Ack_def by (intro sim_intros scripts_sim)

lemma sim_Nack: "sim view (Nack exec flt now q j w e b sk) (Nack redis_doc flt now q j w e b sk)"
  unfolding Nack_def by (intro sim_intros scripts_sim)

lemma sim_RescheduleJob: "sim view (RescheduleJob exec flt q j w t) (RescheduleJob redis_doc flt q j w t)"
  unfolding RescheduleJob_def by (intro sim_intros scripts_sim)

lemma sim_CancelJob: "sim view (CancelJob exec flt now q j w r) (CancelJob redis_doc flt now q j w r)"
  unfolding CancelJob_def by (intro sim_intros scripts_sim)

lemma sim_Promote: "sim view (Promote exec flt now q l) (Promote redis_doc flt now q l)"
  unfolding Promote_def by (intro sim_intros scripts_sim)

lemma sim_ExtendLease: "sim view (ExtendLease exec flt t q j x) (ExtendLease redis_doc flt t q j x)"
  unfolding ExtendLease_def by (intro sim_intros scripts_sim)

lemma sim_RecoverExpiredLeasesAt:
  "sim view (RecoverExpiredLeasesAt exec flt q l now) (RecoverExpiredLeasesAt redis_doc flt q l now)"
  unfolding RecoverExpiredLeasesAt_def by (intro sim_intros scripts_sim)

lemma sim_RecoverExpiredLeases:
  "sim view (RecoverExpiredLeases exec flt now q l) (RecoverExpiredLeases redis_doc flt now q l)"
  unfolding RecoverExpiredLeases_def by (rule sim_RecoverExpiredLeasesAt)

lemma sim_Heartbeat: "sim view (Heartbeat exec flt now w) (Heartbeat redis_doc flt now w)"
  unfolding Heartbeat_def by (intro sim_intros sim_lcall)

lemma sim_DeregisterWorker: "sim view (DeregisterWorker exec flt w) (DeregisterWorker redis_doc flt w)"
  unfolding DeregisterWorker_def by (intro sim_intros sim_pipe_exec)

lemma sim_QueueStats: "sim view (QueueStats exec flt q) (QueueStats redis_doc flt q)"
  unfolding QueueStats_def by (intro sim_intros sim_pipe_exec)

lemma sim_Pause: "sim view (Pause exec flt q) (Pause redis_doc flt q)"
  unfolding Pause_def by (intro sim_intros sim_lcall)

lemma sim_Resume: "sim view (Resume exec flt q) (Resume redis_doc flt q)"
  unfolding Resume_def by (intro sim_intros sim_lcall)

lemma sim_GetJob: "sim view (GetJob exec flt j) (GetJob redis_doc flt j)"
  unfolding GetJob_def by (intro sim_intros sim_lcall)

lemma sim_RetryDead: "sim view (RetryDead exec flt q j) (RetryDead redis_doc flt q j)"
  unfolding RetryDead_def by (intro sim_intros scripts_sim)

lemma sim_PurgeDead: "sim view (PurgeDead exec flt q) (PurgeDead redis_doc flt q)"
  unfolding PurgeDead_def by (intro sim_intros scripts_sim)

lemma sim_SetResult: "sim view (SetResult exec flt j d ttl) (SetResult redis_doc flt j d ttl)"
  unfolding SetResult_def by (intro sim_intros sim_lcall)

lemma sim_GetResult: "sim view (GetResult exec flt j) (GetResult redis_doc flt j)"
  unfolding GetResult_def by (intro sim_intros sim_lcall)

lemmas queue_sim = sim_Enqueue sim_Dequeue sim_Ack sim_Nack sim_RescheduleJob sim_CancelJob
  sim_Promote sim_ExtendLease sim_RecoverExpiredLeasesAt sim_RecoverExpiredLeases sim_Heartbeat
  sim_DeregisterWorker sim_QueueStats sim_Pause sim_Resume sim_GetJob sim_RetryDead sim_PurgeDead
  sim_SetResult sim_GetResult

end

end
