(* ===== verification/Job_View.thy ===== *)
theory Job_View
  imports Queue
begin

text \<open>
  How one job appears in the dataset: its hash and, for every queue, its score in the ready,
  delayed and lease sets, its membership in the active set and how often the dead letter list
  names it. \<open>shape\<close> is the typing invariant of the keyspace. The lemmas say what each single
  write does to the view and that it keeps the shape; the operations are compositions of them.
\<close>

record jview =
  jv_hash :: "string \<rightharpoonup> string"
  jv_ready :: "string \<Rightarrow> int option"
  jv_delayed :: "string \<Rightarrow> int option"
  jv_lease :: "string \<Rightarrow> int option"
  jv_active :: "string \<Rightarrow> bool"
  jv_dead :: "string \<Rightarrow> nat"

definition jview_of :: "dataset \<Rightarrow> string \<Rightarrow> jview" where
  "jview_of d i =
     \<lparr>jv_hash = map_of (hash_at d (jobKey i)),
      jv_ready = (\<lambda>q. if wf_queue q then zscore (zset_at d (readyKey q)) i else None),
      jv_delayed = (\<lambda>q. if wf_queue q then zscore (zset_at d (delayedKey q)) i else None),
      jv_lease = (\<lambda>q. if wf_queue q then zscore (zset_at d (leaseKey q)) i else None),
      jv_active = (\<lambda>q. wf_queue q \<and> i \<in> set (set_at d (activeKey q))),
      jv_dead = (\<lambda>q. if wf_queue q then count_list (list_at d (deadKey q)) i else 0)\<rparr>"

lemma jview_of_sel:
  "jv_hash (jview_of d i) = map_of (hash_at d (jobKey i))"
  "wf_queue q \<Longrightarrow> jv_ready (jview_of d i) q = zscore (zset_at d (readyKey q)) i"
  "wf_queue q \<Longrightarrow> jv_delayed (jview_of d i) q = zscore (zset_at d (delayedKey q)) i"
  "wf_queue q \<Longrightarrow> jv_lease (jview_of d i) q = zscore (zset_at d (leaseKey q)) i"
  "wf_queue q \<Longrightarrow> jv_active (jview_of d i) q \<longleftrightarrow> i \<in> set (set_at d (activeKey q))"
  "wf_queue q \<Longrightarrow> jv_dead (jview_of d i) q = count_list (list_at d (deadKey q)) i"
  by (simp_all add: jview_of_def)

section \<open>The shape of the keyspace\<close>

definition zgood :: "(int \<times> string) list \<Rightarrow> bool" where
  "zgood z \<longleftrightarrow> zset_ok z \<and> (\<forall>p\<in>set z. wf_id (snd p))"

definition sgood :: "string list \<Rightarrow> bool" where
  "sgood xs \<longleftrightarrow> distinct xs \<and> (\<forall>i\<in>set xs. wf_id i)"

definition lgood :: "string list \<Rightarrow> bool" where
  "lgood xs \<longleftrightarrow> (\<forall>i\<in>set xs. wf_id i)"

text \<open>Every counter of a statistics hash holds an integer.\<close>

definition counters_ok :: "(string \<times> string) list \<Rightarrow> bool" where
  "counters_ok h \<longleftrightarrow> (\<forall>f. \<exists>n. hash_int h f = Some n) \<and> distinct (map fst h)"

definition shape_queue :: "dataset \<Rightarrow> string \<Rightarrow> bool" where
  "shape_queue d q \<longleftrightarrow>
     has_type TZSet d (readyKey q) \<and> zgood (zset_at d (readyKey q)) \<and>
     has_type TZSet d (delayedKey q) \<and> zgood (zset_at d (delayedKey q)) \<and>
     has_type TZSet d (leaseKey q) \<and> zgood (zset_at d (leaseKey q)) \<and>
     has_type TSet d (activeKey q) \<and> sgood (set_at d (activeKey q)) \<and>
     has_type TList d (deadKey q) \<and> lgood (list_at d (deadKey q)) \<and>
     has_type THash d (statsKey q) \<and> counters_ok (hash_at d (statsKey q))"

definition shape :: "dataset \<Rightarrow> bool" where
  "shape d \<longleftrightarrow> (\<forall>q. wf_queue q \<longrightarrow> shape_queue d q) \<and>
     (\<forall>i. wf_id i \<longrightarrow> has_type THash d (jobKey i) \<and> distinct (map fst (hash_at d (jobKey i)))) \<and>
     (\<forall>w. has_type TSet d (workerJobsKey w)) \<and>
     (\<forall>u. has_type TString d (uniqueKey u)) \<and>
     has_type THash d workersKey"

lemma shapeD [simp]:
  assumes "shape d" and "wf_queue q"
  shows "has_type TZSet d (readyKey q)" "zgood (zset_at d (readyKey q))"
    "has_type TZSet d (delayedKey q)" "zgood (zset_at d (delayedKey q))"
    "has_type TZSet d (leaseKey q)" "zgood (zset_at d (leaseKey q))"
    "has_type TSet d (activeKey q)" "sgood (set_at d (activeKey q))"
    "has_type TList d (deadKey q)" "lgood (list_at d (deadKey q))"
    "has_type THash d (statsKey q)" "counters_ok (hash_at d (statsKey q))"
  using assms by (simp_all add: shape_def shape_queue_def)

lemma shapeD_global [simp]:
  assumes "shape d"
  shows "wf_id i \<Longrightarrow> has_type THash d (jobKey i)"
    "wf_id i \<Longrightarrow> distinct (map fst (hash_at d (jobKey i)))"
    "has_type TSet d (workerJobsKey w)"
    "has_type TString d (uniqueKey u)" "has_type THash d workersKey"
  using assms by (simp_all add: shape_def)

lemma zgood_zset_ok: "zgood z \<Longrightarrow> zset_ok z"
  by (simp add: zgood_def)

lemma zgood_zrem [simp]: "zgood z \<Longrightarrow> zgood (zrem i z)"
  by (simp add: zgood_def)

lemma zgood_zadd [simp]: "zgood z \<Longrightarrow> wf_id i \<Longrightarrow> zgood (zadd s i z)"
  by (simp add: zgood_def)

lemma zgood_Cons: "zgood ((s, i) # z) \<Longrightarrow> zgood z \<and> wf_id i \<and> i \<notin> snd ` set z"
  using zset_ok_Cons [of "(s, i)" z] by (simp add: zgood_def)

lemma zgood_zscore_wf: "zgood z \<Longrightarrow> zscore z i = Some s \<Longrightarrow> wf_id i"
  by (fastforce simp: zgood_def dest: zscore_SomeD)

lemma sgood_remove [simp]: "sgood xs \<Longrightarrow> sgood (removeAll i xs)"
  by (simp add: sgood_def distinct_removeAll)

lemma sgood_add [simp]: "sgood xs \<Longrightarrow> wf_id i \<Longrightarrow> i \<notin> set xs \<Longrightarrow> sgood (xs @ [i])"
  by (simp add: sgood_def)

lemma lgood_Cons [simp]: "lgood (i # xs) \<longleftrightarrow> wf_id i \<and> lgood xs"
  by (simp add: lgood_def)

lemma lgood_remove1 [simp]: "lgood xs \<Longrightarrow> lgood (remove1 i xs)"
  using set_remove1_subset [of i xs] by (auto simp: lgood_def)

lemma lgood_Nil [simp]: "lgood []"
  by (simp add: lgood_def)

lemma hash_int_set: "hash_int (hash_set [(f, itoa n)] h) g = (if g = f then Some n else hash_int h g)"
  by (simp add: hash_int_def map_add_def)

lemma counters_ok_incr [simp]: "counters_ok h \<Longrightarrow> counters_ok (hash_set [(f, itoa n)] h)"
  by (simp add: counters_ok_def hash_int_set)

lemma counters_okE: "counters_ok h \<Longrightarrow> (\<And>n. hash_int h f = Some n \<Longrightarrow> thesis) \<Longrightarrow> thesis"
  by (auto simp: counters_ok_def)

section \<open>Single writes keep the shape\<close>

lemma shapeI:
  assumes "\<And>q. wf_queue q \<Longrightarrow> shape_queue d q" "\<And>i. wf_id i \<Longrightarrow> has_type THash d (jobKey i)"
    "\<And>i. wf_id i \<Longrightarrow> distinct (map fst (hash_at d (jobKey i)))"
    "\<And>w. has_type TSet d (workerJobsKey w)" "\<And>u. has_type TString d (uniqueKey u)"
    "has_type THash d workersKey"
  shows "shape d"
  unfolding shape_def using assms by blast

lemma shape_write [simp]:
  assumes "shape d"
  shows "wf_queue q \<Longrightarrow> zgood z \<Longrightarrow> shape (store_zset d (readyKey q) z)"
    "wf_queue q \<Longrightarrow> zgood z \<Longrightarrow> shape (store_zset d (delayedKey q) z)"
    "wf_queue q \<Longrightarrow> zgood z \<Longrightarrow> shape (store_zset d (leaseKey q) z)"
    "wf_queue q \<Longrightarrow> sgood xs \<Longrightarrow> shape (store_set d (activeKey q) xs)"
    "wf_queue q \<Longrightarrow> lgood xs \<Longrightarrow> shape (store_list d (deadKey q) xs)"
    "wf_queue q \<Longrightarrow> shape (del d (deadKey q))"
    "counters_ok h \<Longrightarrow> shape (store_hash d (statsKey q) h)"
    "distinct (map fst h) \<Longrightarrow> shape (store_hash d (jobKey i) h)"
    "shape (del d (jobKey i))"
    "shape (store_set d (workerJobsKey w) xs)"
    "shape (del d (workerJobsKey w))"
    "shape (del d (uniqueKey u))"
    "shape (put_ttl d (uniqueKey u) (RString v) e)"
    "shape (store_hash d workersKey h)"
    "wf_queue q \<Longrightarrow> shape (put_ttl d (pausedKey q) (RString v) e)"
    "wf_queue q \<Longrightarrow> shape (del d (pausedKey q))"
    "shape (put_ttl d (resultKey i) (RString v) e)"
  using assms by (rule_tac shapeI; simp add: shape_queue_def key_simps)+

section \<open>Single writes in the view of a job\<close>

lemma jview_write_queue [view_simps]:
  assumes "wf_queue q"
  shows "jview_of (store_zset d (readyKey q) z) i =
      (jview_of d i)\<lparr>jv_ready := (jv_ready (jview_of d i))(q := zscore z i)\<rparr>"
    "jview_of (store_zset d (delayedKey q) z) i =
      (jview_of d i)\<lparr>jv_delayed := (jv_delayed (jview_of d i))(q := zscore z i)\<rparr>"
    "jview_of (store_zset d (leaseKey q) z) i =
      (jview_of d i)\<lparr>jv_lease := (jv_lease (jview_of d i))(q := zscore z i)\<rparr>"
    "jview_of (store_set d (activeKey q) xs) i =
      (jview_of d i)\<lparr>jv_active := (jv_active (jview_of d i))(q := (i \<in> set xs))\<rparr>"
    "jview_of (store_list d (deadKey q) xs) i =
      (jview_of d i)\<lparr>jv_dead := (jv_dead (jview_of d i))(q := count_list xs i)\<rparr>"
    "jview_of (del d (deadKey q)) i =
      (jview_of d i)\<lparr>jv_dead := (jv_dead (jview_of d i))(q := 0)\<rparr>"
    "jview_of (put_ttl d (pausedKey q) (RString v) e) i = jview_of d i"
    "jview_of (del d (pausedKey q)) i = jview_of d i"
  using assms by (auto simp: jview_of_def key_simps fun_eq_iff)

lemma jview_write_job [view_simps]:
  "jview_of (store_hash d (jobKey j) h) i =
     (if i = j then (jview_of d i)\<lparr>jv_hash := map_of h\<rparr> else jview_of d i)"
  "jview_of (del d (jobKey j)) i =
     (if i = j then (jview_of d i)\<lparr>jv_hash := Map.empty\<rparr> else jview_of d i)"
  by (auto simp: jview_of_def key_simps cong: if_cong)

lemma jview_write_other [view_simps]:
  "jview_of (store_hash d (statsKey q) h) i = jview_of d i"
  "jview_of (store_set d (workerJobsKey w) xs) i = jview_of d i"
  "jview_of (del d (workerJobsKey w)) i = jview_of d i"
  "jview_of (del d (uniqueKey u)) i = jview_of d i"
  "jview_of (put_ttl d (uniqueKey u) (RString v) e) i = jview_of d i"
  "jview_of (store_hash d workersKey h) i = jview_of d i"
  "wf_id i \<Longrightarrow> jview_of (put_ttl d (resultKey j) (RString v) e) i = jview_of d i"
  by (auto simp: jview_of_def key_simps cong: if_cong)

end
