(* ===== verification/Lifecycle_Spec.thy ===== *)
theory Lifecycle_Spec
  imports Job_View
begin

text \<open>
  The abstract queue: a finite map from job identifiers to jobs, each in exactly one place. It
  has no keys, no sets and no scripts; it is what the queue component promises to its clients.
  \<open>refines\<close> relates it to the dataset, and so is the invariant of the keyspace: every stored
  job is in the one place its state says, with its priority or due time as score.
\<close>

datatype loc = Ready | Delayed int | Active int | Dead | Done

record ajob =
  aj_kind :: string
  aj_queue :: string
  aj_prio :: int
  aj_payload :: string
  aj_workflow :: string
  aj_unique :: string
  aj_max :: int
  aj_attempt :: int
  aj_state :: string
  aj_loc :: loc

type_synonym astate = "string \<rightharpoonup> ajob"

text \<open>The states a job hash may show in each place.\<close>

fun states_of :: "loc \<Rightarrow> string list" where
  "states_of Ready = [''pending'']"
| "states_of (Delayed _) = [''pending'', ''retry'']"
| "states_of (Active _) = [''active'']"
| "states_of Dead = [''dead'']"
| "states_of Done = [''completed'', ''cancelled'']"

section \<open>Abstract operations\<close>

definition new_job :: "JobRecord \<Rightarrow> string \<Rightarrow> ajob" where
  "new_job job uk =
     \<lparr>aj_kind = Kind job, aj_queue = Queue job, aj_prio = Priority job, aj_payload = Payload job,
      aj_workflow = WorkflowID job, aj_unique = uk, aj_max = MaxRetries job, aj_attempt = 0,
      aj_state = State job,
      aj_loc = (if ScheduledAt job > 0 then Delayed (ScheduledAt job) else Ready)\<rparr>"

definition to_active :: "int \<Rightarrow> ajob \<Rightarrow> ajob" where
  "to_active expiry a = a\<lparr>aj_loc := Active expiry, aj_state := ''active''\<rparr>"

definition to_completed :: "ajob \<Rightarrow> ajob" where
  "to_completed a = a\<lparr>aj_loc := Done, aj_state := ''completed''\<rparr>"

definition to_cancelled :: "ajob \<Rightarrow> ajob" where
  "to_cancelled a = a\<lparr>aj_loc := Done, aj_state := ''cancelled''\<rparr>"

definition to_ready :: "ajob \<Rightarrow> ajob" where
  "to_ready a = a\<lparr>aj_loc := Ready, aj_state := ''pending''\<rparr>"

definition to_delayed :: "int \<Rightarrow> ajob \<Rightarrow> ajob" where
  "to_delayed t a = a\<lparr>aj_loc := Delayed t, aj_state := ''pending''\<rparr>"

text \<open>A failure counts an attempt, then retries after a delay or goes to the dead letters.\<close>

definition exhausted :: "bool \<Rightarrow> ajob \<Rightarrow> bool" where
  "exhausted skip a \<longleftrightarrow> skip \<or> aj_max a \<le> aj_attempt a + 1"

definition to_failed :: "bool \<Rightarrow> int \<Rightarrow> ajob \<Rightarrow> ajob" where
  "to_failed skip t a =
     (if exhausted skip a
      then a\<lparr>aj_loc := Dead, aj_state := ''dead'', aj_attempt := aj_attempt a + 1\<rparr>
      else a\<lparr>aj_loc := Delayed t, aj_state := ''retry'', aj_attempt := aj_attempt a + 1\<rparr>)"

definition to_retried :: "ajob \<Rightarrow> ajob" where
  "to_retried a = a\<lparr>aj_loc := Ready, aj_state := ''pending'', aj_attempt := 0\<rparr>"

definition upd :: "string \<Rightarrow> (ajob \<Rightarrow> ajob) \<Rightarrow> astate \<Rightarrow> astate" where
  "upd i f m = m(i := map_option f (m i))"

definition at_loc :: "astate \<Rightarrow> string \<Rightarrow> string \<Rightarrow> (loc \<Rightarrow> bool) \<Rightarrow> bool" where
  "at_loc m q i P \<longleftrightarrow> (\<exists>a. m i = Some a \<and> aj_queue a = q \<and> P (aj_loc a))"

text \<open>The job a dequeue must return: least priority value, then least identifier.\<close>

definition is_next :: "astate \<Rightarrow> string \<Rightarrow> string \<Rightarrow> bool" where
  "is_next m q i \<longleftrightarrow>
     (\<exists>a. m i = Some a \<and> aj_queue a = q \<and> aj_loc a = Ready \<and>
       (\<forall>j b. m j = Some b \<and> aj_queue b = q \<and> aj_loc b = Ready \<longrightarrow> (aj_prio a, i) \<le> (aj_prio b, j)))"

section \<open>Refinement\<close>

text \<open>What the dataset shows of a job with hash \<open>h\<close> in one place of queue \<open>q\<close>.\<close>

definition place :: "(string \<rightharpoonup> string) \<Rightarrow> string \<Rightarrow> int \<Rightarrow> loc \<Rightarrow> jview" where
  "place h q p l =
     \<lparr>jv_hash = h,
      jv_ready = (\<lambda>_. None)(q := (if l = Ready then Some p else None)),
      jv_delayed = (\<lambda>_. None)(q := (case l of Delayed t \<Rightarrow> Some t | _ \<Rightarrow> None)),
      jv_lease = (\<lambda>_. None)(q := (case l of Active t \<Rightarrow> Some t | _ \<Rightarrow> None)),
      jv_active = (\<lambda>_. False)(q := (case l of Active t \<Rightarrow> True | _ \<Rightarrow> False)),
      jv_dead = (\<lambda>_. 0)(q := (if l = Dead then 1 else 0))\<rparr>"

definition absent :: jview where
  "absent = \<lparr>jv_hash = Map.empty, jv_ready = (\<lambda>_. None), jv_delayed = (\<lambda>_. None),
     jv_lease = (\<lambda>_. None), jv_active = (\<lambda>_. False), jv_dead = (\<lambda>_. 0)\<rparr>"

text \<open>The fields of a job hash that never change after the job is enqueued, and those that do.\<close>

definition hash_of :: "(string \<rightharpoonup> string) \<Rightarrow> string \<Rightarrow> ajob \<Rightarrow> bool" where
  "hash_of h i a \<longleftrightarrow>
     h ''id'' = Some i \<and> h ''kind'' = Some (aj_kind a) \<and> h ''queue'' = Some (aj_queue a) \<and>
     h ''priority'' = Some (itoa (aj_prio a)) \<and> h ''payload'' = Some (aj_payload a) \<and>
     h ''workflow_id'' = Some (aj_workflow a) \<and> h ''unique_key'' = Some (aj_unique a) \<and>
     h ''max_retries'' = Some (itoa (aj_max a)) \<and> h ''attempt'' = Some (itoa (aj_attempt a)) \<and>
     h ''state'' = Some (aj_state a)"

definition unique_ok :: "string \<Rightarrow> bool" where
  "unique_ok u \<longleftrightarrow> u = '''' \<or> (\<exists>k. u = uniqueKey k)"

definition represents :: "jview \<Rightarrow> string \<Rightarrow> ajob \<Rightarrow> bool" where
  "represents v i a \<longleftrightarrow>
     v = place (jv_hash v) (aj_queue a) (aj_prio a) (aj_loc a) \<and> hash_of (jv_hash v) i a \<and>
     wf_queue (aj_queue a) \<and> aj_state a \<in> set (states_of (aj_loc a)) \<and> unique_ok (aj_unique a)"

definition shows_job :: "jview \<Rightarrow> string \<Rightarrow> ajob option \<Rightarrow> bool" where
  "shows_job v i x = (case x of None \<Rightarrow> v = absent | Some a \<Rightarrow> represents v i a)"

definition refines :: "dataset \<Rightarrow> astate \<Rightarrow> bool" where
  "refines d m \<longleftrightarrow> shape d \<and> (\<forall>i. wf_id i \<longrightarrow> shows_job (jview_of d i) i (m i)) \<and> (\<forall>i\<in>dom m. wf_id i)"

lemma refines_shape [simp]: "refines d m \<Longrightarrow> shape d"
  by (simp add: refines_def)

lemma refinesD: "refines d m \<Longrightarrow> m i = Some a \<Longrightarrow> wf_id i \<and> represents (jview_of d i) i a"
  by (force simp: refines_def shows_job_def)

lemma refines_wf: "refines d m \<Longrightarrow> m i = Some a \<Longrightarrow> wf_id i \<and> wf_queue (aj_queue a) \<and> unique_ok (aj_unique a)"
  by (auto dest!: refinesD simp: represents_def)

lemma refines_absent: "refines d m \<Longrightarrow> wf_id i \<Longrightarrow> m i = None \<Longrightarrow> jview_of d i = absent"
  by (force simp: refines_def shows_job_def)

text \<open>One job changes, the others look as before: the shape of every per-job refinement proof.\<close>

lemma refines_step:
  assumes "refines d m" and "shape d'" and "wf_id i"
    and "\<And>j. wf_id j \<Longrightarrow> j \<noteq> i \<Longrightarrow> jview_of d' j = jview_of d j"
    and "shows_job (jview_of d' i) i x"
  shows "refines d' (m(i := x))"
  using assms by (auto simp: refines_def split: if_splits)

lemma refines_same:
  assumes "refines d m" and "shape d'" and "\<And>j. wf_id j \<Longrightarrow> jview_of d' j = jview_of d j"
  shows "refines d' m"
  using assms by (auto simp: refines_def)

text \<open>Membership in the queue's structures is the abstract place.\<close>

lemma represents_sel:
  assumes "represents v i a"
  shows "jv_ready v q = (if aj_queue a = q \<and> aj_loc a = Ready then Some (aj_prio a) else None)"
    "jv_delayed v q = (if aj_queue a = q then (case aj_loc a of Delayed t \<Rightarrow> Some t | _ \<Rightarrow> None) else None)"
    "jv_lease v q = (if aj_queue a = q then (case aj_loc a of Active t \<Rightarrow> Some t | _ \<Rightarrow> None) else None)"
    "jv_active v q = (aj_queue a = q \<and> (case aj_loc a of Active t \<Rightarrow> True | _ \<Rightarrow> False))"
    "jv_dead v q = (if aj_queue a = q \<and> aj_loc a = Dead then 1 else 0)"
    "jv_hash v ''unique_key'' = Some (aj_unique a)" "jv_hash v ''priority'' = Some (itoa (aj_prio a))"
    "jv_hash v ''max_retries'' = Some (itoa (aj_max a))" "jv_hash v ''attempt'' = Some (itoa (aj_attempt a))"
proof -
  from assms have v: "v = place (jv_hash v) (aj_queue a) (aj_prio a) (aj_loc a)"
    by (simp add: represents_def)
  show "jv_ready v q = (if aj_queue a = q \<and> aj_loc a = Ready then Some (aj_prio a) else None)"
    "jv_delayed v q = (if aj_queue a = q then (case aj_loc a of Delayed t \<Rightarrow> Some t | _ \<Rightarrow> None) else None)"
    "jv_lease v q = (if aj_queue a = q then (case aj_loc a of Active t \<Rightarrow> Some t | _ \<Rightarrow> None) else None)"
    "jv_active v q = (aj_queue a = q \<and> (case aj_loc a of Active t \<Rightarrow> True | _ \<Rightarrow> False))"
    "jv_dead v q = (if aj_queue a = q \<and> aj_loc a = Dead then 1 else 0)"
    by (subst v; simp add: place_def)+
qed (use assms in \<open>auto simp: represents_def hash_of_def\<close>)

lemma representsE:
  assumes "represents v i a"
  obtains h where "v = place h (aj_queue a) (aj_prio a) (aj_loc a)" "hash_of h i a"
    "wf_queue (aj_queue a)" "aj_state a \<in> set (states_of (aj_loc a))" "unique_ok (aj_unique a)"
  using assms by (auto simp: represents_def)

lemma refines_ready_iff:
  assumes "refines d m" and "wf_queue q" and "wf_id i"
  shows "zscore (zset_at d (readyKey q)) i = Some p \<longleftrightarrow>
     (\<exists>a. m i = Some a \<and> aj_queue a = q \<and> aj_loc a = Ready \<and> aj_prio a = p)"
proof (cases "m i")
  case None
  with assms show ?thesis using refines_absent [OF assms(1,3)]
    by (simp add: jview_of_sel(2) [symmetric] absent_def)
next
  case (Some a)
  with assms refinesD [OF assms(1) Some] show ?thesis
    by (auto simp: jview_of_sel(2) [symmetric] represents_sel split: if_splits)
qed

lemma refines_delayed_iff:
  assumes "refines d m" and "wf_queue q" and "wf_id i"
  shows "zscore (zset_at d (delayedKey q)) i = Some t \<longleftrightarrow>
     (\<exists>a. m i = Some a \<and> aj_queue a = q \<and> aj_loc a = Delayed t)"
proof (cases "m i")
  case None
  with assms show ?thesis using refines_absent [OF assms(1,3)]
    by (simp add: jview_of_sel(3) [symmetric] absent_def)
next
  case (Some a)
  with assms refinesD [OF assms(1) Some] show ?thesis
    by (auto simp: jview_of_sel(3) [symmetric] represents_sel split: loc.splits if_splits)
qed

lemma refines_lease_iff:
  assumes "refines d m" and "wf_queue q" and "wf_id i"
  shows "zscore (zset_at d (leaseKey q)) i = Some t \<longleftrightarrow>
     (\<exists>a. m i = Some a \<and> aj_queue a = q \<and> aj_loc a = Active t)"
proof (cases "m i")
  case None
  with assms show ?thesis using refines_absent [OF assms(1,3)]
    by (simp add: jview_of_sel(4) [symmetric] absent_def)
next
  case (Some a)
  with assms refinesD [OF assms(1) Some] show ?thesis
    by (auto simp: jview_of_sel(4) [symmetric] represents_sel split: loc.splits if_splits)
qed

lemma refines_active_iff:
  assumes "refines d m" and "wf_queue q" and "wf_id i"
  shows "i \<in> set (set_at d (activeKey q)) \<longleftrightarrow>
     (\<exists>a t. m i = Some a \<and> aj_queue a = q \<and> aj_loc a = Active t)"
proof (cases "m i")
  case None
  with assms show ?thesis using refines_absent [OF assms(1,3)]
    by (simp add: jview_of_sel(5) [symmetric] absent_def)
next
  case (Some a)
  with assms refinesD [OF assms(1) Some] show ?thesis
    by (auto simp: jview_of_sel(5) [symmetric] represents_sel split: loc.splits if_splits)
qed

lemma refines_dead_iff:
  assumes "refines d m" and "wf_queue q" and "wf_id i"
  shows "count_list (list_at d (deadKey q)) i =
     (if \<exists>a. m i = Some a \<and> aj_queue a = q \<and> aj_loc a = Dead then 1 else 0)"
proof (cases "m i")
  case None
  with assms show ?thesis using refines_absent [OF assms(1,3)]
    by (simp add: jview_of_sel(6) [symmetric] absent_def)
next
  case (Some a)
  with assms refinesD [OF assms(1) Some] show ?thesis
    by (auto simp: jview_of_sel(6) [symmetric] represents_sel)
qed

end
