(* ===== verification/Queue_Refine.thy ===== *)
theory Queue_Refine
  imports Lifecycle_Spec
begin

text \<open>
  Each operation of the queue on the logical dataset implements the abstract operation. The
  scripts are compositions of a few moves (leave the active set, enter the ready set, write
  fields of the hash, count, release the lock); each move has a lemma that says how a script
  runs through it, that it keeps the shape, and what it does to the view of every job.
\<close>

section \<open>The moves of the scripts\<close>

definition leave_active :: "string \<Rightarrow> string \<Rightarrow> string \<Rightarrow> dataset \<Rightarrow> dataset" where
  "leave_active q w i d =
     store_zset
       (store_set (store_set d (activeKey q) (removeAll i (set_at d (activeKey q))))
          (workerJobsKey w) (removeAll i (set_at d (workerJobsKey w))))
       (leaseKey q) (zrem i (zset_at d (leaseKey q)))"

definition rem_active :: "string \<Rightarrow> string \<Rightarrow> dataset \<Rightarrow> dataset" where
  "rem_active q i d = store_set d (activeKey q) (removeAll i (set_at d (activeKey q)))"

definition rem_lease :: "string \<Rightarrow> string \<Rightarrow> dataset \<Rightarrow> dataset" where
  "rem_lease q i d = store_zset d (leaseKey q) (zrem i (zset_at d (leaseKey q)))"

definition rem_ready :: "string \<Rightarrow> string \<Rightarrow> dataset \<Rightarrow> dataset" where
  "rem_ready q i d = store_zset d (readyKey q) (zrem i (zset_at d (readyKey q)))"

definition rem_delayed :: "string \<Rightarrow> string \<Rightarrow> dataset \<Rightarrow> dataset" where
  "rem_delayed q i d = store_zset d (delayedKey q) (zrem i (zset_at d (delayedKey q)))"

definition put_ready :: "string \<Rightarrow> int \<Rightarrow> string \<Rightarrow> dataset \<Rightarrow> dataset" where
  "put_ready q p i d = store_zset d (readyKey q) (zadd p i (zset_at d (readyKey q)))"

definition put_delayed :: "string \<Rightarrow> int \<Rightarrow> string \<Rightarrow> dataset \<Rightarrow> dataset" where
  "put_delayed q t i d = store_zset d (delayedKey q) (zadd t i (zset_at d (delayedKey q)))"

definition put_lease :: "string \<Rightarrow> int \<Rightarrow> string \<Rightarrow> dataset \<Rightarrow> dataset" where
  "put_lease q t i d = store_zset d (leaseKey q) (zadd t i (zset_at d (leaseKey q)))"

definition add_active :: "string \<Rightarrow> string \<Rightarrow> dataset \<Rightarrow> dataset" where
  "add_active q i d =
     (if i \<in> set (set_at d (activeKey q)) then d else store_set d (activeKey q) (set_at d (activeKey q) @ [i]))"

definition add_worker :: "string \<Rightarrow> string \<Rightarrow> dataset \<Rightarrow> dataset" where
  "add_worker w i d =
     (if i \<in> set (set_at d (workerJobsKey w)) then d
      else store_set d (workerJobsKey w) (set_at d (workerJobsKey w) @ [i]))"

definition push_dead :: "string \<Rightarrow> string \<Rightarrow> dataset \<Rightarrow> dataset" where
  "push_dead q i d = store_list d (deadKey q) (i # list_at d (deadKey q))"

definition rem_dead :: "string \<Rightarrow> string \<Rightarrow> dataset \<Rightarrow> dataset" where
  "rem_dead q i d = store_list d (deadKey q) (remove1 i (list_at d (deadKey q)))"

definition write_job :: "string \<Rightarrow> (string \<times> string) list \<Rightarrow> dataset \<Rightarrow> dataset" where
  "write_job i fs d = store_hash d (jobKey i) (hash_set fs (hash_at d (jobKey i)))"

definition bump_stat :: "string \<Rightarrow> string \<Rightarrow> dataset \<Rightarrow> dataset" where
  "bump_stat q f d =
     store_hash d (statsKey q) (hash_set [(f, itoa (the (hash_int (hash_at d (statsKey q)) f) + 1))]
       (hash_at d (statsKey q)))"

definition drop_lock :: "string \<Rightarrow> string \<Rightarrow> dataset \<Rightarrow> dataset" where
  "drop_lock u i d = (if u \<noteq> '''' \<and> str_at d u = Some i then del d u else d)"

definition take_lock :: "string \<Rightarrow> string \<Rightarrow> int \<Rightarrow> dataset \<Rightarrow> dataset" where
  "take_lock u i secs d = put_ttl d u (RString i) (Some (clock d + 1000 * secs))"

lemmas move_defs = leave_active_def rem_active_def rem_lease_def rem_ready_def rem_delayed_def
  put_ready_def put_delayed_def put_lease_def add_active_def add_worker_def push_dead_def
  rem_dead_def write_job_def bump_stat_def

lemma shape_moves [simp]:
  assumes "shape d"
  shows "wf_queue q \<Longrightarrow> shape (leave_active q w i d)" "wf_queue q \<Longrightarrow> shape (rem_active q i d)"
    "wf_queue q \<Longrightarrow> shape (rem_lease q i d)" "wf_queue q \<Longrightarrow> shape (rem_ready q i d)"
    "wf_queue q \<Longrightarrow> shape (rem_delayed q i d)"
    "wf_queue q \<Longrightarrow> wf_id i \<Longrightarrow> shape (put_ready q p i d)"
    "wf_queue q \<Longrightarrow> wf_id i \<Longrightarrow> shape (put_delayed q t i d)"
    "wf_queue q \<Longrightarrow> wf_id i \<Longrightarrow> shape (put_lease q t i d)"
    "wf_queue q \<Longrightarrow> wf_id i \<Longrightarrow> shape (add_active q i d)"
    "shape (add_worker w i d)"
    "wf_queue q \<Longrightarrow> wf_id i \<Longrightarrow> shape (push_dead q i d)"
    "wf_queue q \<Longrightarrow> shape (rem_dead q i d)"
    "wf_id i \<Longrightarrow> shape (write_job i fs d)" "wf_queue q \<Longrightarrow> shape (bump_stat q f d)"
    "unique_ok u \<Longrightarrow> shape (drop_lock u i d)" "shape (take_lock (uniqueKey k) i secs d)"
  using assms by (auto simp: move_defs drop_lock_def take_lock_def unique_ok_def)

lemma jview_moves_queue [view_simps]:
  assumes "wf_queue q"
  shows "jview_of (leave_active q w i d) j =
      (if j = i then (jview_of d j)\<lparr>jv_active := (jv_active (jview_of d j))(q := False),
          jv_lease := (jv_lease (jview_of d j))(q := None)\<rparr> else jview_of d j)"
    "jview_of (rem_active q i d) j =
      (if j = i then (jview_of d j)\<lparr>jv_active := (jv_active (jview_of d j))(q := False)\<rparr> else jview_of d j)"
    "jview_of (rem_lease q i d) j =
      (if j = i then (jview_of d j)\<lparr>jv_lease := (jv_lease (jview_of d j))(q := None)\<rparr> else jview_of d j)"
    "jview_of (rem_ready q i d) j =
      (if j = i then (jview_of d j)\<lparr>jv_ready := (jv_ready (jview_of d j))(q := None)\<rparr> else jview_of d j)"
    "jview_of (rem_delayed q i d) j =
      (if j = i then (jview_of d j)\<lparr>jv_delayed := (jv_delayed (jview_of d j))(q := None)\<rparr> else jview_of d j)"
    "jview_of (put_ready q s i d) j =
      (if j = i then (jview_of d j)\<lparr>jv_ready := (jv_ready (jview_of d j))(q := Some s)\<rparr> else jview_of d j)"
    "jview_of (put_delayed q s i d) j =
      (if j = i then (jview_of d j)\<lparr>jv_delayed := (jv_delayed (jview_of d j))(q := Some s)\<rparr> else jview_of d j)"
    "jview_of (put_lease q s i d) j =
      (if j = i then (jview_of d j)\<lparr>jv_lease := (jv_lease (jview_of d j))(q := Some s)\<rparr> else jview_of d j)"
    "jview_of (add_active q i d) j =
      (if j = i then (jview_of d j)\<lparr>jv_active := (jv_active (jview_of d j))(q := True)\<rparr> else jview_of d j)"
    "jview_of (push_dead q i d) j =
      (if j = i then (jview_of d j)\<lparr>jv_dead := (jv_dead (jview_of d j))(q := jv_dead (jview_of d j) q + 1)\<rparr>
       else jview_of d j)"
    "jview_of (rem_dead q i d) j =
      (if j = i then (jview_of d j)\<lparr>jv_dead := (jv_dead (jview_of d j))(q := jv_dead (jview_of d j) q - 1)\<rparr>
       else jview_of d j)"
    "jview_of (bump_stat q f d) j = jview_of d j"
  using assms
  by (auto simp: move_defs view_simps jview_of_sel(2-) [symmetric] count_list_remove1
      intro!: jview.equality fun_upd_idem [symmetric])

lemma jview_moves_job [view_simps]:
  "jview_of (write_job i fs d) j =
     (if j = i then (jview_of d j)\<lparr>jv_hash := jv_hash (jview_of d j) ++ map_of (rev fs)\<rparr> else jview_of d j)"
  "jview_of (add_worker w i d) j = jview_of d j"
  "unique_ok u \<Longrightarrow> jview_of (drop_lock u i d) j = jview_of d j"
  "jview_of (take_lock (uniqueKey k) i secs d) j = jview_of d j"
  by (auto simp: move_defs drop_lock_def take_lock_def unique_ok_def view_simps jview_of_sel)

section \<open>Scripts run through the moves\<close>

lemma run_leave_active:
  assumes "shape d" and "wf_queue q"
  shows "call redis_doc (SREM (activeKey q) i) (\<lambda>_.
     call redis_doc (SREM (workerJobsKey w) i) (\<lambda>_.
     call redis_doc (ZREM (leaseKey q) i) (\<lambda>_. k))) d = k (leave_active q w i d)"
  using assms by (simp add: redis_run leave_active_def key_simps)

lemma run_moves:
  assumes "shape d" and "wf_queue q"
  shows "call redis_doc (SREM (activeKey q) i) f d =
      f (RInt (if jv_active (jview_of d i) q then 1 else 0)) (rem_active q i d)"
    "call redis_doc (ZREM (leaseKey q) i) (\<lambda>_. k) d = k (rem_lease q i d)"
    "call redis_doc (ZREM (delayedKey q) i) (\<lambda>_. k) d = k (rem_delayed q i d)"
    "call redis_doc (ZADD (readyKey q) p i) (\<lambda>_. k) d = k (put_ready q p i d)"
    "call redis_doc (ZADD (delayedKey q) p i) (\<lambda>_. k) d = k (put_delayed q p i d)"
    "call redis_doc (ZADD (leaseKey q) p i) (\<lambda>_. k) d = k (put_lease q p i d)"
    "call redis_doc (SADD (activeKey q) i) (\<lambda>_. k) d = k (add_active q i d)"
    "call redis_doc (LPUSH (deadKey q) i) (\<lambda>_. k) d = k (push_dead q i d)"
    "call redis_doc (LREM_1 (deadKey q) i) f d =
      f (RInt (if jv_dead (jview_of d i) q = 0 then 0 else 1)) (rem_dead q i d)"
  using assms by (simp_all add: redis_run move_defs jview_of_sel count_list_0_iff)

lemma run_add_worker:
  "shape d \<Longrightarrow> call redis_doc (SADD (workerJobsKey w) i) (\<lambda>_. k) d = k (add_worker w i d)"
  by (simp add: redis_run add_worker_def)

lemma run_bump_stat:
  assumes "shape d" and "wf_queue q"
  shows "call redis_doc (HINCRBY (statsKey q) f 1) (\<lambda>_. k) d = k (bump_stat q f d)"
proof -
  from assms have "counters_ok (hash_at d (statsKey q))" by simp
  then obtain n where "hash_int (hash_at d (statsKey q)) f = Some n" by (rule counters_okE)
  with assms show ?thesis by (simp add: redis_run bump_stat_def)
qed

lemma run_job_hash:
  assumes "shape d" and "wf_id i"
  shows "call redis_doc (HSET (jobKey i) fs) (\<lambda>_. k) d = k (write_job i fs d)"
    "call redis_doc (HGET (jobKey i) f) g d =
       g (case jv_hash (jview_of d i) f of None \<Rightarrow> RNil | Some v \<Rightarrow> RBulk v) d"
    "jv_hash (jview_of d i) f = Some (itoa n) \<Longrightarrow>
       call redis_doc (HINCRBY (jobKey i) f 1) g d = g (RInt (n + 1)) (write_job i [(f, itoa (n + 1))] d)"
  using assms by (simp_all add: redis_run write_job_def jview_of_sel hash_int_def)

lemma run_release_unique:
  assumes "shape d" and "wf_id i" and "jv_hash (jview_of d i) ''unique_key'' = Some u" and "unique_ok u"
  shows "release_unique redis_doc (jobKey i) i k d = k (drop_lock u i d)"
  using assms
  by (auto simp: release_unique_def redis_run unique_ok_def drop_lock_def jview_of_sel split: option.splits)

lemmas run_parts = run_leave_active run_moves run_add_worker run_bump_stat run_job_hash ret_def

text \<open>What is known of a job the abstract queue has.\<close>

lemma refines_jobE:
  assumes "refines d m" and "m i = Some a"
  obtains h where "jview_of d i = place h (aj_queue a) (aj_prio a) (aj_loc a)" "hash_of h i a"
    "wf_id i" "wf_queue (aj_queue a)" "unique_ok (aj_unique a)" "shape d"
    "aj_state a \<in> set (states_of (aj_loc a))"
  using refinesD [OF assms] assms(1) by (auto elim!: representsE)

lemmas rep_simps = shows_job_def represents_def place_def hash_of_def map_add_def

section \<open>Ack, cancel, reschedule, nack\<close>

definition after_ack :: "string \<Rightarrow> string \<Rightarrow> string \<Rightarrow> string \<Rightarrow> string \<Rightarrow> dataset \<Rightarrow> dataset" where
  "after_ack q i w now u d =
     drop_lock u i (bump_stat q ''completed''
       (write_job i [(''state'', ''completed''), (''completed_at'', now)] (leave_active q w i d)))"

lemma run_ackScript:
  assumes "shape d" "wf_queue q" "wf_id i" "jv_hash (jview_of d i) ''unique_key'' = Some u" "unique_ok u"
  shows "ackScript redis_doc (jobKey i) (activeKey q) (statsKey q) (workerJobsKey w) (leaseKey q) i now d =
     (Inr (RInt 1), after_ack q i w now u d)"
  using assms by (simp add: ackScript_def run_parts after_ack_def run_release_unique [where u = u] view_simps map_add_def)

lemma Ack_refines:
  assumes "refines d m" "m i = Some a" "aj_queue a = q" "aj_loc a = Active t"
  shows "\<exists>d'. Ack redis_doc NoFault now q i w d = (Inr (), d') \<and> refines d' (upd i to_completed m)"
proof -
  obtain h where v: "jview_of d i = place h q (aj_prio a) (Active t)" and h: "hash_of h i a"
    and wf: "wf_id i" "wf_queue q" "unique_ok (aj_unique a)" "shape d"
    using refines_jobE [OF assms(1,2)] assms(3,4) by auto
  let ?d = "after_ack q i w (itoa now) (aj_unique a) d"
  have "Ack redis_doc NoFault now q i w d = (Inr (), ?d)"
    using v h wf run_ackScript [OF wf(4,2,1)] by (simp add: Ack_def go_result_def place_def hash_of_def)
  moreover have "refines ?d (m(i := Some (to_completed a)))"
    using v h wf assms(3)
    by (intro refines_step [OF assms(1)]) (simp_all add: after_ack_def view_simps to_completed_def rep_simps)
  ultimately show ?thesis using assms(2) by (simp add: upd_def)
qed

definition after_cancel :: "string \<Rightarrow> string \<Rightarrow> string \<Rightarrow> string \<Rightarrow> string \<Rightarrow> string \<Rightarrow> dataset \<Rightarrow> dataset" where
  "after_cancel q i w now reason u d =
     drop_lock u i (write_job i [(''state'', ''cancelled''), (''completed_at'', now), (''last_error'', reason)]
       (leave_active q w i d))"

lemma CancelJob_refines:
  assumes "refines d m" "m i = Some a" "aj_queue a = q" "aj_loc a = Active t"
  shows "\<exists>d'. CancelJob redis_doc NoFault now q i w reason d = (Inr (), d') \<and> refines d' (upd i to_cancelled m)"
proof -
  obtain h where v: "jview_of d i = place h q (aj_prio a) (Active t)" and h: "hash_of h i a"
    and wf: "wf_id i" "wf_queue q" "unique_ok (aj_unique a)" "shape d"
    using refines_jobE [OF assms(1,2)] assms(3,4) by auto
  let ?d = "after_cancel q i w (itoa now) reason (aj_unique a) d"
  have "CancelJob redis_doc NoFault now q i w reason d = (Inr (), ?d)"
    using v h wf
    by (simp add: CancelJob_def go_result_def cancelScript_def run_parts after_cancel_def
        run_release_unique [where u = "aj_unique a"] view_simps map_add_def place_def hash_of_def)
  moreover have "refines ?d (m(i := Some (to_cancelled a)))"
    using v h wf assms(3)
    by (intro refines_step [OF assms(1)]) (simp_all add: after_cancel_def view_simps to_cancelled_def rep_simps)
  ultimately show ?thesis using assms(2) by (simp add: upd_def)
qed

definition after_reschedule :: "string \<Rightarrow> string \<Rightarrow> string \<Rightarrow> int \<Rightarrow> dataset \<Rightarrow> dataset" where
  "after_reschedule q i w t d =
     write_job i [(''state'', ''pending''), (''scheduled_at'', itoa t), (''started_at'', itoa 0)]
       (put_delayed q t i (leave_active q w i d))"

lemma RescheduleJob_refines:
  assumes "refines d m" "m i = Some a" "aj_queue a = q" "aj_loc a = Active t"
  shows "\<exists>d'. RescheduleJob redis_doc NoFault q i w newTime d = (Inr (), d') \<and>
     refines d' (upd i (to_delayed (unixMilli newTime)) m)"
proof -
  obtain h where v: "jview_of d i = place h q (aj_prio a) (Active t)" and h: "hash_of h i a"
    and wf: "wf_id i" "wf_queue q" "unique_ok (aj_unique a)" "shape d"
    using refines_jobE [OF assms(1,2)] assms(3,4) by auto
  let ?d = "after_reschedule q i w (unixMilli newTime) d"
  have "RescheduleJob redis_doc NoFault q i w newTime d = (Inr (), ?d)"
    using wf by (simp add: RescheduleJob_def go_result_def rescheduleScript_def run_parts after_reschedule_def)
  moreover have "refines ?d (m(i := Some (to_delayed (unixMilli newTime) a)))"
    using v h wf assms(3)
    by (intro refines_step [OF assms(1)]) (simp_all add: after_reschedule_def view_simps to_delayed_def rep_simps)
  ultimately show ?thesis using assms(2) by (simp add: upd_def)
qed

definition nack_common :: "string \<Rightarrow> string \<Rightarrow> string \<Rightarrow> string \<Rightarrow> int \<Rightarrow> dataset \<Rightarrow> dataset" where
  "nack_common q i w err n d =
     bump_stat q ''failed'' (write_job i [(''last_error'', err)]
       (write_job i [(''attempt'', itoa n)] (leave_active q w i d)))"

definition after_nack :: "string \<Rightarrow> string \<Rightarrow> string \<Rightarrow> string \<Rightarrow> int \<Rightarrow> bool \<Rightarrow> ajob \<Rightarrow> dataset \<Rightarrow> dataset" where
  "after_nack q i w err t skip a d =
     (let d1 = nack_common q i w err (aj_attempt a + 1) d
      in if exhausted skip a
         then drop_lock (aj_unique a) i (bump_stat q ''dead_total'' (write_job i [(''state'', ''dead'')] (push_dead q i d1)))
         else write_job i [(''state'', ''retry'')] (put_delayed q t i d1))"

lemma run_nackScript:
  assumes "refines d m" "m i = Some a" "aj_queue a = q"
  shows "nackScript redis_doc (jobKey i) (activeKey q) (delayedKey q) (deadKey q) (statsKey q)
      (workerJobsKey w) (leaseKey q) i err backoff now (if skip then 1 else 0) d =
    (Inr (RBulk (if exhausted skip a then ''dead'' else ''retry'')),
     after_nack q i w err (now + backoff) skip a d)"
proof -
  obtain h where v: "jview_of d i = place h q (aj_prio a) (aj_loc a)" and h: "hash_of h i a"
    and wf: "wf_id i" "wf_queue q" "unique_ok (aj_unique a)" "shape d"
    using refines_jobE [OF assms(1,2)] assms(3) by auto
  have att: "jv_hash (jview_of (leave_active q w i d) i) ''attempt'' = Some (itoa (aj_attempt a))"
    and mx: "jv_hash (jview_of d i) ''max_retries'' = Some (itoa (aj_max a))"
    and uk: "jv_hash (jview_of d i) ''unique_key'' = Some (aj_unique a)"
    using v h wf by (simp_all add: view_simps place_def hash_of_def)
  show ?thesis
    using wf uk mx
    by (auto simp: nackScript_def run_parts run_job_hash(3) [OF _ _ att] view_simps map_add_def
        run_release_unique [where u = "aj_unique a"] after_nack_def nack_common_def exhausted_def Let_def)
qed

lemma Nack_refines:
  assumes "refines d m" "m i = Some a" "aj_queue a = q" "aj_loc a = Active t"
  shows "\<exists>d'. Nack redis_doc NoFault now q i w err backoff skip d =
      (Inr (if exhausted skip a then ''dead'' else ''retry''), d') \<and>
    refines d' (upd i (to_failed skip (now + backoff)) m)"
proof -
  obtain h where v: "jview_of d i = place h q (aj_prio a) (Active t)" and h: "hash_of h i a"
    and wf: "wf_id i" "wf_queue q" "unique_ok (aj_unique a)" "shape d"
    using refines_jobE [OF assms(1,2)] assms(3,4) by auto
  let ?d = "after_nack q i w err (now + backoff) skip a d"
  have "Nack redis_doc NoFault now q i w err backoff skip d =
      (Inr (if exhausted skip a then ''dead'' else ''retry''), ?d)"
    using run_nackScript [OF assms(1-3)] by (simp add: Nack_def go_result_def)
  moreover have "refines ?d (m(i := Some (to_failed skip (now + backoff) a)))"
    using v h wf assms(3)
    by (intro refines_step [OF assms(1)])
      (simp_all add: after_nack_def nack_common_def Let_def view_simps to_failed_def rep_simps)
  ultimately show ?thesis using assms(2) by (simp add: upd_def)
qed

end
