(* ===== verification/Queue_Flow.thy ===== *)
theory Queue_Flow
  imports Queue_Refine
begin

text \<open>
  Entering and leaving the ready set: \<open>Enqueue\<close> with its unique lock, \<open>Dequeue\<close> with the record
  it hands to the worker, \<open>ExtendLease\<close>, \<open>RetryDead\<close>, and the operations that touch no job.
\<close>

section \<open>Enqueue\<close>

text \<open>The unique key a call to \<open>Enqueue\<close> uses, and whether it takes the lock.\<close>

definition lock_key :: "string \<Rightarrow> int \<Rightarrow> string" where
  "lock_key uniqKey period = (if uniqKey \<noteq> '''' \<and> period > 0 then uniqueKey uniqKey else '''')"

definition takes_lock :: "string \<Rightarrow> int \<Rightarrow> bool" where
  "takes_lock uniqKey period \<longleftrightarrow> uniqKey \<noteq> '''' \<and> period \<ge> 1000000000"

definition job_fields :: "JobRecord \<Rightarrow> string \<Rightarrow> (string \<times> string) list" where
  "job_fields job uk =
     [(''id'', ID job), (''kind'', Kind job), (''queue'', Queue job), (''priority'', itoa (Priority job)),
      (''state'', State job), (''payload'', Payload job), (''attempt'', itoa 0),
      (''max_retries'', itoa (MaxRetries job)), (''created_at'', itoa (CreatedAt job)),
      (''scheduled_at'', itoa (ScheduledAt job)), (''started_at'', itoa 0), (''completed_at'', itoa 0),
      (''last_error'', ''''), (''unique_key'', uk), (''workflow_id'', WorkflowID job)]"

definition insert_job :: "JobRecord \<Rightarrow> string \<Rightarrow> dataset \<Rightarrow> dataset" where
  "insert_job job uk d =
     bump_stat (Queue job) ''enqueued''
       ((if ScheduledAt job > 0 then put_delayed (Queue job) (ScheduledAt job) (ID job)
         else put_ready (Queue job) (Priority job) (ID job))
        (write_job (ID job) (job_fields job uk) d))"

definition after_enqueue :: "JobRecord \<Rightarrow> string \<Rightarrow> int \<Rightarrow> dataset \<Rightarrow> dataset" where
  "after_enqueue job uniqKey period d =
     insert_job job (lock_key uniqKey period)
       (if takes_lock uniqKey period then take_lock (uniqueKey uniqKey) (ID job) (seconds period) d else d)"

text \<open>The fraction of a second as a double stays below 1.\<close>

lemma nanos_double:
  assumes "0 \<le> n" "n < 1000000000"
  shows "0 \<le> round64 (of_int n / 1000000000)"
    "round64 (of_int n / 1000000000) \<le> 1 - 1 / 1000000000 + eps + tiny"
proof -
  let ?x = "of_int n / 1000000000 :: rat"
  have x: "0 \<le> ?x" "?x \<le> 1 - 1 / 1000000000"
  proof -
    have "of_int n \<le> (of_int 999999999 :: rat)" unfolding of_int_le_iff using assms(2) by simp
    then show "?x \<le> 1 - 1 / 1000000000" by simp
  qed (use assms(1) in simp)
  show "0 \<le> round64 ?x" using x(1) by (rule round64_nonneg)
  have "?x * eps \<le> eps" using x eps_bounds(1) by (intro mult_left_le_one_le) simp_all
  then show "round64 ?x \<le> 1 - 1 / 1000000000 + eps + tiny" using round64_error [of ?x] x by (simp add: abs_le_iff)
qed

lemma double_margin: "eps + tiny < 1 / 10 ^ 15"
  using tiny_small unfolding eps_def by simp

lemma seconds_nonneg:
  assumes "0 \<le> d"
  shows "seconds d = \<lfloor>round64 (of_int (d div 1000000000) + round64 (of_int (d mod 1000000000) / 1000000000))\<rfloor>"
proof -
  have n: "d - d div 1000000000 * 1000000000 = d mod 1000000000" by (simp add: minus_div_mult_eq_mod)
  have "0 \<le> d div 1000000000" using assms by (simp add: pos_imp_zdiv_nonneg_iff)
  then have "0 \<le> (of_int (d div 1000000000) :: rat) + round64 (of_int (d mod 1000000000) / 1000000000)"
    using nanos_double(1) [of "d mod 1000000000"] by simp
  from round64_nonneg [OF this] show ?thesis using assms by (simp add: seconds_def whole_seconds_def n)
qed

lemma seconds_pos: "seconds p > 0 \<longleftrightarrow> p \<ge> 1000000000"
proof -
  consider "p < 0" | "0 \<le> p" "p < 1000000000" | "1000000000 \<le> p" by linarith
  then show ?thesis
  proof cases
    case 1
    let ?s = "whole_seconds p"
    have s: "?s \<le> 0" "p - ?s * 1000000000 \<le> 0"
      using 1 pos_imp_zdiv_nonneg_iff [of 1000000000 "- p"] minus_div_mult_eq_mod [of "- p" 1000000000]
        pos_mod_sign [of 1000000000 "- p"] by (simp_all add: whole_seconds_def)
    have le: "round64 (of_int (p - ?s * 1000000000) / 1000000000) \<le> 0"
      using round64_mono [of "of_int (p - ?s * 1000000000) / 1000000000" 0] s(2)
      by (simp only: round64_0 divide_le_0_iff of_int_le_0_iff) simp
    have "(of_int ?s :: rat) \<le> 0" using s(1) by simp
    then have "round64 (of_int ?s + round64 (of_int (p - ?s * 1000000000) / 1000000000)) \<le> 0"
      using round64_mono [of "of_int ?s + round64 (of_int (p - ?s * 1000000000) / 1000000000)" 0] le by (simp only: round64_0)
    then have "seconds p \<le> 0" unfolding seconds_def Let_def by (simp add: ceiling_le_iff floor_le_iff)
    then show ?thesis using 1 by simp
  next
    case 2
    have "round64 (of_int p / 1000000000) < 1"
      using nanos_double(2) [OF 2] double_margin by simp
    then have "\<lfloor>round64 (of_int p / 1000000000)\<rfloor> \<le> 0" by (simp add: floor_le_iff)
    then show ?thesis using 2 by (simp add: seconds_nonneg round64_idem)
  next
    case 3
    have "1 \<le> p div 1000000000" using 3 by (simp add: pos_imp_zdiv_pos_iff int_one_le_iff_zero_less)
    then have "(1 :: rat) \<le> of_int (p div 1000000000)" by simp
    then have "1 \<le> of_int (p div 1000000000) + round64 (of_int (p mod 1000000000) / 1000000000)"
      using nanos_double(1) [of "p mod 1000000000"] by (simp add: add_increasing2)
    from round64_mono [OF this] have "1 \<le> round64 (of_int (p div 1000000000) + round64 (of_int (p mod 1000000000) / 1000000000))"
      using round64_int [of 1] by simp
    then have "1 \<le> seconds p" using 3 by (simp add: seconds_nonneg le_floor_iff)
    then show ?thesis using 3 by simp
  qed
qed

text \<open>Below 97 days the doubles are fine enough for the truncation to be exact.\<close>

lemma seconds_exact:
  assumes "0 \<le> d" "d < 2 ^ 23 * 1000000000"
  shows "seconds d = d div 1000000000"
proof -
  let ?s = "d div 1000000000" and ?x = "round64 (of_int (d mod 1000000000) / 1000000000) :: rat"
  have s: "0 \<le> ?s" "?s + 1 \<le> 2 ^ 23" using assms by (simp_all add: pos_imp_zdiv_nonneg_iff div_less_iff_less_mult)
  have x: "0 \<le> ?x" "?x \<le> 1 - 1 / 1000000000 + eps + tiny"
    using nanos_double [of "d mod 1000000000"] by simp_all
  have "of_int (?s + 1) \<le> (of_int (2 ^ 23) :: rat)" unfolding of_int_le_iff by (rule s(2))
  then have r: "of_int ?s + 1 \<le> (2 ^ 23 :: rat)" by simp
  have "of_int ?s \<le> round64 (of_int ?s + ?x)"
    using round64_mono [of "of_int ?s" "of_int ?s + ?x"] round64_int [of ?s] s x(1) by simp
  moreover have "round64 (of_int ?s + ?x) < of_int ?s + 1"
  proof -
    have y: "0 \<le> of_int ?s + ?x" "of_int ?s + ?x \<le> 2 ^ 23" using s(1) x r double_margin by simp_all
    have "(of_int ?s + ?x) * eps \<le> 2 ^ 23 * eps" using y(2) eps_bounds(1) by (intro mult_right_mono) simp_all
    then have "round64 (of_int ?s + ?x) \<le> of_int ?s + ?x + 2 ^ 23 * eps + tiny"
      using round64_error [of "of_int ?s + ?x"] y(1) by (simp add: abs_le_iff)
    moreover have "2 ^ 23 * eps + tiny + eps + tiny < (1 / 1000000000 :: rat)"
      using double_margin tiny_small unfolding eps_def by simp
    ultimately show ?thesis using x(2) by simp
  qed
  ultimately have "\<lfloor>round64 (of_int ?s + ?x)\<rfloor> = ?s" by (simp add: floor_eq_iff)
  then show ?thesis using seconds_nonneg [OF assms(1)] by simp
qed

lemma is_duplicate_self [simp]: "is_duplicate ''DUPLICATE''"
  by (simp add: is_duplicate_def)

lemma run_enqueue_plain:
  assumes "shape d" "wf_id (ID job)" "wf_queue (Queue job)" "u = '''' \<or> ttl \<le> 0"
  shows "enqueue_call redis_doc job u ttl d = (Inr (RBulk (ID job)), insert_job job u d)"
  using assms
  by (auto simp: enqueue_call_def enqueueScript_def run_parts insert_job_def job_fields_def)

lemma run_enqueue_locked:
  assumes "shape d" "wf_id (ID job)" "wf_queue (Queue job)" "ttl > 0" "lookup d (uniqueKey k) = None"
  shows "enqueue_call redis_doc job (uniqueKey k) ttl d =
    (Inr (RBulk (ID job)), insert_job job (uniqueKey k) (take_lock (uniqueKey k) (ID job) ttl d))"
  using assms
  by (auto simp: enqueue_call_def enqueueScript_def call_SET_NX_EX take_lock_def [symmetric] run_parts
      insert_job_def job_fields_def)

lemma run_Enqueue:
  assumes "shape d" "wf_id (ID job)" "wf_queue (Queue job)"
    and "takes_lock uniqKey period \<Longrightarrow> lookup d (uniqueKey uniqKey) = None"
  shows "Enqueue redis_doc NoFault job uniqKey period d = (Inr (), after_enqueue job uniqKey period d)"
proof (cases "takes_lock uniqKey period")
  case True
  then have "uniqKey \<noteq> ''''" "0 < period" "0 < seconds period"
    by (auto simp: takes_lock_def seconds_pos)
  with True assms run_enqueue_locked [OF assms(1-3), of "seconds period" uniqKey] show ?thesis
    by (simp add: Enqueue_def go_result_def after_enqueue_def lock_key_def)
next
  case False
  let ?u = "lock_key uniqKey period"
  let ?t = "if uniqKey \<noteq> '''' \<and> period > 0 then seconds period else 0"
  have "?u = '''' \<or> ?t \<le> 0"
    using False seconds_pos [of period] by (auto simp: takes_lock_def lock_key_def)
  with run_enqueue_plain [OF assms(1-3)] False show ?thesis
    by (auto simp: Enqueue_def go_result_def after_enqueue_def lock_key_def)
qed

lemma run_Enqueue_duplicate:
  assumes "takes_lock uniqKey period" "lookup d (uniqueKey uniqKey) \<noteq> None"
  shows "Enqueue redis_doc NoFault job uniqKey period d = (Inl ErrDuplicate, d)"
proof -
  from assms(1) have "uniqKey \<noteq> ''''" "0 < period" "0 < seconds period"
    by (auto simp: takes_lock_def seconds_pos)
  moreover obtain v where "lookup d (uniqueKey uniqKey) = Some v" using assms(2) by blast
  ultimately show ?thesis
    by (simp add: Enqueue_def go_result_def enqueue_call_def enqueueScript_def call_SET_NX_EX raise_def Let_def)
qed

lemma unique_ok_lock_key [simp]: "unique_ok (lock_key u p)"
  by (auto simp: unique_ok_def lock_key_def)

lemma Enqueue_refines:
  assumes "refines d m" "wf_id (ID job)" "wf_queue (Queue job)" "m (ID job) = None" "State job = ''pending''"
    and "takes_lock uniqKey period \<Longrightarrow> lookup d (uniqueKey uniqKey) = None"
  shows "\<exists>d'. Enqueue redis_doc NoFault job uniqKey period d = (Inr (), d') \<and>
     refines d' (m(ID job \<mapsto> new_job job (lock_key uniqKey period)))"
proof -
  have v: "jview_of d (ID job) = absent" and sh: "shape d"
    using refines_absent [OF assms(1,2,4)] assms(1) by simp_all
  have "Enqueue redis_doc NoFault job uniqKey period d = (Inr (), after_enqueue job uniqKey period d)"
    using assms sh by (intro run_Enqueue) auto
  moreover have "refines (after_enqueue job uniqKey period d) (m(ID job \<mapsto> new_job job (lock_key uniqKey period)))"
    using v sh assms(2,3,5)
    by (intro refines_step [OF assms(1)])
      (auto simp: after_enqueue_def insert_job_def view_simps job_fields_def new_job_def absent_def rep_simps)
  ultimately show ?thesis by blast
qed

section \<open>Dequeue\<close>

text \<open>The record handed to the worker is the stored job, now active.\<close>

definition describes :: "JobRecord \<Rightarrow> string \<Rightarrow> ajob \<Rightarrow> bool" where
  "describes rec i a \<longleftrightarrow>
     ID rec = i \<and> Kind rec = aj_kind a \<and> Queue rec = aj_queue a \<and> Priority rec = aj_prio a \<and>
     State rec = aj_state a \<and> Payload rec = aj_payload a \<and> Attempt rec = aj_attempt a \<and>
     MaxRetries rec = aj_max a \<and> UniqueKey rec = aj_unique a \<and> WorkflowID rec = aj_workflow a"

definition int64_job :: "ajob \<Rightarrow> bool" where
  "int64_job a \<longleftrightarrow> int64 (aj_prio a) \<and> int64 (aj_max a) \<and> int64 (aj_attempt a)"

lemma field_pairs_concat [simp]: "field_pairs (concat (map (\<lambda>(f, v). [f, v]) h)) = h"
  by (induction h) auto

lemma map_of_rev_distinct: "distinct (map fst h) \<Longrightarrow> map_of (rev h) = map_of h"
  by (simp add: map_of_inject_set rev_map [symmetric])

lemma parse_stored:
  assumes "distinct (map fst h)"
  shows "parseJobRecord (concat (map (\<lambda>(f, v). [f, v]) h)) = parseJobRecordFromMap (map_of h)"
  using assms by (simp add: parseJobRecord_def map_of_rev_distinct)

lemma hash_of_describes:
  "hash_of h i a \<Longrightarrow> int64_job a \<Longrightarrow> describes (parseJobRecordFromMap h) i a"
  by (simp add: hash_of_def int64_job_def describes_def parseJobRecordFromMap_def mget_def)

definition after_dequeue :: "string \<Rightarrow> string \<Rightarrow> string \<Rightarrow> int \<Rightarrow> dataset \<Rightarrow> dataset" where
  "after_dequeue q w i now d =
     put_lease q (now + 30000) i (add_worker w i
       (write_job i [(''state'', ''active''), (''started_at'', itoa now)] (add_active q i (rem_ready q i d))))"

lemma run_Dequeue_paused:
  assumes "lookup d (pausedKey q) \<noteq> None"
  shows "Dequeue redis_doc NoFault now q w d = (Inr None, d)"
  using assms by (auto simp: Dequeue_def go_result_def dequeueScript_def call_EXISTS ret_def)

lemma run_Dequeue_empty:
  assumes "shape d" "wf_queue q" "lookup d (pausedKey q) = None" "zset_at d (readyKey q) = []"
  shows "Dequeue redis_doc NoFault now q w d = (Inr None, d)"
  using assms by (simp add: Dequeue_def go_result_def dequeueScript_def call_EXISTS call_ZPOPMIN ret_def)

lemma zrem_head: "zgood ((p, i) # z) \<Longrightarrow> zrem i ((p, i) # z) = z"
  using zgood_Cons [of p i z] by (simp add: zrem_def filter_neq_id)

lemma run_Dequeue_pop:
  assumes "shape d" "wf_queue q" "lookup d (pausedKey q) = None" "zset_at d (readyKey q) = (p, i) # z"
  shows "Dequeue redis_doc NoFault now q w d =
    (Inr (Some (parseJobRecordFromMap (jv_hash (jview_of (after_dequeue q w i now d) i)))),
     after_dequeue q w i now d)"
proof -
  let ?d = "after_dequeue q w i now d"
  have good: "zgood ((p, i) # z)" using shapeD(2) [OF assms(1,2)] assms(4) by simp
  then have wi: "wf_id i" by (auto dest: zgood_Cons)
  have pop: "store_zset d (readyKey q) z = rem_ready q i d"
    using zrem_head [OF good] assms(4) by (simp add: rem_ready_def)
  have sh: "shape ?d" using assms(1,2) wi by (simp add: after_dequeue_def)
  have ne: "hash_at ?d (jobKey i) \<noteq> []"
    using assms(2) by (simp add: after_dequeue_def move_defs key_simps)
  then obtain f v h where hc: "hash_at ?d (jobKey i) = (f, v) # h" by (cases "hash_at ?d (jobKey i)") auto
  have "dequeueScript redis_doc (readyKey q) (activeKey q) (pausedKey q) (workerJobsKey w) (leaseKey q) now 30000 d =
     (Inr (RArr (concat (map (\<lambda>(f, v). [f, v]) (hash_at ?d (jobKey i))))), ?d)"
    using assms wi sh
    by (simp add: dequeueScript_def call_EXISTS call_ZPOPMIN pop run_parts call_HGETALL after_dequeue_def)
  moreover have "parseJobRecord (concat (map (\<lambda>(f, v). [f, v]) (hash_at ?d (jobKey i)))) =
      parseJobRecordFromMap (jv_hash (jview_of ?d i))"
    using sh wi by (simp add: parse_stored jview_of_sel)
  ultimately show ?thesis
    by (simp add: Dequeue_def go_result_def DefaultLeaseDuration_def hc)
qed

lemma is_next_head:
  assumes "refines d m" "wf_queue q" "is_next m q i" "m i = Some a"
  shows "\<exists>z. zset_at d (readyKey q) = (aj_prio a, i) # z"
proof -
  from assms(3,4) have a: "aj_queue a = q" "aj_loc a = Ready"
    and least: "\<And>j b. m j = Some b \<Longrightarrow> aj_queue b = q \<Longrightarrow> aj_loc b = Ready \<Longrightarrow> (aj_prio a, i) \<le> (aj_prio b, j)"
    by (auto simp: is_next_def)
  have wi: "wf_id i" using refines_wf [OF assms(1,4)] by simp
  have sc: "zscore (zset_at d (readyKey q)) i = Some (aj_prio a)"
    using refines_ready_iff [OF assms(1,2) wi] assms(4) a by auto
  then obtain p j z where z: "zset_at d (readyKey q) = (p, j) # z"
    by (cases "zset_at d (readyKey q)") auto
  have good: "zgood ((p, j) # z)" using shapeD(2) [OF refines_shape [OF assms(1)] assms(2)] z by simp
  have "zscore (zset_at d (readyKey q)) j = Some p" by (simp add: z)
  then obtain b where "m j = Some b" "aj_queue b = q" "aj_loc b = Ready" "aj_prio b = p"
    using refines_ready_iff [OF assms(1,2)] zgood_Cons [OF good] by blast
  then have "(aj_prio a, i) \<le> (p, j)"
    using least by blast
  moreover have "(p, j) \<le> (aj_prio a, i)"
    using zset_ok_min [OF zgood_zset_ok [OF good]] sc z by simp
  ultimately have "(p, j) = (aj_prio a, i)" by (rule antisym [rotated])
  with z show ?thesis by simp
qed

lemma Dequeue_refines:
  assumes "refines d m" "wf_queue q" "lookup d (pausedKey q) = None" "is_next m q i" "m i = Some a"
  shows "\<exists>rec d'. Dequeue redis_doc NoFault now q w d = (Inr (Some rec), d') \<and>
     refines d' (upd i (to_active (now + 30000)) m) \<and>
     (int64_job a \<longrightarrow> describes rec i (to_active (now + 30000) a))"
proof -
  let ?d = "after_dequeue q w i now d" and ?a = "to_active (now + 30000) a"
  from assms(4,5) have a: "aj_queue a = q" "aj_loc a = Ready" by (auto simp: is_next_def)
  obtain h where v: "jview_of d i = place h q (aj_prio a) Ready" and h: "hash_of h i a"
    and wf: "wf_id i" "wf_queue q" "unique_ok (aj_unique a)" "shape d"
    using refines_jobE [OF assms(1,5)] a by auto
  obtain z where z: "zset_at d (readyKey q) = (aj_prio a, i) # z"
    using is_next_head [OF assms(1,2,4,5)] by blast
  have ref: "refines ?d (m(i := Some ?a))"
    using v h wf a
    by (intro refines_step [OF assms(1)]) (simp_all add: after_dequeue_def view_simps to_active_def rep_simps)
  then have "hash_of (jv_hash (jview_of ?d i)) i ?a"
    using refinesD [OF ref, of i ?a] by (simp add: represents_def)
  moreover have "int64_job ?a = int64_job a" by (simp add: int64_job_def to_active_def)
  ultimately have "int64_job a \<longrightarrow> describes (parseJobRecordFromMap (jv_hash (jview_of ?d i))) i ?a"
    using hash_of_describes by blast
  with run_Dequeue_pop [OF wf(4,2) assms(3) z] ref assms(5) show ?thesis by (auto simp: upd_def)
qed

lemma Dequeue_none:
  assumes "refines d m" "wf_queue q" "\<And>i. \<not> at_loc m q i (\<lambda>l. l = Ready)"
  shows "Dequeue redis_doc NoFault now q w d = (Inr None, d)"
proof (cases "lookup d (pausedKey q)")
  case None
  have "zset_at d (readyKey q) = []"
  proof (rule ccontr)
    assume "zset_at d (readyKey q) \<noteq> []"
    then obtain p j z where z: "zset_at d (readyKey q) = (p, j) # z"
      by (cases "zset_at d (readyKey q)") auto
    then have "wf_id j" using shapeD(2) [OF refines_shape [OF assms(1)] assms(2)] by (auto dest: zgood_Cons)
    moreover have "zscore (zset_at d (readyKey q)) j = Some p" by (simp add: z)
    ultimately show False
      using refines_ready_iff [OF assms(1,2)] assms(3) [of j] by (auto simp: at_loc_def)
  qed
  with run_Dequeue_empty [OF _ assms(2) None] assms(1) show ?thesis by simp
qed (simp add: run_Dequeue_paused)

section \<open>Leases and the dead letter queue\<close>

lemma ExtendLease_refines:
  assumes "refines d m" "wf_queue q"
  shows "\<exists>d'. ExtendLease redis_doc NoFault t q i ext d = (Inr (), d') \<and>
     refines d' (if at_loc m q i (\<lambda>l. \<exists>e. l = Active e)
       then upd i (\<lambda>a. a\<lparr>aj_loc := Active (unixMilli (t + ext))\<rparr>) m else m)"
proof (cases "at_loc m q i (\<lambda>l. \<exists>e. l = Active e)")
  case True
  then obtain a e where a: "m i = Some a" "aj_queue a = q" "aj_loc a = Active e" by (auto simp: at_loc_def)
  obtain h where v: "jview_of d i = place h q (aj_prio a) (Active e)" and h: "hash_of h i a"
    and wf: "wf_id i" "wf_queue q" "unique_ok (aj_unique a)" "shape d" "aj_state a = ''active''"
    using refines_jobE [OF assms(1) a(1)] a(2,3) by auto
  let ?d = "put_lease q (unixMilli (t + ext)) i d" and ?a = "a\<lparr>aj_loc := Active (unixMilli (t + ext))\<rparr>"
  have "zscore (zset_at d (leaseKey q)) i = Some e"
    using refines_lease_iff [OF assms wf(1)] a by auto
  then have "ExtendLease redis_doc NoFault t q i ext d = (Inr (), ?d)"
    using wf by (simp add: ExtendLease_def go_result_def extendLeaseScript_def call_ZADD_XX ret_def put_lease_def)
  moreover have "refines ?d (m(i := Some ?a))"
    using v h wf a
    by (intro refines_step [OF assms(1)]) (simp_all add: view_simps rep_simps)
  ultimately show ?thesis using True a by (simp add: upd_def)
next
  case False
  have "zscore (zset_at d (leaseKey q)) i = None"
  proof (rule ccontr)
    assume "zscore (zset_at d (leaseKey q)) i \<noteq> None"
    then obtain e where e: "zscore (zset_at d (leaseKey q)) i = Some e" by auto
    then have "wf_id i" using zgood_zscore_wf shapeD(6) [OF refines_shape [OF assms(1)] assms(2)] by blast
    with e False show False using refines_lease_iff [OF assms] by (auto simp: at_loc_def)
  qed
  with assms False show ?thesis
    by (simp add: ExtendLease_def go_result_def extendLeaseScript_def call_ZADD_XX ret_def)
qed

definition after_retry :: "string \<Rightarrow> string \<Rightarrow> int \<Rightarrow> dataset \<Rightarrow> dataset" where
  "after_retry q i p d =
     bump_stat q ''retried'' (put_ready q p i
       (write_job i [(''state'', ''pending''), (''attempt'', itoa 0), (''last_error'', ''''),
          (''completed_at'', itoa 0), (''started_at'', itoa 0)] (rem_dead q i d)))"

lemma RetryDead_refines:
  assumes "refines d m" "m i = Some a" "aj_queue a = q" "aj_loc a = Dead"
  shows "\<exists>d'. RetryDead redis_doc NoFault q i d = (Inr (), d') \<and> refines d' (upd i to_retried m)"
proof -
  obtain h where v: "jview_of d i = place h q (aj_prio a) Dead" and h: "hash_of h i a"
    and wf: "wf_id i" "wf_queue q" "unique_ok (aj_unique a)" "shape d"
    using refines_jobE [OF assms(1,2)] assms(3,4) by auto
  let ?d = "after_retry q i (aj_prio a) d"
  have "RetryDead redis_doc NoFault q i d = (Inr (), ?d)"
    using v h wf
    by (simp add: RetryDead_def go_result_def retryDeadScript_def run_parts after_retry_def view_simps
        place_def hash_of_def priority_or_default_def)
  moreover have "refines ?d (m(i := Some (to_retried a)))"
    using v h wf assms(3)
    by (intro refines_step [OF assms(1)]) (simp_all add: after_retry_def view_simps to_retried_def rep_simps)
  ultimately show ?thesis using assms(2) by (simp add: upd_def)
qed

lemma RetryDead_missing:
  assumes "refines d m" "wf_queue q" "wf_id i" "\<not> at_loc m q i (\<lambda>l. l = Dead)"
  shows "\<exists>d'. RetryDead redis_doc NoFault q i d =
      (Inl (Plain (''winter: job '' @ i @ '' not found in dead queue'')), d') \<and> refines d' m"
proof -
  have c: "count_list (list_at d (deadKey q)) i = 0"
    using refines_dead_iff [OF assms(1-3)] assms(4) by (auto simp: at_loc_def)
  have "RetryDead redis_doc NoFault q i d =
      (Inl (Plain (''winter: job '' @ i @ '' not found in dead queue'')), rem_dead q i d)"
    using assms(1,2) c by (simp add: RetryDead_def go_result_def retryDeadScript_def run_parts jview_of_sel)
  moreover have "refines (rem_dead q i d) m"
    using assms(1,2) c
    by (intro refines_same [OF assms(1)]) (auto simp: view_simps jview_of_sel(6) fun_upd_idem)
  ultimately show ?thesis by blast
qed

section \<open>Operations that touch no job\<close>

lemma frame_refines:
  assumes "refines d m"
  shows "\<exists>d'. Heartbeat redis_doc NoFault now w d = (Inr (), d') \<and> refines d' m"
    "\<exists>d'. DeregisterWorker redis_doc NoFault w d = (Inr (), d') \<and> refines d' m"
    "wf_queue q \<Longrightarrow> \<exists>d'. Pause redis_doc NoFault q d = (Inr (), d') \<and> refines d' m"
    "wf_queue q \<Longrightarrow> \<exists>d'. Resume redis_doc NoFault q d = (Inr (), d') \<and> refines d' m"
    "refines (snd (SetResult redis_doc NoFault i v ttl d)) m"
proof -
  have h: "has_type THash d workersKey" and s: "shape d" using assms by simp_all
  show "\<exists>d'. Heartbeat redis_doc NoFault now w d = (Inr (), d') \<and> refines d' m"
    using h s by (auto simp: Heartbeat_def go_result_def lcall_def redis_doc.simps view_simps
        intro!: refines_same [OF assms])
  show "\<exists>d'. DeregisterWorker redis_doc NoFault w d = (Inr (), d') \<and> refines d' m"
    using h s by (auto simp: DeregisterWorker_def go_result_def pipe_exec_def redis_doc.simps view_simps
        intro!: refines_same [OF assms])
  show "\<exists>d'. Pause redis_doc NoFault q d = (Inr (), d') \<and> refines d' m" if "wf_queue q"
    using that s by (auto simp: Pause_def go_result_def lcall_def redis_doc.simps view_simps
        intro!: refines_same [OF assms])
  show "\<exists>d'. Resume redis_doc NoFault q d = (Inr (), d') \<and> refines d' m" if "wf_queue q"
    using that s by (auto simp: Resume_def go_result_def lcall_def redis_doc.simps view_simps
        intro!: refines_same [OF assms])
  show "refines (snd (SetResult redis_doc NoFault i v ttl d)) m"
    using assms s by (auto simp: SetResult_def go_result_def lcall_def redis_doc.simps view_simps
        intro!: refines_same [OF assms])
qed

end
