(* ===== verification/Queue_Sweeps.thy ===== *)
theory Queue_Sweeps
  imports Queue_Flow
begin

text \<open>
  The operations that move many jobs at once: promotion of due delayed jobs, recovery of expired
  leases and purging the dead letters. Promotion and recovery take the earliest jobs first, up to
  their limit.
\<close>

section \<open>The earliest members of a sorted set\<close>

text \<open>
  \<open>ids\<close> is the selection of a sweep with limit \<open>n\<close> among the jobs \<open>i\<close> with \<open>time i = Some t\<close>, \<open>t \<le> now\<close>:
  all of them if the limit allows, otherwise the earliest ones.
\<close>

definition selects :: "(string \<Rightarrow> int option) \<Rightarrow> int \<Rightarrow> int \<Rightarrow> string list \<Rightarrow> bool" where
  "selects time now n ids \<longleftrightarrow>
     distinct ids \<and> (\<forall>i\<in>set ids. \<exists>t\<le>now. time i = Some t) \<and>
     (0 \<le> n \<longrightarrow> int (length ids) \<le> n) \<and>
     (n < 0 \<or> int (length ids) < n \<longrightarrow> (\<forall>i t. time i = Some t \<and> t \<le> now \<longrightarrow> i \<in> set ids)) \<and>
     (\<forall>i\<in>set ids. \<forall>j. \<forall>s t. j \<notin> set ids \<and> time i = Some s \<and> time j = Some t \<and> t \<le> now \<longrightarrow> (s, i) \<le> (t, j))"

lemma zrange_selects:
  assumes "zset_ok z"
  shows "selects (zscore z) now n (zrange_upto now n z)"
proof -
  let ?xs = "filter (\<lambda>p. fst p \<le> now) z"
  define k where "k = (if n < 0 then length ?xs else nat n)"
  have ids: "zrange_upto now n z = map snd (take k ?xs)"
    by (simp add: zrange_upto_def k_def take_map)
  have sd: "sorted ?xs" "distinct (map snd ?xs)"
    using assms by (simp_all add: zset_ok_def sorted_wrt_filter distinct_map_filter)
  have mem: "(t, i) \<in> set ?xs \<longleftrightarrow> zscore z i = Some t \<and> t \<le> now" for t i
    using zscore_Some_iff [OF assms] by auto
  have split: "sorted (take k ?xs @ drop k ?xs)" "distinct (map snd (take k ?xs @ drop k ?xs))"
    using sd by simp_all
  have 1: "distinct (map snd (take k ?xs))" using sd(2) by (metis distinct_take take_map)
  have 2: "\<exists>t\<le>now. zscore z i = Some t" if "i \<in> set (map snd (take k ?xs))" for i
    using that mem by (fastforce dest: in_set_takeD)
  have 3: "i \<in> set (map snd (take k ?xs))"
    if "n < 0 \<or> int (length (map snd (take k ?xs))) < n" "zscore z i = Some t" "t \<le> now" for i t
  proof -
    have "length ?xs \<le> k" using that(1) by (auto simp: k_def split: if_splits)
    then have "take k ?xs = ?xs" by (rule take_all)
    moreover have "i \<in> snd ` set ?xs"
      using mem [of t i] that(2,3) by (intro image_eqI [where x = "(t, i)"]) auto
    ultimately show ?thesis by (simp only: set_map)
  qed
  have 4: "(s, i) \<le> (t, j)"
    if "i \<in> set (map snd (take k ?xs))" "j \<notin> set (map snd (take k ?xs))"
      "zscore z i = Some s" "zscore z j = Some t" "t \<le> now" for i j s t
  proof -
    have "(t, j) \<in> set (take k ?xs @ drop k ?xs)"
      unfolding append_take_drop_id using mem [of t j] that(4,5) by blast
    moreover have "(t, j) \<notin> set (take k ?xs)"
      using that(2) by (intro notI) (erule notE, auto intro: image_eqI [where x = "(t, j)"])
    ultimately have j: "(t, j) \<in> set (drop k ?xs)" by (simp only: set_append Un_iff simp_thms)
    from that(1) obtain s' where s': "(s', i) \<in> set (take k ?xs)" by auto
    then have "zscore z i = Some s'" using mem by (meson in_set_takeD)
    then have "s' = s" using that(3) by simp
    moreover have "(s', i) \<le> (t, j)"
      using split(1) s' j unfolding sorted_append by blast
    ultimately show ?thesis by simp
  qed
  have 5: "int (length (take k ?xs)) \<le> n" if "0 \<le> n"
    using that by (simp add: k_def)
  show ?thesis
    unfolding selects_def ids
  proof (intro conjI impI ballI allI)
    show "distinct (map snd (take k ?xs))" by (rule 1)
    show "\<exists>t\<le>now. zscore z i = Some t" if "i \<in> set (map snd (take k ?xs))" for i
      using that by (rule 2)
    show "int (length (map snd (take k ?xs))) \<le> n" if "0 \<le> n" using 5 [OF that] by simp
    show "i \<in> set (map snd (take k ?xs))"
      if "n < 0 \<or> int (length (map snd (take k ?xs))) < n" "zscore z i = Some t \<and> t \<le> now" for i t
      using 3 [OF that(1)] that(2) by blast
    show "(s, i) \<le> (t, j)"
      if "i \<in> set (map snd (take k ?xs))"
        "j \<notin> set (map snd (take k ?xs)) \<and> zscore z i = Some s \<and> zscore z j = Some t \<and> t \<le> now" for i j s t
      using 4 [OF that(1)] that(2) by blast
  qed
qed

section \<open>Promote\<close>

definition after_promote_one :: "string \<Rightarrow> string \<Rightarrow> int \<Rightarrow> dataset \<Rightarrow> dataset" where
  "after_promote_one q i p d = write_job i [(''state'', ''pending'')] (put_ready q p i (rem_delayed q i d))"

lemma promote_one_refines:
  assumes "refines d m" "m i = Some a" "aj_queue a = q" "aj_loc a = Delayed t"
  shows "\<exists>d'. promote_one redis_doc (delayedKey q) (readyKey q) i () d = (Inr (), d') \<and>
     refines d' (upd i to_ready m)"
proof -
  obtain h where v: "jview_of d i = place h q (aj_prio a) (Delayed t)" and h: "hash_of h i a"
    and wf: "wf_id i" "wf_queue q" "unique_ok (aj_unique a)" "shape d"
    using refines_jobE [OF assms(1,2)] assms(3,4) by auto
  let ?d = "after_promote_one q i (aj_prio a) d"
  have "promote_one redis_doc (delayedKey q) (readyKey q) i () d = (Inr (), ?d)"
    using v h wf
    by (simp add: promote_one_def run_parts after_promote_one_def view_simps place_def hash_of_def
        priority_or_default_def)
  moreover have "refines ?d (m(i := Some (to_ready a)))"
    using v h wf assms(3)
    by (intro refines_step [OF assms(1)]) (simp_all add: after_promote_one_def view_simps to_ready_def rep_simps)
  ultimately show ?thesis using assms(2) by (simp add: upd_def)
qed

text \<open>A sweep over distinct jobs applies the single step to each, whatever the loop variable.\<close>

lemma lfold_refines:
  assumes "refines d m" "distinct ids" "\<And>i. i \<in> set ids \<Longrightarrow> P i (m i)"
    and step: "\<And>d m i b. refines d m \<Longrightarrow> P i (m i) \<Longrightarrow>
      \<exists>d'. body i b d = (Inr (g i b), d') \<and> refines d' (upd i f m)"
  shows "\<exists>d'. lfold body ids b d = (Inr (fold g ids b), d') \<and> refines d' (fold (\<lambda>i. upd i f) ids m)"
  using assms(1-3)
proof (induction ids arbitrary: d m b)
  case Nil
  then show ?case by (simp add: ret_def)
next
  case (Cons i ids)
  obtain d1 where d1: "body i b d = (Inr (g i b), d1)" "refines d1 (upd i f m)"
    using step [OF Cons.prems(1)] Cons.prems(3) by (metis list.set_intros(1))
  have "P j (upd i f m j)" if "j \<in> set ids" for j
    using that Cons.prems(2,3) by (auto simp: upd_def)
  then obtain d' where "lfold body ids (g i b) d1 = (Inr (fold g ids (g i b)), d')"
    "refines d' (fold (\<lambda>i. upd i f) ids (upd i f m))"
    using Cons.IH [OF d1(2)] Cons.prems(2) by (metis distinct.simps(2))
  with d1(1) show ?case by (simp add: lbind_Inr)
qed

text \<open>When each delayed job of a queue is due.\<close>

definition due_time :: "astate \<Rightarrow> string \<Rightarrow> string \<Rightarrow> int option" where
  "due_time m q i =
     (case m i of
        None \<Rightarrow> None
      | Some a \<Rightarrow> (if aj_queue a = q then (case aj_loc a of Delayed t \<Rightarrow> Some t | _ \<Rightarrow> None) else None))"

definition lease_time :: "astate \<Rightarrow> string \<Rightarrow> string \<Rightarrow> int option" where
  "lease_time m q i =
     (case m i of
        None \<Rightarrow> None
      | Some a \<Rightarrow> (if aj_queue a = q then (case aj_loc a of Active t \<Rightarrow> Some t | _ \<Rightarrow> None) else None))"

lemma due_time_Some: "due_time m q i = Some t \<longleftrightarrow> (\<exists>a. m i = Some a \<and> aj_queue a = q \<and> aj_loc a = Delayed t)"
  by (auto simp: due_time_def split: option.splits loc.splits if_splits)

lemma lease_time_Some: "lease_time m q i = Some t \<longleftrightarrow> (\<exists>a. m i = Some a \<and> aj_queue a = q \<and> aj_loc a = Active t)"
  by (auto simp: lease_time_def split: option.splits loc.splits if_splits)

lemma due_time_zscore:
  assumes "refines d m" "wf_queue q"
  shows "zscore (zset_at d (delayedKey q)) = due_time m q"
proof
  fix i
  have "zscore (zset_at d (delayedKey q)) i = Some t \<longleftrightarrow> due_time m q i = Some t" for t
  proof (cases "wf_id i")
    case True
    then show ?thesis using refines_delayed_iff [OF assms] due_time_Some by metis
  next
    case False
    then have "zscore (zset_at d (delayedKey q)) i = None" "m i = None"
      using zgood_zscore_wf shapeD(4) [OF refines_shape [OF assms(1)] assms(2)] refines_wf [OF assms(1)]
      by (metis not_None_eq)+
    then show ?thesis by (simp add: due_time_def)
  qed
  then show "zscore (zset_at d (delayedKey q)) i = due_time m q i" by (metis not_None_eq)
qed

lemma lease_time_zscore:
  assumes "refines d m" "wf_queue q"
  shows "zscore (zset_at d (leaseKey q)) = lease_time m q"
proof
  fix i
  have "zscore (zset_at d (leaseKey q)) i = Some t \<longleftrightarrow> lease_time m q i = Some t" for t
  proof (cases "wf_id i")
    case True
    then show ?thesis using refines_lease_iff [OF assms] lease_time_Some by metis
  next
    case False
    then have "zscore (zset_at d (leaseKey q)) i = None" "m i = None"
      using zgood_zscore_wf shapeD(6) [OF refines_shape [OF assms(1)] assms(2)] refines_wf [OF assms(1)]
      by (metis not_None_eq)+
    then show ?thesis by (simp add: lease_time_def)
  qed
  then show "zscore (zset_at d (leaseKey q)) i = lease_time m q i" by (metis not_None_eq)
qed

lemma Promote_refines:
  assumes "refines d m" "wf_queue q"
  shows "\<exists>ids d'. selects (due_time m q) now limit ids \<and>
     Promote redis_doc NoFault now q limit d = (Inr (int (length ids)), d') \<and>
     refines d' (fold (\<lambda>i. upd i to_ready) ids m)"
proof -
  let ?ids = "zrange_upto now limit (zset_at d (delayedKey q))"
  have z: "zset_ok (zset_at d (delayedKey q))" using assms zgood_zset_ok by simp
  have sel: "selects (due_time m q) now limit ?ids"
    using zrange_selects [OF z] due_time_zscore [OF assms] by simp
  have "\<exists>d'. lfold (promote_one redis_doc (delayedKey q) (readyKey q)) ?ids () d =
      (Inr (fold (\<lambda>_ _. ()) ?ids ()), d') \<and> refines d' (fold (\<lambda>i. upd i to_ready) ?ids m)"
  proof (rule lfold_refines [OF assms(1), where P = "\<lambda>i x. \<exists>a t. x = Some a \<and> aj_queue a = q \<and> aj_loc a = Delayed t"])
    show "distinct ?ids" using sel by (simp add: selects_def)
    show "\<exists>a t. m i = Some a \<and> aj_queue a = q \<and> aj_loc a = Delayed t" if "i \<in> set ?ids" for i
      using sel that unfolding selects_def due_time_Some by blast
    show "\<exists>d'. promote_one redis_doc (delayedKey q) (readyKey q) i b d = (Inr (), d') \<and> refines d' (upd i to_ready m)"
      if "refines d m" "\<exists>a t. m i = Some a \<and> aj_queue a = q \<and> aj_loc a = Delayed t" for d m i b
      using promote_one_refines [OF that(1)] that(2) by auto
  qed
  then obtain d' where d': "lfold (promote_one redis_doc (delayedKey q) (readyKey q)) ?ids () d = (Inr (), d')"
    "refines d' (fold (\<lambda>i. upd i to_ready) ?ids m)" by auto
  have "promoteScript redis_doc (delayedKey q) (readyKey q) now limit d = (Inr (RInt (int (length ?ids))), d')"
  proof (cases "?ids = []")
    case True
    with d' assms show ?thesis by (simp add: promoteScript_def call_ZRANGEBYSCORE ret_def)
  next
    case False
    with d' assms show ?thesis
      by (simp add: promoteScript_def call_ZRANGEBYSCORE lbind_def ret_def)
  qed
  then show ?thesis using sel d'(2) by (auto simp: Promote_def go_result_def)
qed

section \<open>Recovery of expired leases\<close>

definition after_recover_one :: "string \<Rightarrow> string \<Rightarrow> int \<Rightarrow> dataset \<Rightarrow> dataset" where
  "after_recover_one q i p d =
     write_job i [(''state'', ''pending''), (''started_at'', itoa 0)]
       (put_ready q p i (rem_lease q i (rem_active q i d)))"

lemma recover_one_refines:
  assumes "refines d m" "m i = Some a" "aj_queue a = q" "aj_loc a = Active t"
  shows "\<exists>d'. recover_one redis_doc (leaseKey q) (activeKey q) (readyKey q) i rs d = (Inr (rs @ [i]), d') \<and>
     refines d' (upd i to_ready m)"
proof -
  obtain h where v: "jview_of d i = place h q (aj_prio a) (Active t)" and h: "hash_of h i a"
    and wf: "wf_id i" "wf_queue q" "unique_ok (aj_unique a)" "shape d"
    using refines_jobE [OF assms(1,2)] assms(3,4) by auto
  let ?d = "after_recover_one q i (aj_prio a) d"
  have "recover_one redis_doc (leaseKey q) (activeKey q) (readyKey q) i rs d = (Inr (rs @ [i]), ?d)"
    using v h wf
    by (simp add: recover_one_def run_parts after_recover_one_def view_simps place_def hash_of_def
        priority_or_default_def)
  moreover have "refines ?d (m(i := Some (to_ready a)))"
    using v h wf assms(3)
    by (intro refines_step [OF assms(1)]) (simp_all add: after_recover_one_def view_simps to_ready_def rep_simps)
  ultimately show ?thesis using assms(2) by (simp add: upd_def)
qed

lemma fold_snoc: "fold (\<lambda>i rs. rs @ [i]) ids acc = acc @ ids"
  by (induction ids arbitrary: acc) auto

lemma Recover_refines:
  assumes "refines d m" "wf_queue q"
  shows "\<exists>ids d'. selects (lease_time m q) now limit ids \<and>
     RecoverExpiredLeases redis_doc NoFault now q limit d = (Inr ids, d') \<and>
     refines d' (fold (\<lambda>i. upd i to_ready) ids m)"
proof -
  let ?ids = "zrange_upto now limit (zset_at d (leaseKey q))"
  let ?body = "recover_one redis_doc (leaseKey q) (activeKey q) (readyKey q)"
  have z: "zset_ok (zset_at d (leaseKey q))" using assms zgood_zset_ok by simp
  have sel: "selects (lease_time m q) now limit ?ids"
    using zrange_selects [OF z] lease_time_zscore [OF assms] by simp
  have "\<exists>d'. lfold ?body ?ids [] d = (Inr (fold (\<lambda>i rs. rs @ [i]) ?ids []), d') \<and>
      refines d' (fold (\<lambda>i. upd i to_ready) ?ids m)"
  proof (rule lfold_refines [OF assms(1), where P = "\<lambda>i x. \<exists>a t. x = Some a \<and> aj_queue a = q \<and> aj_loc a = Active t"])
    show "distinct ?ids" using sel by (simp add: selects_def)
    show "\<exists>a t. m i = Some a \<and> aj_queue a = q \<and> aj_loc a = Active t" if "i \<in> set ?ids" for i
      using sel that unfolding selects_def lease_time_Some by blast
    show "\<exists>d'. ?body i b d = (Inr (b @ [i]), d') \<and> refines d' (upd i to_ready m)"
      if "refines d m" "\<exists>a t. m i = Some a \<and> aj_queue a = q \<and> aj_loc a = Active t" for d m i b
      using recover_one_refines [OF that(1)] that(2) by auto
  qed
  then obtain d' where d': "lfold ?body ?ids [] d = (Inr ?ids, d')"
    "refines d' (fold (\<lambda>i. upd i to_ready) ?ids m)" by (auto simp: fold_snoc)
  have "recoverLeasesScript redis_doc (leaseKey q) (activeKey q) (readyKey q) now limit d = (Inr (RArr ?ids), d')"
  proof (cases "?ids = []")
    case True
    with d' assms show ?thesis by (simp add: recoverLeasesScript_def call_ZRANGEBYSCORE ret_def)
  next
    case False
    with d' assms show ?thesis
      by (simp add: recoverLeasesScript_def call_ZRANGEBYSCORE lbind_def ret_def)
  qed
  then show ?thesis using sel d'(2)
    by (auto simp: RecoverExpiredLeases_def RecoverExpiredLeasesAt_def go_result_def)
qed

text \<open>The moves of a sweep in closed form.\<close>

lemma fold_upd:
  "distinct ids \<Longrightarrow> fold (\<lambda>i. upd i f) ids m = (\<lambda>j. if j \<in> set ids then map_option f (m j) else m j)"
  by (induction ids arbitrary: m) (auto simp: upd_def fun_eq_iff)

section \<open>Purging the dead letters\<close>

definition purged :: "string \<Rightarrow> astate \<Rightarrow> astate" where
  "purged q m = (\<lambda>i. if at_loc m q i (\<lambda>l. l = Dead) then None else m i)"

lemma lrange_all [simp]: "lrange xs 0 (- 1) = xs"
  by (cases xs) (simp_all add: lrange_def)

definition del_jobs :: "string list \<Rightarrow> dataset \<Rightarrow> dataset" where
  "del_jobs ids d = fold (\<lambda>i d. del d (jobKey i)) ids d"

lemma run_purge: "lfold (purge_one redis_doc) ids () d = (Inr (), del_jobs ids d)"
  by (induction ids arbitrary: d)
    (simp_all add: ret_def del_jobs_def purge_one_def call_DEL lbind_def)

lemma shape_del_jobs [simp]: "shape d \<Longrightarrow> shape (del_jobs ids d)"
  by (induction ids arbitrary: d) (simp_all add: del_jobs_def)

lemma jview_del_jobs [view_simps]:
  "jview_of (del_jobs ids d) j =
     (if j \<in> set ids then (jview_of d j)\<lparr>jv_hash := Map.empty\<rparr> else jview_of d j)"
  by (induction ids arbitrary: d) (simp_all add: del_jobs_def view_simps)

lemma PurgeDead_refines:
  assumes "refines d m" "wf_queue q"
  shows "\<exists>d'. PurgeDead redis_doc NoFault q d = (Inr (int (length (list_at d (deadKey q)))), d') \<and>
     refines d' (purged q m)"
proof -
  let ?ids = "list_at d (deadKey q)" and ?d = "del (del_jobs (list_at d (deadKey q)) d) (deadKey q)"
  have run: "PurgeDead redis_doc NoFault q d = (Inr (int (length ?ids)), ?d)"
    using assms
    by (simp add: PurgeDead_def go_result_def purgeDeadScript_def call_LRANGE lbind_Inr [OF run_purge]
        call_DEL ret_def)
  have sh: "shape ?d" using assms by simp
  have "shows_job (jview_of ?d i) i (purged q m i)" if wi: "wf_id i" for i
  proof -
    have mem: "i \<in> set ?ids \<longleftrightarrow> at_loc m q i (\<lambda>l. l = Dead)"
      using refines_dead_iff [OF assms wi] count_list_0_iff [of ?ids i] by (auto simp: at_loc_def split: if_splits)
    have dead0: "jv_dead (jview_of d i) q = 0" if "i \<notin> set ?ids"
      using that assms(2) by (simp add: jview_of_sel)
    have view: "jview_of ?d i = (if i \<in> set ?ids
        then (jview_of d i)\<lparr>jv_hash := Map.empty, jv_dead := (jv_dead (jview_of d i))(q := 0)\<rparr>
        else jview_of d i)"
      using assms(2) dead0 by (auto simp: view_simps fun_upd_idem)
    show ?thesis
    proof (cases "i \<in> set ?ids")
      case True
      then obtain a where a: "m i = Some a" "aj_queue a = q" "aj_loc a = Dead" using mem by (auto simp: at_loc_def)
      obtain h where v: "jview_of d i = place h q (aj_prio a) Dead"
        using refines_jobE [OF assms(1) a(1)] a(2,3) by auto
      with True mem view show ?thesis by (simp add: purged_def shows_job_def absent_def place_def)
    next
      case False
      with mem view assms(1) wi show ?thesis by (simp add: purged_def refines_def)
    qed
  qed
  then have "refines ?d (purged q m)"
    using sh assms(1) by (auto simp: refines_def purged_def dom_def split: if_splits)
  with run show ?thesis by blast
qed

end
