(* ===== verification/Persistence.thy ===== *)
theory Persistence
  imports Queue_Sweeps
begin

text \<open>
  Time passes between operations, and keys with a time to live disappear. The queue's own
  structures never get one: only unique locks, job results, workflow records and rate limit
  buckets are written with an expiry. \<open>keeps\<close> carries an invariant through a computation
  in the same way as \<open>sim\<close> carries the view.
\<close>

section \<open>Invariants of computations\<close>

definition keeps :: "('s \<Rightarrow> bool) \<Rightarrow> ('s \<Rightarrow> 'a \<times> 's) \<Rightarrow> bool" where
  "keeps I m \<longleftrightarrow> (\<forall>s. I s \<longrightarrow> I (snd (m s)))"

lemma keepsD: "keeps I m \<Longrightarrow> I s \<Longrightarrow> I (snd (m s))"
  by (simp add: keeps_def)

lemma keeps_ret [keep_intros]: "keeps I (ret a)"
  by (simp add: keeps_def ret_def)

lemma keeps_raise [keep_intros]: "keeps I (raise e)"
  by (simp add: keeps_def raise_def)

lemma keeps_lbind [keep_intros]:
  assumes "keeps I m" and "\<And>a. keeps I (f a)"
  shows "keeps I (lbind m f)"
  unfolding keeps_def lbind_def
proof (intro allI impI)
  fix s assume "I s"
  then have "I (snd (m s))" using assms(1) by (rule keepsD [rotated])
  then show "I (snd (case m s of (Inl e, s') \<Rightarrow> (Inl e, s') | (Inr a, s') \<Rightarrow> f a s'))"
    using keepsD [OF assms(2)] by (auto split: prod.splits sum.splits)
qed

lemma keeps_if [keep_intros]: "keeps I m \<Longrightarrow> keeps I n \<Longrightarrow> keeps I (if b then m else n)"
  by simp

lemma keeps_let [keep_intros]: "(\<And>x. keeps I (f x)) \<Longrightarrow> keeps I (let x = a in f x)"
  by simp

lemma keeps_case_option [keep_intros]:
  "keeps I m \<Longrightarrow> (\<And>x. keeps I (f x)) \<Longrightarrow> keeps I (case opt of None \<Rightarrow> m | Some x \<Rightarrow> f x)"
  by (cases opt) auto

lemma keeps_case_list [keep_intros]:
  "keeps I m \<Longrightarrow> (\<And>x xs. keeps I (f x xs)) \<Longrightarrow> keeps I (case ys of [] \<Rightarrow> m | x # xs \<Rightarrow> f x xs)"
  by (cases ys) auto

lemma keeps_case_bulk [keep_intros]:
  "(\<And>x. keeps I (f x)) \<Longrightarrow> keeps I m \<Longrightarrow> keeps I (case r of RBulk x \<Rightarrow> f x | _ \<Rightarrow> m)"
  by (cases r) auto

lemma keeps_case_numbers [keep_intros]:
  "(\<And>a b. keeps I (f a b)) \<Longrightarrow> keeps I m \<Longrightarrow>
   keeps I (case (x, y) of (Some a, Some b) \<Rightarrow> f a b | _ \<Rightarrow> m)"
  by (cases x; cases y) auto

lemma keeps_lfold [keep_intros]: "(\<And>x b. keeps I (f x b)) \<Longrightarrow> keeps I (lfold f xs b)"
  by (induction xs arbitrary: b) (simp_all add: keeps_ret keeps_lbind)

lemma keeps_run [keep_intros]: "keeps I m \<Longrightarrow> keeps I (run flt m)"
  by (cases flt) (simp_all add: keeps_def)

lemma keeps_go_result [keep_intros]: "keeps I m \<Longrightarrow> keeps I (go_result m onerr onok)"
  unfolding keeps_def go_result_def by (force split: prod.splits sum.splits)

section \<open>Keys without a time to live\<close>

definition volatile :: "key \<Rightarrow> bool" where
  "volatile k \<longleftrightarrow> (\<exists>x. k = uniqueKey x \<or> k = resultKey x \<or> k = workflowKey x \<or> k = bucketKey x)"

definition persistent :: "dataset \<Rightarrow> bool" where
  "persistent d \<longleftrightarrow> (\<forall>k v e. \<not> volatile k \<longrightarrow> db d k = Some (v, e) \<longrightarrow> e = None)"

text \<open>A command gives no time to live to a key that must persist.\<close>

fun ttl_safe :: "command \<Rightarrow> bool" where
  "ttl_safe (SET_PX k _ _) = volatile k"
| "ttl_safe (SET_NX_EX k _ _) = volatile k"
| "ttl_safe (PEXPIRE k _) = volatile k"
| "ttl_safe _ = True"

lemma persistent_ttl_of: "persistent d \<Longrightarrow> \<not> volatile k \<Longrightarrow> ttl_of d k = None"
  by (auto simp: persistent_def ttl_of_def live_def split: option.splits if_splits)

lemma persistent_put [simp]: "persistent d \<Longrightarrow> persistent (put d k v)"
  using persistent_ttl_of [of d k] unfolding persistent_def put_def by auto

lemma persistent_put_ttl [simp]: "persistent d \<Longrightarrow> e = None \<or> volatile k \<Longrightarrow> persistent (put_ttl d k v e)"
  by (auto simp: persistent_def put_ttl_def)

lemma persistent_del [simp]: "persistent d \<Longrightarrow> persistent (del d k)"
  by (auto simp: persistent_def del_def)

lemma persistent_store [simp]:
  assumes "persistent d"
  shows "persistent (store_hash d k h)" "persistent (store_set d k xs)"
    "persistent (store_zset d k z)" "persistent (store_list d k l)"
  using assms by (simp_all add: store_hash_def store_set_def store_zset_def store_list_def)

lemma persistent_redis_doc: "persistent d \<Longrightarrow> ttl_safe c \<Longrightarrow> persistent (snd (redis_doc c d))"
  by (cases c) (auto simp: redis_doc.simps typed_def split: option.splits list.splits)

lemma keeps_lcall [keep_intros]: "ttl_safe c \<Longrightarrow> keeps persistent (lcall redis_doc c)"
  using persistent_redis_doc unfolding keeps_def lcall_def
  by (auto split: prod.splits reply.splits) (metis snd_conv)+

lemma keeps_call [keep_intros]:
  "ttl_safe c \<Longrightarrow> (\<And>r. keeps persistent (f r)) \<Longrightarrow> keeps persistent (call redis_doc c f)"
  unfolding call_def by (intro keep_intros)

lemma persistent_pipe_cmds:
  "persistent d \<Longrightarrow> list_all ttl_safe cs \<Longrightarrow> persistent (snd (pipe_cmds redis_doc cs d))"
proof (induction cs arbitrary: d)
  case (Cons c cs)
  then have "persistent (snd (redis_doc c d))" using persistent_redis_doc by simp
  then have "persistent (snd (pipe_cmds redis_doc cs (snd (redis_doc c d))))" using Cons by simp
  then show ?case by (auto split: prod.splits)
qed simp

lemma keeps_pipe_exec [keep_intros]: "list_all ttl_safe cs \<Longrightarrow> keeps persistent (pipe_exec redis_doc cs)"
  using persistent_pipe_cmds unfolding keeps_def pipe_exec_def
  by (auto split: prod.splits option.splits) (metis snd_conv)+

section \<open>Every operation of the queue keeps its structures persistent\<close>

lemma volatile_intros [simp]: "volatile (uniqueKey u)" "volatile (resultKey i)"
  "volatile (workflowKey i)" "volatile (bucketKey kd)"
  by (auto simp: volatile_def)

lemma keeps_release_unique [keep_intros]:
  "keeps persistent k \<Longrightarrow> keeps persistent (release_unique redis_doc jk i k)"
  unfolding release_unique_def by (intro keep_intros) simp_all

lemma keeps_enqueue_call:
  "u = '''' \<or> volatile u \<Longrightarrow> keeps persistent (enqueue_call redis_doc job u ttl)"
  unfolding enqueue_call_def enqueueScript_def Let_def
  by (cases "u = ''''") (simp_all, (intro conjI impI keep_intros; simp)+)

lemma keeps_Enqueue: "keeps persistent (Enqueue redis_doc flt job u p)"
  unfolding Enqueue_def by (auto intro!: keep_intros keeps_enqueue_call)

lemma keeps_Dequeue: "keeps persistent (Dequeue redis_doc flt now q w)"
  unfolding Dequeue_def dequeueScript_def by (intro keep_intros; simp)

lemma keeps_Ack: "keeps persistent (Ack redis_doc flt now q j w)"
  unfolding Ack_def ackScript_def by (intro keep_intros; simp)

lemma keeps_Nack: "keeps persistent (Nack redis_doc flt now q j w e b sk)"
  unfolding Nack_def nackScript_def Let_def by (intro keep_intros; simp)

lemma keeps_RescheduleJob: "keeps persistent (RescheduleJob redis_doc flt q j w t)"
  unfolding RescheduleJob_def rescheduleScript_def by (intro keep_intros; simp)

lemma keeps_CancelJob: "keeps persistent (CancelJob redis_doc flt now q j w r)"
  unfolding CancelJob_def cancelScript_def by (intro keep_intros; simp)

lemma keeps_Promote: "keeps persistent (Promote redis_doc flt now q l)"
  unfolding Promote_def promoteScript_def promote_one_def by (intro keep_intros; simp)

lemma keeps_ExtendLease: "keeps persistent (ExtendLease redis_doc flt t q j x)"
  unfolding ExtendLease_def extendLeaseScript_def by (intro keep_intros; simp)

lemma keeps_RecoverExpiredLeases: "keeps persistent (RecoverExpiredLeases redis_doc flt now q l)"
  unfolding RecoverExpiredLeases_def RecoverExpiredLeasesAt_def recoverLeasesScript_def recover_one_def
  by (intro keep_intros; simp)

lemma keeps_Heartbeat: "keeps persistent (Heartbeat redis_doc flt now w)"
  unfolding Heartbeat_def by (intro keep_intros; simp)

lemma keeps_DeregisterWorker: "keeps persistent (DeregisterWorker redis_doc flt w)"
  unfolding DeregisterWorker_def by (intro keep_intros; simp)

lemma keeps_Pause: "keeps persistent (Pause redis_doc flt q)"
  unfolding Pause_def by (intro keep_intros; simp)

lemma keeps_Resume: "keeps persistent (Resume redis_doc flt q)"
  unfolding Resume_def by (intro keep_intros; simp)

lemma keeps_RetryDead: "keeps persistent (RetryDead redis_doc flt q j)"
  unfolding RetryDead_def retryDeadScript_def by (intro keep_intros; simp)

lemma keeps_PurgeDead: "keeps persistent (PurgeDead redis_doc flt q)"
  unfolding PurgeDead_def purgeDeadScript_def purge_one_def by (intro keep_intros; simp)

lemma keeps_SetResult: "keeps persistent (SetResult redis_doc flt j v ttl)"
  unfolding SetResult_def by (intro keep_intros) simp

lemmas queue_keeps = keeps_Enqueue keeps_Dequeue keeps_Ack keeps_Nack keeps_RescheduleJob
  keeps_CancelJob keeps_Promote keeps_ExtendLease keeps_RecoverExpiredLeases keeps_Heartbeat
  keeps_DeregisterWorker keeps_Pause keeps_Resume keeps_RetryDead keeps_PurgeDead keeps_SetResult

end
