(* ===== verification/Queue_Safety.thy ===== *)
theory Queue_Safety
  imports Persistence
begin

text \<open>
  The queue as a state machine. \<open>astep\<close> is the abstract machine on the jobs; \<open>qstep\<close> is one
  operation of the program against a Redis server, with any fault on the way, or the passing of
  time. Every \<open>qstep\<close> is an \<open>astep\<close> or changes no job, so the invariants of the abstract machine
  hold of every state the program can reach.
\<close>

section \<open>The abstract machine\<close>

abbreviation is_active :: "loc \<Rightarrow> bool" where
  "is_active l \<equiv> \<exists>t. l = Active t"

inductive astep :: "astate \<Rightarrow> astate \<Rightarrow> bool" where
  a_enqueue: "m (ID job) = None \<Longrightarrow> State job = ''pending'' \<Longrightarrow> astep m (m(ID job \<mapsto> new_job job u))"
| a_dequeue: "is_next m q i \<Longrightarrow> astep m (upd i (to_active e) m)"
| a_ack: "at_loc m q i is_active \<Longrightarrow> astep m (upd i to_completed m)"
| a_cancel: "at_loc m q i is_active \<Longrightarrow> astep m (upd i to_cancelled m)"
| a_reschedule: "at_loc m q i is_active \<Longrightarrow> astep m (upd i (to_delayed t) m)"
| a_nack: "at_loc m q i is_active \<Longrightarrow> astep m (upd i (to_failed skip t) m)"
| a_extend: "at_loc m q i is_active \<Longrightarrow> astep m (upd i (\<lambda>a. a\<lparr>aj_loc := Active t\<rparr>) m)"
| a_promote: "selects (due_time m q) now n ids \<Longrightarrow> astep m (fold (\<lambda>i. upd i to_ready) ids m)"
| a_recover: "selects (lease_time m q) now n ids \<Longrightarrow> astep m (fold (\<lambda>i. upd i to_ready) ids m)"
| a_retry: "at_loc m q i (\<lambda>l. l = Dead) \<Longrightarrow> astep m (upd i to_retried m)"
| a_purge: "astep m (purged q m)"

text \<open>What a step may do to one job.\<close>

inductive job_step :: "ajob \<Rightarrow> ajob option \<Rightarrow> bool" where
  j_same: "job_step a (Some a)"
| j_active: "aj_loc a = Ready \<Longrightarrow> job_step a (Some (to_active e a))"
| j_completed: "is_active (aj_loc a) \<Longrightarrow> job_step a (Some (to_completed a))"
| j_cancelled: "is_active (aj_loc a) \<Longrightarrow> job_step a (Some (to_cancelled a))"
| j_delayed: "is_active (aj_loc a) \<Longrightarrow> job_step a (Some (to_delayed t a))"
| j_failed: "is_active (aj_loc a) \<Longrightarrow> job_step a (Some (to_failed skip t a))"
| j_extended: "is_active (aj_loc a) \<Longrightarrow> job_step a (Some (a\<lparr>aj_loc := Active t\<rparr>))"
| j_promoted: "aj_loc a = Delayed t \<Longrightarrow> job_step a (Some (to_ready a))"
| j_recovered: "is_active (aj_loc a) \<Longrightarrow> job_step a (Some (to_ready a))"
| j_retried: "aj_loc a = Dead \<Longrightarrow> job_step a (Some (to_retried a))"
| j_purged: "aj_loc a = Dead \<Longrightarrow> job_step a None"

inductive_cases job_stepE: "job_step a x"

lemma job_step_upd:
  assumes "m j = Some a" and "\<And>b. m i = Some b \<Longrightarrow> job_step b (Some (f b))"
  shows "job_step a (upd i f m j)"
  using assms by (auto simp: upd_def job_step.j_same)

lemma at_locD: "at_loc m q i P \<Longrightarrow> m i = Some b \<Longrightarrow> P (aj_loc b)"
  by (auto simp: at_loc_def)

lemma selects_distinct: "selects f now n ids \<Longrightarrow> distinct ids"
  by (simp add: selects_def)

lemma selects_loc:
  "selects (due_time m q) now n ids \<Longrightarrow> i \<in> set ids \<Longrightarrow> m i = Some a \<Longrightarrow> \<exists>t. aj_loc a = Delayed t"
  "selects (lease_time m q) now n ids \<Longrightarrow> i \<in> set ids \<Longrightarrow> m i = Some a \<Longrightarrow> is_active (aj_loc a)"
  unfolding selects_def due_time_Some lease_time_Some by fastforce+

lemma astep_job:
  assumes "astep m m'" and "m j = Some a"
  shows "job_step a (m' j)"
  using assms
proof (induction rule: astep.induct)
  case (a_promote m q now n ids)
  then show ?case
    using selects_loc(1) [OF a_promote(1)]
    by (auto simp: fold_upd [OF selects_distinct [OF a_promote(1)]] intro: job_step.intros)
next
  case (a_recover m q now n ids)
  then show ?case
    using selects_loc(2) [OF a_recover(1)]
    by (auto simp: fold_upd [OF selects_distinct [OF a_recover(1)]] intro: job_step.intros)
next
  case (a_dequeue m q i e)
  then have "aj_loc b = Ready" if "m i = Some b" for b using that by (auto simp: is_next_def)
  with a_dequeue show ?case by (intro job_step_upd) (auto intro: job_step.intros)
next
  case (a_purge m q)
  then show ?case by (auto simp: purged_def at_loc_def intro: job_step.intros)
qed (auto intro!: job_step_upd job_step.intros dest: at_locD)

text \<open>Steps of the abstract machine, and steps that change no job.\<close>

abbreviation asteps :: "astate \<Rightarrow> astate \<Rightarrow> bool" where
  "asteps \<equiv> astep\<^sup>*\<^sup>*"

lemma asteps_Done:
  assumes "asteps m m'" and "m i = Some a" and "aj_loc a = Done"
  shows "m' i = Some a"
  using assms(1)
proof (induction rule: rtranclp_induct)
  case base
  then show ?case using assms(2) by simp
next
  case (step m' m'')
  then show ?case using astep_job [OF step(2) step(3)] assms(3) by (auto elim: job_stepE)
qed

definition same_identity :: "ajob \<Rightarrow> ajob \<Rightarrow> bool" where
  "same_identity a b \<longleftrightarrow>
     aj_kind b = aj_kind a \<and> aj_queue b = aj_queue a \<and> aj_prio b = aj_prio a \<and>
     aj_payload b = aj_payload a \<and> aj_workflow b = aj_workflow a \<and> aj_unique b = aj_unique a \<and>
     aj_max b = aj_max a"

lemma job_step_identity: "job_step a (Some b) \<Longrightarrow> same_identity a b"
  by (auto elim!: job_stepE simp: same_identity_def to_active_def to_completed_def to_cancelled_def
      to_delayed_def to_failed_def to_ready_def to_retried_def)

text \<open>A job that was enqueued exists until it is purged from the dead letters.\<close>

lemma job_step_None: "job_step a None \<Longrightarrow> aj_loc a = Dead"
  by (auto elim: job_stepE)

text \<open>
  Attempts are bounded by the retry limit: a job that may run again has attempts left, or has
  not failed yet.
\<close>

definition attempts_ok :: "ajob \<Rightarrow> bool" where
  "attempts_ok a \<longleftrightarrow> 0 \<le> aj_attempt a \<and> (aj_loc a \<noteq> Dead \<longrightarrow> aj_attempt a = 0 \<or> aj_attempt a < aj_max a)"

lemma job_step_attempts: "job_step a (Some b) \<Longrightarrow> attempts_ok a \<Longrightarrow> attempts_ok b"
  by (auto elim!: job_stepE simp: attempts_ok_def to_active_def to_completed_def to_cancelled_def
      to_delayed_def to_failed_def to_ready_def to_retried_def exhausted_def split: if_splits)

lemma astep_attempts:
  assumes "astep m m'" and "\<And>i a. m i = Some a \<Longrightarrow> attempts_ok a" and "m' i = Some b"
  shows "attempts_ok b"
proof (cases "m i")
  case (Some a)
  then have "job_step a (Some b)" using astep_job [OF assms(1)] assms(3) by metis
  then show ?thesis using job_step_attempts assms(2) [OF Some] by blast
next
  case None
  from assms(1,3) None show ?thesis
  proof (induction rule: astep.induct)
    case (a_enqueue m job u)
    then show ?case by (auto simp: new_job_def attempts_ok_def split: if_splits)
  next
    case (a_promote m q now n ids)
    then show ?case by (simp add: fold_upd [OF selects_distinct [OF a_promote(1)]] split: if_splits)
  next
    case (a_recover m q now n ids)
    then show ?case by (simp add: fold_upd [OF selects_distinct [OF a_recover(1)]] split: if_splits)
  qed (auto simp: upd_def purged_def split: if_splits)
qed

section \<open>Passing time\<close>

definition tick :: "int \<Rightarrow> dataset \<Rightarrow> dataset" where
  "tick t d = d\<lparr>clock := t\<rparr>"

lemma persistent_tick [simp]: "persistent (tick t d) = persistent d"
  by (simp add: persistent_def tick_def)

lemma lookup_tick: "persistent d \<Longrightarrow> \<not> volatile k \<Longrightarrow> lookup (tick t d) k = lookup d k"
  by (force simp: persistent_def lookup_def live_def tick_def expired_def split: option.splits)

lemma at_tick:
  assumes "persistent d" and "\<not> volatile k"
  shows "hash_at (tick t d) k = hash_at d k" "set_at (tick t d) k = set_at d k"
    "zset_at (tick t d) k = zset_at d k" "list_at (tick t d) k = list_at d k"
    "has_type ty (tick t d) k = has_type ty d k"
  using lookup_tick [OF assms] by (simp_all add: hash_at_def set_at_def zset_at_def list_at_def has_type_def)

lemma has_type_tick: "has_type ty d k \<Longrightarrow> clock d \<le> t \<Longrightarrow> has_type ty (tick t d) k"
  by (auto simp: has_type_def lookup_def live_def tick_def expired_def split: option.splits if_splits)

lemma not_volatile [simp]:
  "wf_queue q \<Longrightarrow> \<not> volatile (readyKey q)" "wf_queue q \<Longrightarrow> \<not> volatile (delayedKey q)"
  "wf_queue q \<Longrightarrow> \<not> volatile (leaseKey q)" "wf_queue q \<Longrightarrow> \<not> volatile (activeKey q)"
  "wf_queue q \<Longrightarrow> \<not> volatile (deadKey q)" "\<not> volatile (statsKey q)"
  "wf_id i \<Longrightarrow> \<not> volatile (jobKey i)" "\<not> volatile (workerJobsKey w)" "\<not> volatile workersKey"
  "wf_queue q \<Longrightarrow> \<not> volatile (pausedKey q)"
  by (auto simp: volatile_def key_simps)

lemma shape_tick:
  assumes "shape d" and "persistent d" and "clock d \<le> t"
  shows "shape (tick t d)"
  using assms by (intro shapeI) (simp_all add: shape_queue_def at_tick has_type_tick)

lemma jview_tick: "persistent d \<Longrightarrow> wf_id i \<Longrightarrow> jview_of (tick t d) i = jview_of d i"
  by (simp add: jview_of_def at_tick cong: if_cong conj_cong)

lemma refines_tick: "refines d m \<Longrightarrow> persistent d \<Longrightarrow> clock d \<le> t \<Longrightarrow> refines (tick t d) m"
  by (rule refines_same) (simp_all add: shape_tick jview_tick)

section \<open>The program's steps\<close>

text \<open>
  \<open>holds d q i\<close>: the job is in the active set of its queue, as it is from the dequeue until the
  worker finishes it or its lease is recovered. The scripts do not check it; the steps \<open>qstep\<close> are
  those in which a worker settles a job only while it is active.
\<close>

definition holds :: "dataset \<Rightarrow> string \<Rightarrow> string \<Rightarrow> bool" where
  "holds d q i \<longleftrightarrow> wf_queue q \<and> i \<in> set (set_at d (activeKey q))"

definition fresh :: "dataset \<Rightarrow> JobRecord \<Rightarrow> bool" where
  "fresh d job \<longleftrightarrow> wf_id (ID job) \<and> wf_queue (Queue job) \<and> State job = ''pending'' \<and>
     lookup d (jobKey (ID job)) = None"

inductive qstep :: "'s server \<Rightarrow> ('s \<Rightarrow> dataset) \<Rightarrow> 's \<Rightarrow> 's \<Rightarrow> bool" for exec view where
  q_enqueue: "fresh (view s) job \<Longrightarrow> qstep exec view s (snd (Enqueue exec flt job uk period s))"
| q_dequeue: "wf_queue q \<Longrightarrow> qstep exec view s (snd (Dequeue exec flt now q w s))"
| q_ack: "holds (view s) q i \<Longrightarrow> qstep exec view s (snd (Ack exec flt now q i w s))"
| q_nack: "holds (view s) q i \<Longrightarrow> qstep exec view s (snd (Nack exec flt now q i w err backoff skip s))"
| q_reschedule: "holds (view s) q i \<Longrightarrow> qstep exec view s (snd (RescheduleJob exec flt q i w t s))"
| q_cancel: "holds (view s) q i \<Longrightarrow> qstep exec view s (snd (CancelJob exec flt now q i w reason s))"
| q_promote: "wf_queue q \<Longrightarrow> qstep exec view s (snd (Promote exec flt now q limit s))"
| q_extend: "wf_queue q \<Longrightarrow> qstep exec view s (snd (ExtendLease exec flt t q i ext s))"
| q_recover: "wf_queue q \<Longrightarrow> qstep exec view s (snd (RecoverExpiredLeases exec flt now q limit s))"
| q_retry: "wf_queue q \<Longrightarrow> wf_id i \<Longrightarrow> qstep exec view s (snd (RetryDead exec flt q i s))"
| q_purge: "wf_queue q \<Longrightarrow> qstep exec view s (snd (PurgeDead exec flt q s))"
| q_heartbeat: "qstep exec view s (snd (Heartbeat exec flt now w s))"
| q_deregister: "qstep exec view s (snd (DeregisterWorker exec flt w s))"
| q_pause: "wf_queue q \<Longrightarrow> qstep exec view s (snd (Pause exec flt q s))"
| q_resume: "wf_queue q \<Longrightarrow> qstep exec view s (snd (Resume exec flt q s))"
| q_result: "qstep exec view s (snd (SetResult exec flt i data ttl s))"
| q_tick: "clock (view s) \<le> t \<Longrightarrow> view s' = tick t (view s) \<Longrightarrow> qstep exec view s s'"

lemma go_fault:
  "snd (go_result (run flt m) onerr onok s) = s \<or>
   snd (go_result (run flt m) onerr onok s) = snd (go_result (run NoFault m) onerr onok s)"
  by (cases flt) (auto simp: go_result_def split: prod.splits sum.splits)

text \<open>An operation that meets a fault leaves the state alone, or does what it does without the fault.\<close>

lemma queue_fault:
  "snd (Enqueue exec flt job uk p s) = s \<or> snd (Enqueue exec flt job uk p s) = snd (Enqueue exec NoFault job uk p s)"
  "snd (Dequeue exec flt now q w s) = s \<or> snd (Dequeue exec flt now q w s) = snd (Dequeue exec NoFault now q w s)"
  "snd (Ack exec flt now q i w s) = s \<or> snd (Ack exec flt now q i w s) = snd (Ack exec NoFault now q i w s)"
  "snd (Nack exec flt now q i w e b sk s) = s \<or>
   snd (Nack exec flt now q i w e b sk s) = snd (Nack exec NoFault now q i w e b sk s)"
  "snd (RescheduleJob exec flt q i w t s) = s \<or>
   snd (RescheduleJob exec flt q i w t s) = snd (RescheduleJob exec NoFault q i w t s)"
  "snd (CancelJob exec flt now q i w r s) = s \<or>
   snd (CancelJob exec flt now q i w r s) = snd (CancelJob exec NoFault now q i w r s)"
  "snd (Promote exec flt now q l s) = s \<or> snd (Promote exec flt now q l s) = snd (Promote exec NoFault now q l s)"
  "snd (ExtendLease exec flt t q i x s) = s \<or>
   snd (ExtendLease exec flt t q i x s) = snd (ExtendLease exec NoFault t q i x s)"
  "snd (RecoverExpiredLeases exec flt now q l s) = s \<or>
   snd (RecoverExpiredLeases exec flt now q l s) = snd (RecoverExpiredLeases exec NoFault now q l s)"
  "snd (RetryDead exec flt q i s) = s \<or> snd (RetryDead exec flt q i s) = snd (RetryDead exec NoFault q i s)"
  "snd (PurgeDead exec flt q s) = s \<or> snd (PurgeDead exec flt q s) = snd (PurgeDead exec NoFault q s)"
  "snd (Heartbeat exec flt now w s) = s \<or> snd (Heartbeat exec flt now w s) = snd (Heartbeat exec NoFault now w s)"
  "snd (DeregisterWorker exec flt w s) = s \<or>
   snd (DeregisterWorker exec flt w s) = snd (DeregisterWorker exec NoFault w s)"
  "snd (Pause exec flt q s) = s \<or> snd (Pause exec flt q s) = snd (Pause exec NoFault q s)"
  "snd (Resume exec flt q s) = s \<or> snd (Resume exec flt q s) = snd (Resume exec NoFault q s)"
  "snd (SetResult exec flt i v ttl s) = s \<or>
   snd (SetResult exec flt i v ttl s) = snd (SetResult exec NoFault i v ttl s)"
  unfolding Enqueue_def Dequeue_def Ack_def Nack_def RescheduleJob_def CancelJob_def Promote_def
    ExtendLease_def RecoverExpiredLeases_def RecoverExpiredLeasesAt_def RetryDead_def PurgeDead_def
    Heartbeat_def DeregisterWorker_def Pause_def Resume_def SetResult_def Let_def split_def
  by (rule go_fault)+

section \<open>Every step of the program is a step of the abstract machine\<close>

definition follows :: "astate \<Rightarrow> dataset \<Rightarrow> bool" where
  "follows m d \<longleftrightarrow> (\<exists>m'. refines d m' \<and> (m' = m \<or> astep m m'))"

lemma followsI: "refines d m' \<Longrightarrow> astep m m' \<Longrightarrow> follows m d"
  by (auto simp: follows_def)

lemma follows_same: "refines d m \<Longrightarrow> follows m d"
  by (auto simp: follows_def)

lemma holds_active:
  assumes "refines d m" and "holds d q i"
  obtains a t where "m i = Some a" "aj_queue a = q" "aj_loc a = Active t" "at_loc m q i is_active"
proof -
  from assms(2) have q: "wf_queue q" and i: "i \<in> set (set_at d (activeKey q))" by (auto simp: holds_def)
  have "sgood (set_at d (activeKey q))" using assms(1) q by simp
  with i have "wf_id i" by (simp add: sgood_def)
  with refines_active_iff [OF assms(1) q] i that show ?thesis by (auto simp: at_loc_def)
qed

lemma fresh_None:
  assumes "refines d m" and "fresh d job"
  shows "m (ID job) = None"
proof (rule ccontr)
  assume "m (ID job) \<noteq> None"
  then obtain a where "m (ID job) = Some a" by auto
  then have "hash_of (map_of (hash_at d (jobKey (ID job)))) (ID job) a"
    using refinesD [OF assms(1)] by (auto simp: represents_def jview_of_sel)
  with assms(2) show False by (simp add: hash_of_def fresh_def hash_at_def)
qed

lemma Enqueue_follows:
  assumes "refines d m" and "fresh d job"
  shows "follows m (snd (Enqueue redis_doc NoFault job uk period d))"
proof (cases "takes_lock uk period \<and> lookup d (uniqueKey uk) \<noteq> None")
  case True
  then show ?thesis using run_Enqueue_duplicate assms(1) follows_same by simp
next
  case False
  obtain d' where "Enqueue redis_doc NoFault job uk period d = (Inr (), d')"
    "refines d' (m(ID job \<mapsto> new_job job (lock_key uk period)))"
    using Enqueue_refines [OF assms(1), of job uk period] assms(2) fresh_None [OF assms] False
    by (auto simp: fresh_def)
  with fresh_None [OF assms] assms(2) show ?thesis
    by (auto simp: fresh_def intro!: followsI astep.a_enqueue)
qed

lemma is_next_exists:
  assumes "refines d m" and "wf_queue q" and "at_loc m q j (\<lambda>l. l = Ready)"
  shows "\<exists>i. is_next m q i"
proof -
  have good: "zgood (zset_at d (readyKey q))" using assms(1,2) by simp
  obtain b where b: "m j = Some b" "aj_queue b = q" "aj_loc b = Ready" using assms(3) by (auto simp: at_loc_def)
  have "zscore (zset_at d (readyKey q)) j = Some (aj_prio b)"
    using refines_ready_iff [OF assms(1,2)] refines_wf [OF assms(1) b(1)] b by blast
  then obtain p i z where z: "zset_at d (readyKey q) = (p, i) # z"
    by (cases "zset_at d (readyKey q)") auto
  have "zscore (zset_at d (readyKey q)) i = Some p" by (simp add: z)
  then obtain a where a: "m i = Some a" "aj_queue a = q" "aj_loc a = Ready" "aj_prio a = p"
    using refines_ready_iff [OF assms(1,2)] zgood_zscore_wf [OF good] by blast
  have "(p, i) \<le> (aj_prio c, k)" if "m k = Some c" "aj_queue c = q" "aj_loc c = Ready" for k c
  proof -
    have "zscore (zset_at d (readyKey q)) k = Some (aj_prio c)"
      using refines_ready_iff [OF assms(1,2)] refines_wf [OF assms(1) that(1)] that by blast
    then show ?thesis using zset_ok_min [OF zgood_zset_ok [OF good [unfolded z]]] z by simp
  qed
  with a show ?thesis by (auto simp: is_next_def)
qed

lemma Dequeue_follows:
  assumes "refines d m" and "wf_queue q"
  shows "follows m (snd (Dequeue redis_doc NoFault now q w d))"
proof (cases "lookup d (pausedKey q) = None \<and> (\<exists>j. at_loc m q j (\<lambda>l. l = Ready))")
  case True
  then obtain i where i: "is_next m q i" using is_next_exists [OF assms] by blast
  then obtain a where "m i = Some a" by (auto simp: is_next_def)
  then show ?thesis using Dequeue_refines [OF assms _ i] True i
    by (metis snd_conv followsI astep.a_dequeue)
next
  case False
  then have "Dequeue redis_doc NoFault now q w d = (Inr None, d)"
    using run_Dequeue_paused Dequeue_none [OF assms] by blast
  then show ?thesis using assms(1) follows_same by simp
qed

lemma RetryDead_follows:
  assumes "refines d m" and "wf_queue q" and "wf_id i"
  shows "follows m (snd (RetryDead redis_doc NoFault q i d))"
proof (cases "at_loc m q i (\<lambda>l. l = Dead)")
  case True
  then obtain a where "m i = Some a" "aj_queue a = q" "aj_loc a = Dead" by (auto simp: at_loc_def)
  with RetryDead_refines [OF assms(1)] True show ?thesis by (metis snd_conv followsI astep.a_retry)
next
  case False
  then show ?thesis using RetryDead_missing [OF assms] by (metis snd_conv follows_same)
qed

lemma held_follows:
  assumes "refines d m" and "holds d q i"
  shows "follows m (snd (Ack redis_doc NoFault now q i w d))"
    "follows m (snd (Nack redis_doc NoFault now q i w err b sk d))"
    "follows m (snd (RescheduleJob redis_doc NoFault q i w t d))"
    "follows m (snd (CancelJob redis_doc NoFault now q i w r d))"
proof -
  obtain a e where a: "m i = Some a" "aj_queue a = q" "aj_loc a = Active e" "at_loc m q i is_active"
    using holds_active [OF assms] .
  show "follows m (snd (Ack redis_doc NoFault now q i w d))"
    using Ack_refines [OF assms(1) a(1-3)] a(4) by (metis snd_conv followsI astep.a_ack)
  show "follows m (snd (Nack redis_doc NoFault now q i w err b sk d))"
    using Nack_refines [OF assms(1) a(1-3)] a(4) by (metis snd_conv followsI astep.a_nack)
  show "follows m (snd (RescheduleJob redis_doc NoFault q i w t d))"
    using RescheduleJob_refines [OF assms(1) a(1-3)] a(4) by (metis snd_conv followsI astep.a_reschedule)
  show "follows m (snd (CancelJob redis_doc NoFault now q i w r d))"
    using CancelJob_refines [OF assms(1) a(1-3)] a(4) by (metis snd_conv followsI astep.a_cancel)
qed

lemma sweep_follows:
  assumes "refines d m" and "wf_queue q"
  shows "follows m (snd (Promote redis_doc NoFault now q limit d))"
    "follows m (snd (RecoverExpiredLeases redis_doc NoFault now q limit d))"
    "follows m (snd (PurgeDead redis_doc NoFault q d))"
    "follows m (snd (ExtendLease redis_doc NoFault t q i ext d))"
proof -
  show "follows m (snd (Promote redis_doc NoFault now q limit d))"
    using Promote_refines [OF assms] by (metis snd_conv followsI astep.a_promote)
  show "follows m (snd (RecoverExpiredLeases redis_doc NoFault now q limit d))"
    using Recover_refines [OF assms] by (metis snd_conv followsI astep.a_recover)
  show "follows m (snd (PurgeDead redis_doc NoFault q d))"
    using PurgeDead_refines [OF assms] by (metis snd_conv followsI astep.a_purge)
  show "follows m (snd (ExtendLease redis_doc NoFault t q i ext d))"
    using ExtendLease_refines [OF assms, of t i ext]
    by (auto intro: followsI astep.a_extend follows_same split: if_splits)
qed

lemma frame_follows:
  assumes "refines d m"
  shows "follows m (snd (Heartbeat redis_doc NoFault now w d))"
    "follows m (snd (DeregisterWorker redis_doc NoFault w d))"
    "wf_queue q \<Longrightarrow> follows m (snd (Pause redis_doc NoFault q d))"
    "wf_queue q \<Longrightarrow> follows m (snd (Resume redis_doc NoFault q d))"
    "follows m (snd (SetResult redis_doc NoFault i v ttl d))"
  using frame_refines [OF assms] by (metis snd_conv follows_same)+

lemmas op_follows = Enqueue_follows Dequeue_follows held_follows sweep_follows RetryDead_follows
  frame_follows

context redis_server
begin

lemma qstep_simulation:
  assumes "qstep exec view s s'" and "refines (view s) m" and "persistent (view s)"
  shows "follows m (view s') \<and> persistent (view s')"
  using assms
proof (induction rule: qstep.induct)
  case (q_tick s t s')
  then show ?case by (auto intro: follows_same refines_tick)
qed (simp only: queue_sim [THEN sim_snd], rule conjI,
  metis queue_fault op_follows follows_same, metis queue_keeps keepsD)+

lemma qsteps_simulation:
  assumes "(qstep exec view)\<^sup>*\<^sup>* s s'" and "refines (view s) m" and "persistent (view s)"
  shows "\<exists>m'. asteps m m' \<and> refines (view s') m' \<and> persistent (view s')"
  using assms(1)
proof (induction rule: rtranclp_induct)
  case base
  then show ?case using assms(2,3) by blast
next
  case (step s1 s2)
  then obtain m1 where "asteps m m1" "refines (view s1) m1" "persistent (view s1)" by blast
  with qstep_simulation [OF step(2)] show ?case
    unfolding follows_def by (metis rtranclp.rtrancl_into_rtrancl)
qed

end

section \<open>Reachable states\<close>

definition reachable :: "'s server \<Rightarrow> ('s \<Rightarrow> dataset) \<Rightarrow> 's \<Rightarrow> bool" where
  "reachable exec view s \<longleftrightarrow> (\<exists>s0. db (view s0) = Map.empty \<and> (qstep exec view)\<^sup>*\<^sup>* s0 s)"

lemma lookup_empty: "db d = Map.empty \<Longrightarrow> lookup d k = None"
  by (simp add: lookup_def live_def)

lemma refines_empty:
  assumes "db d = Map.empty"
  shows "refines d Map.empty" "persistent d"
proof -
  note at = lookup_empty [OF assms] hash_at_def set_at_def zset_at_def list_at_def has_type_def
  have "shape d"
    by (intro shapeI) (simp_all add: shape_queue_def at zgood_def zset_ok_def sgood_def counters_ok_def hash_int_def)
  then show "refines d Map.empty"
    by (simp add: refines_def shows_job_def absent_def jview_of_def at zscore_def fun_eq_iff)
  show "persistent d" using assms by (simp add: persistent_def)
qed

lemma reachable_refines:
  assumes "redis_server exec view" and "reachable exec view s"
  obtains m where "asteps Map.empty m" "refines (view s) m" "persistent (view s)"
  using assms(2) redis_server.qsteps_simulation [OF assms(1)] refines_empty
  unfolding reachable_def by metis

lemma reachable_step: "reachable exec view s \<Longrightarrow> qstep exec view s s' \<Longrightarrow> reachable exec view s'"
  unfolding reachable_def by (metis rtranclp.rtrancl_into_rtrancl)

text \<open>
  The operations as the scripts accept them: \<open>Ack\<close>, \<open>Nack\<close>, \<open>RescheduleJob\<close> and \<open>CancelJob\<close> name any job,
  active or not. Such a call settles the job it names, and the label of the step says which; \<open>fresh\<close>
  is the condition on new jobs, whose identifiers are random.
\<close>

datatype qlabel = Settle string string | Unpause string | OtherOp

inductive qop :: "'s server \<Rightarrow> ('s \<Rightarrow> dataset) \<Rightarrow> qlabel \<Rightarrow> 's \<Rightarrow> 's \<Rightarrow> bool" for exec view where
  op_ack: "qop exec view (Settle q i) s (snd (Ack exec flt now q i w s))"
| op_nack: "qop exec view (Settle q i) s (snd (Nack exec flt now q i w err backoff skip s))"
| op_reschedule: "qop exec view (Settle q i) s (snd (RescheduleJob exec flt q i w t s))"
| op_cancel: "qop exec view (Settle q i) s (snd (CancelJob exec flt now q i w reason s))"
| op_enqueue: "fresh (view s) job \<Longrightarrow> qop exec view OtherOp s (snd (Enqueue exec flt job uk period s))"
| op_dequeue: "wf_queue q \<Longrightarrow> qop exec view OtherOp s (snd (Dequeue exec flt now q w s))"
| op_promote: "wf_queue q \<Longrightarrow> qop exec view OtherOp s (snd (Promote exec flt now q limit s))"
| op_extend: "wf_queue q \<Longrightarrow> qop exec view OtherOp s (snd (ExtendLease exec flt t q i ext s))"
| op_recover: "wf_queue q \<Longrightarrow> qop exec view OtherOp s (snd (RecoverExpiredLeases exec flt now q limit s))"
| op_retry: "wf_queue q \<Longrightarrow> wf_id i \<Longrightarrow> qop exec view OtherOp s (snd (RetryDead exec flt q i s))"
| op_purge: "wf_queue q \<Longrightarrow> qop exec view OtherOp s (snd (PurgeDead exec flt q s))"
| op_heartbeat: "qop exec view OtherOp s (snd (Heartbeat exec flt now w s))"
| op_deregister: "qop exec view OtherOp s (snd (DeregisterWorker exec flt w s))"
| op_pause: "wf_queue q \<Longrightarrow> qop exec view OtherOp s (snd (Pause exec flt q s))"
| op_resume: "wf_queue q \<Longrightarrow> qop exec view (Unpause q) s (snd (Resume exec flt q s))"
| op_result: "qop exec view OtherOp s (snd (SetResult exec flt i data ttl s))"
| op_tick: "clock (view s) \<le> t \<Longrightarrow> view s' = tick t (view s) \<Longrightarrow> qop exec view OtherOp s s'"

text \<open>A run of operations, with the state and the job of every call that settles one.\<close>

fun settle_log :: "'s \<Rightarrow> qlabel \<Rightarrow> ('s \<times> string \<times> string) list" where
  "settle_log s (Settle q i) = [(s, q, i)]"
| "settle_log s _ = []"

inductive qrun :: "'s server \<Rightarrow> ('s \<Rightarrow> dataset) \<Rightarrow> ('s \<times> string \<times> string) list \<Rightarrow> 's \<Rightarrow> 's \<Rightarrow> bool" for exec view where
  run_none: "qrun exec view [] s s"
| run_op: "qrun exec view xs s s1 \<Longrightarrow> qop exec view x s1 s2 \<Longrightarrow> qrun exec view (settle_log s1 x @ xs) s s2"

text \<open>Every job was in the active set of its queue when it was settled.\<close>

definition timely :: "('s \<Rightarrow> dataset) \<Rightarrow> ('s \<times> string \<times> string) list \<Rightarrow> bool" where
  "timely view xs \<longleftrightarrow> (\<forall>(s, q, i)\<in>set xs. holds (view s) q i)"

lemma timely_simps [simp]:
  "timely view []" "timely view ((s, q, i) # xs) \<longleftrightarrow> holds (view s) q i \<and> timely view xs"
  "timely view (xs @ ys) \<longleftrightarrow> timely view xs \<and> timely view ys"
  by (simp_all add: timely_def ball_Un)

lemma qop_qstep:
  assumes "qop exec view x s s'" "timely view (settle_log s x)"
  shows "qstep exec view s s'"
  using assms by (cases rule: qop.cases) (auto intro: qstep.intros)

lemma qrun_reachable: "qrun exec view xs s0 s \<Longrightarrow> db (view s0) = Map.empty \<Longrightarrow> timely view xs \<Longrightarrow> reachable exec view s"
proof (induction rule: qrun.induct)
  case (run_none s)
  then show ?case unfolding reachable_def by blast
next
  case (run_op xs s s1 x s2)
  then show ?case using reachable_step [OF _ qop_qstep [OF run_op(2)]] by simp
qed

lemma asteps_attempts: "asteps Map.empty m \<Longrightarrow> m i = Some a \<Longrightarrow> attempts_ok a"
proof (induction arbitrary: i a rule: rtranclp_induct)
  case (step m' m'')
  then show ?case using astep_attempts [OF step(2)] by blast
qed simp

end
