(* ===== verification/Queue_Props.thy ===== *)
theory Queue_Props
  imports Queue_Safety
begin

text \<open>
  The properties of the queue component, for every server that behaves as documented. Each is
  proved on the logical dataset and carried over by the simulation of the operations.
\<close>

section \<open>Observations on the stored data\<close>

definition job_field :: "dataset \<Rightarrow> string \<Rightarrow> string \<Rightarrow> string option" where
  "job_field d i f = map_of (hash_at d (jobKey i)) f"

text \<open>How often the structures of a queue that schedule work name a job.\<close>

definition occurrences :: "dataset \<Rightarrow> string \<Rightarrow> string \<Rightarrow> nat" where
  "occurrences d q i =
     (if zscore (zset_at d (readyKey q)) i = None then 0 else 1) +
     (if zscore (zset_at d (delayedKey q)) i = None then 0 else 1) +
     (if i \<in> set (set_at d (activeKey q)) then 1 else 0) +
     count_list (list_at d (deadKey q)) i"

lemma job_field_jview: "job_field d i = jv_hash (jview_of d i)"
  by (simp add: job_field_def jview_of_sel fun_eq_iff)

lemma job_field_absent: "refines d m \<Longrightarrow> wf_id i \<Longrightarrow> m i = None \<Longrightarrow> job_field d i f = None"
  using refines_absent by (simp add: job_field_jview absent_def)

lemma job_field_stored:
  assumes "refines d m" and "m i = Some a"
  shows "job_field d i ''id'' = Some i" "job_field d i ''kind'' = Some (aj_kind a)"
    "job_field d i ''queue'' = Some (aj_queue a)" "job_field d i ''priority'' = Some (itoa (aj_prio a))"
    "job_field d i ''payload'' = Some (aj_payload a)" "job_field d i ''workflow_id'' = Some (aj_workflow a)"
    "job_field d i ''unique_key'' = Some (aj_unique a)" "job_field d i ''max_retries'' = Some (itoa (aj_max a))"
    "job_field d i ''attempt'' = Some (itoa (aj_attempt a))" "job_field d i ''state'' = Some (aj_state a)"
  using refinesD [OF assms] by (auto simp: represents_def job_field_jview hash_of_def)

lemma job_stored_iff: "refines d m \<Longrightarrow> wf_id i \<Longrightarrow> job_field d i ''id'' = None \<longleftrightarrow> m i = None"
  using job_field_absent job_field_stored(1) by (cases "m i") auto

lemma state_loc:
  assumes "refines d m" and "m i = Some a"
  shows "aj_state a \<in> set (states_of (aj_loc a))"
  using refinesD [OF assms] by (simp add: represents_def)

lemma occurrences_jview:
  "wf_queue q \<Longrightarrow> occurrences d q i =
     (if jv_ready (jview_of d i) q = None then 0 else 1) + (if jv_delayed (jview_of d i) q = None then 0 else 1) +
     (if jv_active (jview_of d i) q then 1 else 0) + jv_dead (jview_of d i) q"
  by (simp add: occurrences_def jview_of_sel)

definition unfinished :: "string option \<Rightarrow> bool" where
  "unfinished st \<longleftrightarrow> st \<in> {Some ''pending'', Some ''active'', Some ''retry'', Some ''dead''}"

definition one_place :: "dataset \<Rightarrow> string \<Rightarrow> string \<Rightarrow> bool" where
  "one_place d q i \<longleftrightarrow>
     (let mine = (job_field d i ''queue'' = Some q); st = job_field d i ''state'' in
      occurrences d q i = (if mine \<and> unfinished st then 1 else 0) \<and>
      (i \<in> set (set_at d (activeKey q)) \<longleftrightarrow> mine \<and> st = Some ''active'') \<and>
      (zscore (zset_at d (leaseKey q)) i \<noteq> None \<longleftrightarrow> mine \<and> st = Some ''active'') \<and>
      (i \<in> set (list_at d (deadKey q)) \<longleftrightarrow> mine \<and> st = Some ''dead''))"

lemma refines_one_place:
  assumes "refines d m" and "wf_id i" and "wf_queue q"
  shows "one_place d q i"
proof (cases "m i")
  case None
  have v: "jview_of d i = absent" using refines_absent [OF assms(1,2) None] .
  have "count_list (list_at d (deadKey q)) i = 0" using v assms(3) by (simp add: jview_of_sel(6) [symmetric] absent_def)
  moreover have "i \<notin> set (set_at d (activeKey q))" "zscore (zset_at d (leaseKey q)) i = None"
    using v assms(3) by (simp_all add: jview_of_sel(4,5) [symmetric] absent_def)
  ultimately show ?thesis using v assms(3) job_field_absent [OF assms(1,2) None]
    by (simp add: one_place_def occurrences_jview absent_def unfinished_def count_list_0_iff)
next
  case (Some a)
  note r = refinesD [OF assms(1) Some, THEN conjunct2]
  have dead: "count_list (list_at d (deadKey q)) i = jv_dead (jview_of d i) q"
    and act: "i \<in> set (set_at d (activeKey q)) \<longleftrightarrow> jv_active (jview_of d i) q"
    and lease: "zscore (zset_at d (leaseKey q)) i = jv_lease (jview_of d i) q"
    using assms(3) by (simp_all add: jview_of_sel)
  have inl: "i \<in> set (list_at d (deadKey q)) \<longleftrightarrow> jv_dead (jview_of d i) q \<noteq> 0"
    using dead count_list_0_iff [of "list_at d (deadKey q)" i] by auto
  show ?thesis
    unfolding one_place_def act lease inl
    using state_loc [OF assms(1) Some] assms(3)
    by (cases "aj_loc a")
      (auto simp: occurrences_jview represents_sel [OF r] job_field_stored [OF assms(1) Some] unfinished_def)
qed

section \<open>Transport to any server\<close>

lemma sim_result:
  assumes "sim v f g" and "g (v s) = (r, d')"
  obtains s' where "f s = (r, s')" "v s' = d'"
  using assms sim_fst [OF assms(1), of s] sim_snd [OF assms(1), of s] by (metis fst_conv snd_conv prod.collapse)

section \<open>Sample states\<close>

text \<open>A small history used as witness: a job is enqueued, taken and fails.\<close>

definition store0 :: dataset where
  "store0 = \<lparr>db = Map.empty, clock = 1000\<rparr>"

definition mail_job :: JobRecord where
  "mail_job = \<lparr>ID = ''j1'', Kind = ''mail'', Queue = ''default'', Priority = 5, State = ''pending'',
     Payload = ''to:ada'', Attempt = 0, MaxRetries = 3, CreatedAt = 1000, ScheduledAt = 0, StartedAt = 0,
     CompletedAt = 0, LastError = '''', UniqueKey = '''', WorkflowID = ''''\<rparr>"

definition store1 :: dataset where
  "store1 = snd (Enqueue redis_doc NoFault mail_job ''mail:ada'' 60000000000 store0)"

definition store2 :: dataset where
  "store2 = snd (Dequeue redis_doc NoFault 1000 ''default'' ''w1'' store1)"

definition mail_ajob :: ajob where
  "mail_ajob = new_job mail_job (uniqueKey ''mail:ada'')"

lemma sample_names [simp]: "wf_queue ''default''" "wf_id ''j1''" "wf_queue ''low''" "wf_id ''j2''"
  by (simp_all add: wf_queue_def wf_id_def reserved_names_def suffix_def)

lemma mail_job_sel [simp]: "ID mail_job = ''j1''" "Queue mail_job = ''default''" "State mail_job = ''pending''"
  "Kind mail_job = ''mail''" "Priority mail_job = 5" "MaxRetries mail_job = 3" "ScheduledAt mail_job = 0"
  by (simp_all add: mail_job_def)

lemma mail_ajob_sel [simp]: "aj_queue mail_ajob = ''default''" "aj_loc mail_ajob = Ready" "aj_prio mail_ajob = 5"
  "aj_attempt mail_ajob = 0" "aj_max mail_ajob = 3" "aj_unique mail_ajob = uniqueKey ''mail:ada''"
  by (simp_all add: mail_ajob_def new_job_def)

lemma store0_lookup [simp]: "lookup store0 k = None"
  by (simp add: store0_def lookup_empty)

lemma fresh_mail: "fresh store0 mail_job"
  by (simp add: fresh_def)

lemma reach_store0: "reachable redis_doc id store0"
  unfolding reachable_def by (rule exI [of _ store0]) (simp add: store0_def)

lemma reach_store1: "reachable redis_doc id store1"
  using reachable_step [OF reach_store0 qstep.q_enqueue] fresh_mail unfolding store1_def by simp

lemma reach_store2: "reachable redis_doc id store2"
  using reachable_step [OF reach_store1 qstep.q_dequeue] unfolding store2_def by simp

lemma run_store2: "qrun redis_doc id [] store0 store2"
proof -
  have "qop redis_doc id OtherOp store0 store1"
    using qop.op_enqueue [of id store0 mail_job redis_doc] fresh_mail unfolding store1_def by simp
  moreover have "qop redis_doc id OtherOp store1 store2" unfolding store2_def by (rule qop.op_dequeue) simp
  ultimately show ?thesis using qrun.run_op [OF qrun.run_op [OF qrun.run_none]] by fastforce
qed

lemma store0_empty: "db (id store0) = Map.empty"
  by (simp add: store0_def)

lemma refines_store0: "refines store0 Map.empty"
  by (rule refines_empty) (simp add: store0_def)

lemma refines_store1: "refines store1 [''j1'' \<mapsto> mail_ajob]"
  using Enqueue_refines [OF refines_store0, of mail_job "''mail:ada''" 60000000000]
  by (auto simp: store1_def mail_ajob_def lock_key_def)

lemma store1_paused [simp]: "lookup store1 (pausedKey ''default'') = None"
  unfolding store1_def
  by (subst run_Enqueue) (simp_all add: refines_shape [OF refines_store0]
      after_enqueue_def insert_job_def move_defs take_lock_def key_simps)

lemma next_store1: "is_next [''j1'' \<mapsto> mail_ajob] ''default'' ''j1''"
  by (simp add: is_next_def)

lemma refines_store2: "refines store2 [''j1'' \<mapsto> to_active 31000 mail_ajob]"
  using Dequeue_refines [OF refines_store1 _ store1_paused next_store1, of mail_ajob 1000 "''w1''"]
  by (auto simp: store2_def upd_def)

section \<open>Safety of reachable states\<close>

text \<open>
  C1: As long as workers settle only jobs that are still active (the scripts do not check it, and a
  late \<open>Ack\<close> does break this property), every run of queue operations from an empty database, with
  any faults of the connection and any passing of time, leaves each stored job named exactly once
  by the ready, delayed, active and dead structures of its own queue until it is completed or
  cancelled, and by none of any other queue; it is in the active set and has a lease exactly when
  its state is active, and it is in the dead letters exactly when its state is dead.
\<close>

theorem job_in_one_place:
  assumes "redis_server exec view" and "db (view s0) = Map.empty" and "qrun exec view xs s0 s" and "timely view xs"
    and "wf_id i" and "wf_queue q"
  shows "one_place (view s) q i"
proof -
  obtain m where "refines (view s) m" using reachable_refines [OF assms(1) qrun_reachable [OF assms(3,2,4)]] .
  then show ?thesis using assms(5,6) by (rule refines_one_place)
qed

definition store3 :: dataset where
  "store3 = snd (Ack redis_doc NoFault 1500 ''default'' ''j1'' ''w1'' store2)"

lemma holds_store2: "holds store2 ''default'' ''j1''"
  using refines_active_iff [OF refines_store2, of "''default''" "''j1''"] by (simp add: holds_def to_active_def)

lemma run_store3: "qrun redis_doc id [(store2, ''default'', ''j1'')] store0 store3"
  using qrun.run_op [OF run_store2 qop.op_ack] unfolding store3_def by fastforce

theorem job_in_one_place_witness:
  "redis_server redis_doc id \<and> qrun redis_doc id [(store2, ''default'', ''j1'')] store0 store3 \<and>
   one_place (id store3) ''default'' ''j1''"
  using job_in_one_place [OF logical.redis_server_axioms store0_empty run_store3, of "''j1''" "''default''"]
    holds_store2 run_store3 logical.redis_server_axioms by simp

text \<open>
  C2: After a run in which workers settled only jobs that were still active, every operation, with any
  fault, is a step of the abstract job machine or changes no job, if it does not settle a job that
  is no longer active.
\<close>

theorem program_refines_lifecycle:
  assumes "redis_server exec view" and "db (view s0) = Map.empty" and "qrun exec view xs s0 s" and "timely view xs"
    and "qop exec view x s s'" and "timely view (settle_log s x)"
  shows "\<exists>m m'. refines (view s) m \<and> refines (view s') m' \<and> (m' = m \<or> astep m m')"
proof -
  obtain m where m: "refines (view s) m" "persistent (view s)"
    using reachable_refines [OF assms(1) qrun_reachable [OF assms(3,2,4)]] .
  then have "follows m (view s')"
    using redis_server.qstep_simulation [OF assms(1) qop_qstep [OF assms(5,6)]] by blast
  with m(1) show ?thesis unfolding follows_def by blast
qed

theorem program_refines_lifecycle_witness:
  "qop redis_doc id (Settle ''default'' ''j1'') store2 store3 \<and>
   (\<exists>m m'. refines (id store2) m \<and> refines (id store3) m' \<and> (m' = m \<or> astep m m'))"
proof -
  have op: "qop redis_doc id (Settle ''default'' ''j1'') store2 store3" unfolding store3_def by (rule qop.op_ack)
  from program_refines_lifecycle [OF logical.redis_server_axioms store0_empty run_store2 _ op] op holds_store2 show ?thesis by simp
qed

text \<open>
  C10: A job that is completed or cancelled stays so: whatever operations run later, as long as workers settle
  only jobs that are still active, its state and attempt count do not change and no structure of its
  queue schedules it again.
\<close>

theorem finished_jobs_stay_finished:
  assumes "redis_server exec view" and "reachable exec view s" and "(qstep exec view)\<^sup>*\<^sup>* s s'" and "wf_id i"
    and "job_field (view s) i ''state'' \<in> {Some ''completed'', Some ''cancelled''}"
  shows "job_field (view s') i ''state'' = job_field (view s) i ''state'' \<and>
     job_field (view s') i ''attempt'' = job_field (view s) i ''attempt'' \<and>
     (\<forall>q. wf_queue q \<longrightarrow> occurrences (view s') q i = 0)"
proof -
  obtain m where m: "refines (view s) m" "persistent (view s)" using reachable_refines [OF assms(1,2)] .
  obtain m' where m': "asteps m m'" "refines (view s') m'"
    using redis_server.qsteps_simulation [OF assms(1,3) m] by blast
  obtain a where a: "m i = Some a" using assms(5) job_field_absent [OF m(1) assms(4)] by (cases "m i") auto
  have st: "aj_state a \<in> {''completed'', ''cancelled''}"
    using assms(5) job_field_stored(10) [OF m(1) a] by auto
  then have "aj_loc a = Done" using state_loc [OF m(1) a] by (cases "aj_loc a") auto
  then have a': "m' i = Some a" using asteps_Done [OF m'(1) a] by simp
  have "occurrences (view s') q i = 0" if "wf_queue q" for q
    using refines_one_place [OF m'(2) assms(4) that] st job_field_stored(10) [OF m'(2) a']
    by (auto simp: one_place_def Let_def unfinished_def)
  then show ?thesis using job_field_stored(9,10) [OF m(1) a] job_field_stored(9,10) [OF m'(2) a'] by simp
qed

lemma reach_store3: "reachable redis_doc id store3"
  using reachable_step [OF reach_store2 qstep.q_ack] holds_store2 unfolding store3_def by simp

lemma refines_store3: "refines store3 [''j1'' \<mapsto> to_completed (to_active 31000 mail_ajob)]"
  using Ack_refines [OF refines_store2, of "''j1''" _ "''default''" 31000 1500 "''w1''"]
  by (auto simp: store3_def to_active_def upd_def)

theorem finished_jobs_stay_finished_witness:
  "job_field store3 ''j1'' ''state'' = Some ''completed'' \<and>
   occurrences (snd (Dequeue redis_doc NoFault 2000 ''default'' ''w2'' store3)) ''default'' ''j1'' = 0"
proof -
  have st: "job_field store3 ''j1'' ''state'' = Some ''completed''"
    using job_field_stored(10) [OF refines_store3] by (simp add: to_completed_def)
  have "(qstep redis_doc id)\<^sup>*\<^sup>* store3 (snd (Dequeue redis_doc NoFault 2000 ''default'' ''w2'' store3))"
    by (intro r_into_rtranclp qstep.q_dequeue) simp
  from finished_jobs_stay_finished [OF logical.redis_server_axioms reach_store3 this, of "''j1''"] st
  show ?thesis by simp
qed

text \<open>
  A stored job keeps its kind, queue, priority, payload, retry limit, unique key and workflow
  through every operation, and the only operation that removes it is a purge, when it is dead.
\<close>

lemma stored_jobs_keep_identity:
  assumes "redis_server exec view" and "reachable exec view s" and "qstep exec view s s'" and "wf_id i"
    and "job_field (view s) i ''id'' \<noteq> None"
  shows "(if job_field (view s') i ''id'' = None then job_field (view s) i ''state'' = Some ''dead''
     else \<forall>f\<in>{''kind'', ''queue'', ''priority'', ''payload'', ''max_retries'', ''unique_key'', ''workflow_id''}.
       job_field (view s') i f = job_field (view s) i f)"
proof -
  obtain m where m: "refines (view s) m" "persistent (view s)" using reachable_refines [OF assms(1,2)] .
  obtain m' where m': "refines (view s') m'" "m' = m \<or> astep m m'"
    using redis_server.qstep_simulation [OF assms(1,3) m] by (auto simp: follows_def)
  obtain a where a: "m i = Some a" using assms(5) job_stored_iff [OF m(1) assms(4)] by (cases "m i") auto
  then have step: "job_step a (m' i)" using m'(2) astep_job job_step.j_same by metis
  show ?thesis
  proof (cases "m' i")
    case None
    then have "aj_loc a = Dead" using step job_step_None by simp
    then show ?thesis
      using None job_stored_iff [OF m'(1) assms(4)] state_loc [OF m(1) a] job_field_stored(10) [OF m(1) a] by simp
  next
    case (Some b)
    then have "same_identity a b" using step job_step_identity by simp
    then show ?thesis
      using job_field_stored [OF m(1) a] job_field_stored [OF m'(1) Some] by (simp add: same_identity_def)
  qed
qed

text \<open>
  C11: Retries are bounded: after a run in which workers settled only jobs that were still active, a
  job outside the dead letters has failed less often than its retry limit allows, or not at all.
\<close>

theorem retries_bounded:
  assumes "redis_server exec view" and "db (view s0) = Map.empty" and "qrun exec view xs s0 s" and "timely view xs"
    and "wf_id i" and "job_field (view s) i ''state'' \<noteq> Some ''dead''"
    and "job_field (view s) i ''attempt'' = Some (itoa n)" and "job_field (view s) i ''max_retries'' = Some (itoa mx)"
  shows "0 \<le> n \<and> (n = 0 \<or> n < mx)"
proof -
  obtain m where m: "asteps Map.empty m" "refines (view s) m"
    using reachable_refines [OF assms(1) qrun_reachable [OF assms(3,2,4)]] .
  obtain a where a: "m i = Some a" using assms(7) job_field_absent [OF m(2) assms(5)] by (cases "m i") auto
  have "aj_attempt a = n" "aj_max a = mx"
    using assms(7,8) job_field_stored(8,9) [OF m(2) a] parse_dec_itoa by (metis option.inject)+
  moreover have "aj_loc a \<noteq> Dead"
    using assms(6) state_loc [OF m(2) a] job_field_stored(10) [OF m(2) a] by auto
  ultimately show ?thesis using asteps_attempts [OF m(1) a] by (auto simp: attempts_ok_def)
qed

definition store_failed :: dataset where
  "store_failed = snd (Nack redis_doc NoFault 1500 ''default'' ''j1'' ''w1'' ''timeout'' 1000 False store2)"

lemma run_store_failed: "qrun redis_doc id [(store2, ''default'', ''j1'')] store0 store_failed"
  using qrun.run_op [OF run_store2 qop.op_nack] unfolding store_failed_def by fastforce

lemma refines_store_failed: "refines store_failed [''j1'' \<mapsto> to_failed False 2500 (to_active 31000 mail_ajob)]"
  using Nack_refines [OF refines_store2, of "''j1''" _ "''default''" 31000 1500 "''w1''" "''timeout''" 1000 False]
  by (auto simp: store_failed_def to_active_def upd_def)

theorem retries_bounded_witness:
  "job_field store_failed ''j1'' ''attempt'' = Some (itoa 1) \<and>
   job_field store_failed ''j1'' ''max_retries'' = Some (itoa 3) \<and> (0::int) \<le> 1 \<and> ((1::int) = 0 \<or> (1::int) < 3)"
proof -
  note f = job_field_stored [OF refines_store_failed, of "''j1''", simplified, OF refl]
  have "job_field store_failed ''j1'' ''attempt'' = Some (itoa 1)"
    "job_field store_failed ''j1'' ''max_retries'' = Some (itoa 3)"
    "job_field store_failed ''j1'' ''state'' \<noteq> Some ''dead''"
    using f by (simp_all add: to_active_def to_failed_def exhausted_def)
  with retries_bounded [OF logical.redis_server_axioms store0_empty run_store_failed, of "''j1''" 1 3] holds_store2
  show ?thesis by simp
qed

end
