(* ===== verification/Queue_Contracts.thy ===== *)
theory Queue_Contracts
  imports Queue_Props
begin

text \<open>
  What the queue promises to its clients, as an interface: the operations on a state that holds
  an abstract queue, and what each does to it. The clients (the server's job processing, the cron
  scheduler, the workflow manager, the gRPC service) rely on these laws only. Every Redis server
  that behaves as documented provides them.
\<close>

section \<open>The interface\<close>

locale job_queue =
  fixes queue_of :: "'s \<Rightarrow> astate \<Rightarrow> bool"
    and paused :: "'s \<Rightarrow> string \<Rightarrow> bool"
    and enqueue :: "JobRecord \<Rightarrow> 's \<Rightarrow> (qerr + unit) \<times> 's"
    and dequeue :: "int \<Rightarrow> string \<Rightarrow> string \<Rightarrow> 's \<Rightarrow> (qerr + JobRecord option) \<times> 's"
    and ack :: "int \<Rightarrow> string \<Rightarrow> string \<Rightarrow> string \<Rightarrow> 's \<Rightarrow> (qerr + unit) \<times> 's"
    and nack :: "int \<Rightarrow> string \<Rightarrow> string \<Rightarrow> string \<Rightarrow> string \<Rightarrow> int \<Rightarrow> bool \<Rightarrow> 's \<Rightarrow> (qerr + string) \<times> 's"
    and reschedule :: "string \<Rightarrow> string \<Rightarrow> string \<Rightarrow> int \<Rightarrow> 's \<Rightarrow> (qerr + unit) \<times> 's"
    and cancel :: "int \<Rightarrow> string \<Rightarrow> string \<Rightarrow> string \<Rightarrow> string \<Rightarrow> 's \<Rightarrow> (qerr + unit) \<times> 's"
    and promote :: "int \<Rightarrow> string \<Rightarrow> int \<Rightarrow> 's \<Rightarrow> (qerr + int) \<times> 's"
  assumes enqueue_law:
      "queue_of s m \<Longrightarrow> wf_id (ID job) \<Longrightarrow> wf_queue (Queue job) \<Longrightarrow> m (ID job) = None \<Longrightarrow>
       State job = ''pending'' \<Longrightarrow>
       \<exists>s'. enqueue job s = (Inr (), s') \<and> queue_of s' (m(ID job \<mapsto> new_job job '''')) \<and>
         (\<forall>q. wf_queue q \<longrightarrow> paused s' q = paused s q)"
    and dequeue_law:
      "queue_of s m \<Longrightarrow> wf_queue q \<Longrightarrow> \<not> paused s q \<Longrightarrow> is_next m q i \<Longrightarrow> m i = Some a \<Longrightarrow>
       \<exists>rec s'. dequeue now q w s = (Inr (Some rec), s') \<and> queue_of s' (upd i (to_active (now + 30000)) m) \<and>
         (int64_job a \<longrightarrow> describes rec i (to_active (now + 30000) a))"
    and dequeue_empty_law:
      "queue_of s m \<Longrightarrow> wf_queue q \<Longrightarrow> paused s q \<or> (\<forall>i. \<not> at_loc m q i (\<lambda>l. l = Ready)) \<Longrightarrow>
       dequeue now q w s = (Inr None, snd (dequeue now q w s)) \<and> queue_of (snd (dequeue now q w s)) m"
    and ack_law:
      "queue_of s m \<Longrightarrow> at_loc m q i is_active \<Longrightarrow>
       \<exists>s'. ack now q i w s = (Inr (), s') \<and> queue_of s' (upd i to_completed m)"
    and nack_law:
      "queue_of s m \<Longrightarrow> m i = Some a \<Longrightarrow> at_loc m q i is_active \<Longrightarrow>
       \<exists>s'. nack now q i w err backoff skip s = (Inr (if exhausted skip a then ''dead'' else ''retry''), s') \<and>
         queue_of s' (upd i (to_failed skip (now + backoff)) m)"
    and reschedule_law:
      "queue_of s m \<Longrightarrow> at_loc m q i is_active \<Longrightarrow>
       \<exists>s'. reschedule q i w t s = (Inr (), s') \<and> queue_of s' (upd i (to_delayed (unixMilli t)) m)"
    and cancel_law:
      "queue_of s m \<Longrightarrow> at_loc m q i is_active \<Longrightarrow>
       \<exists>s'. cancel now q i w reason s = (Inr (), s') \<and> queue_of s' (upd i to_cancelled m)"
    and promote_law:
      "queue_of s m \<Longrightarrow> wf_queue q \<Longrightarrow>
       \<exists>ids s'. selects (due_time m q) now limit ids \<and> promote now q limit s = (Inr (int (length ids)), s') \<and>
         queue_of s' (fold (\<lambda>i. upd i to_ready) ids m)"
begin

text \<open>A job put into an empty queue is the one the next dequeue returns.\<close>

lemma enqueue_dequeue:
  assumes "queue_of s m" "wf_id (ID job)" "wf_queue (Queue job)" "m (ID job) = None" "State job = ''pending''"
    and "ScheduledAt job \<le> 0" and "\<And>i. \<not> at_loc m (Queue job) i (\<lambda>l. l = Ready)"
    and "\<not> paused s (Queue job)" and "int64 (Priority job)" and "int64 (MaxRetries job)"
  shows "\<exists>s' s'' rec. enqueue job s = (Inr (), s') \<and> dequeue now (Queue job) w s' = (Inr (Some rec), s'') \<and>
     ID rec = ID job \<and> Kind rec = Kind job \<and> Payload rec = Payload job \<and> Attempt rec = 0"
proof -
  let ?a = "new_job job ''''" and ?m = "m(ID job \<mapsto> new_job job '''')"
  obtain s' where s': "enqueue job s = (Inr (), s')" "queue_of s' ?m" "\<not> paused s' (Queue job)"
    using enqueue_law assms(1-5,8) by blast
  have "is_next ?m (Queue job) (ID job)"
    using assms(6,7) unfolding is_next_def at_loc_def new_job_def by auto
  moreover have "int64_job ?a"
    using assms(9,10) by (simp add: int64_job_def new_job_def int64_def min_int64_def max_int64_def)
  ultimately obtain rec s'' where "dequeue now (Queue job) w s' = (Inr (Some rec), s'')"
    "describes rec (ID job) (to_active (now + 30000) ?a)"
    using dequeue_law [OF s'(2) assms(3) s'(3), of "ID job" ?a now w] by auto
  with s'(1) show ?thesis by (auto simp: describes_def to_active_def new_job_def)
qed

text \<open>
  The worker's cycle: a job that is taken and then fails with retries left is delayed by its
  backoff, and a promotion at its due time makes it ready again with one more attempt.
\<close>

lemma nack_promote:
  assumes "queue_of s m" "m i = Some a" "at_loc m q i is_active" "wf_queue q" "\<not> exhausted skip a"
    and "now + backoff \<le> later"
  shows "\<exists>s' s'' m'' n. nack now q i w err backoff skip s = (Inr ''retry'', s') \<and>
     promote later q (- 1) s' = (Inr n, s'') \<and> queue_of s'' m'' \<and> 1 \<le> n \<and>
     m'' i = Some (a\<lparr>aj_loc := Ready, aj_state := ''pending'', aj_attempt := aj_attempt a + 1\<rparr>)"
proof -
  let ?b = "to_failed skip (now + backoff) a" and ?m = "upd i (to_failed skip (now + backoff)) m"
  obtain s' where s': "nack now q i w err backoff skip s = (Inr ''retry'', s')" "queue_of s' ?m"
    using nack_law [OF assms(1-3), of now w err backoff skip] assms(5) by auto
  obtain ids s'' where sel: "selects (due_time ?m q) later (- 1) ids"
    and p: "promote later q (- 1) s' = (Inr (int (length ids)), s'')"
    and m'': "queue_of s'' (fold (\<lambda>i. upd i to_ready) ids ?m)"
    using promote_law [OF s'(2) assms(4)] by blast
  have "aj_queue a = q" using assms(2,3) by (auto simp: at_loc_def)
  then have due: "due_time ?m q i = Some (now + backoff)"
    using assms(2,5) by (simp add: due_time_Some upd_def to_failed_def)
  then have i: "i \<in> set ids" using sel assms(6) unfolding selects_def by auto
  then have "1 \<le> int (length ids)" by (cases ids) auto
  moreover have "fold (\<lambda>i. upd i to_ready) ids ?m i = Some (to_ready ?b)"
    using i assms(2) by (simp add: fold_upd [OF selects_distinct [OF sel]] upd_def)
  moreover have "to_ready ?b = a\<lparr>aj_loc := Ready, aj_state := ''pending'', aj_attempt := aj_attempt a + 1\<rparr>"
    using assms(5) by (simp add: to_ready_def to_failed_def)
  ultimately show ?thesis using s'(1) p m'' by metis
qed

end

section \<open>Redis provides it\<close>

definition is_paused :: "('s \<Rightarrow> dataset) \<Rightarrow> 's \<Rightarrow> string \<Rightarrow> bool" where
  "is_paused view s q \<longleftrightarrow> lookup (view s) (pausedKey q) \<noteq> None"

lemma after_enqueue_paused:
  "wf_queue q \<Longrightarrow> wf_queue (Queue job) \<Longrightarrow>
   lookup (after_enqueue job uk p d) (pausedKey q) = lookup d (pausedKey q)"
  by (simp add: after_enqueue_def insert_job_def move_defs take_lock_def key_simps)

lemma at_loc_activeE:
  assumes "at_loc m q i is_active"
  obtains a t where "m i = Some a" "aj_queue a = q" "aj_loc a = Active t"
  using assms by (auto simp: at_loc_def)

lemma lock_key_none [simp]: "lock_key '''' 0 = ''''" "\<not> takes_lock '''' 0"
  by (simp_all add: lock_key_def takes_lock_def)

sublocale redis_server \<subseteq> q: job_queue "\<lambda>s m. refines (view s) m" "is_paused view"
  "\<lambda>job. Enqueue exec NoFault job '''' 0" "Dequeue exec NoFault" "Ack exec NoFault" "Nack exec NoFault"
  "RescheduleJob exec NoFault" "CancelJob exec NoFault" "Promote exec NoFault"
proof (unfold_locales, goal_cases)
  case (1 s m job)
  let ?d = "after_enqueue job '''' 0 (view s)"
  have run: "Enqueue redis_doc NoFault job '''' 0 (view s) = (Inr (), ?d)"
    using 1 by (intro run_Enqueue) simp_all
  moreover have "refines ?d (m(ID job \<mapsto> new_job job ''''))"
    using Enqueue_refines [of "view s" m job "''''" 0] 1 run by simp
  ultimately show ?case using sim_result [OF sim_Enqueue] 1(3)
    by (metis is_paused_def after_enqueue_paused)
next
  case (2 s m q i a now w)
  then show ?case using Dequeue_refines [of "view s" m q i a now w] sim_result [OF sim_Dequeue]
    by (metis is_paused_def)
next
  case (3 s m q now w)
  then have "Dequeue redis_doc NoFault now q w (view s) = (Inr None, view s)"
    using Dequeue_none run_Dequeue_paused by (metis is_paused_def)
  then show ?case using 3 sim_fst [OF sim_Dequeue] sim_snd [OF sim_Dequeue] by (metis fst_conv snd_conv prod.collapse)
next
  case (4 s m q i now w)
  then show ?case using Ack_refines [of "view s" m] sim_result [OF sim_Ack] at_loc_activeE by metis
next
  case (5 s m i a q now w err backoff skip)
  obtain t where "aj_queue a = q" "aj_loc a = Active t" using 5(2,3) by (auto elim: at_loc_activeE)
  then obtain d' where "Nack redis_doc NoFault now q i w err backoff skip (view s) =
      (Inr (if exhausted skip a then ''dead'' else ''retry''), d')"
    "refines d' (upd i (to_failed skip (now + backoff)) m)"
    using Nack_refines [OF 5(1,2)] by blast
  then show ?case using sim_result [OF sim_Nack] by metis
next
  case (6 s m q i w t)
  then show ?case using RescheduleJob_refines [of "view s" m] sim_result [OF sim_RescheduleJob] at_loc_activeE by metis
next
  case (7 s m q i now w reason)
  then show ?case using CancelJob_refines [of "view s" m] sim_result [OF sim_CancelJob] at_loc_activeE by metis
next
  case (8 s m q now limit)
  then show ?case using Promote_refines [of "view s" m q now limit] sim_result [OF sim_Promote] by metis
qed

context redis_server
begin

lemmas enqueue_contract = q.enqueue_law

lemmas dequeue_contract = q.dequeue_law

lemmas nack_contract = q.nack_law

lemmas enqueue_dequeue_contract = q.enqueue_dequeue

lemmas nack_promote_contract = q.nack_promote

end

section \<open>Properties of the operations\<close>

text \<open>
  C3: Dequeue takes the ready job with the least priority value, ties broken by the identifier: it
  becomes active with a lease of 30 seconds and no other job changes; the record returned to the
  worker has exactly the stored fields (for numbers in the range of a Go int).
\<close>

theorem Dequeue_takes_most_urgent:
  assumes "redis_server exec view" "refines (view s) m" "wf_queue q" "lookup (view s) (pausedKey q) = None"
    and "is_next m q i" "m i = Some a" "int64_job a"
  shows "\<exists>rec s'. Dequeue exec NoFault now q w s = (Inr (Some rec), s') \<and>
     refines (view s') (m(i \<mapsto> to_active (now + 30000) a)) \<and> describes rec i (to_active (now + 30000) a)"
proof -
  obtain rec d' where "Dequeue redis_doc NoFault now q w (view s) = (Inr (Some rec), d')"
    "refines d' (m(i \<mapsto> to_active (now + 30000) a))" "describes rec i (to_active (now + 30000) a)"
    using Dequeue_refines [OF assms(2-6), of now w] assms(6,7) by (auto simp: upd_def)
  then show ?thesis using sim_result [OF redis_server.sim_Dequeue [OF assms(1)]] by metis
qed

theorem Dequeue_takes_most_urgent_witness:
  "\<exists>rec s'. Dequeue redis_doc NoFault 1000 ''default'' ''w1'' store1 = (Inr (Some rec), s') \<and>
     refines (id s') ([''j1'' \<mapsto> mail_ajob](''j1'' \<mapsto> to_active (1000 + 30000) mail_ajob)) \<and>
     describes rec ''j1'' (to_active (1000 + 30000) mail_ajob)"
proof -
  have "int64_job mail_ajob" by (simp add: int64_job_def int64_def min_int64_def max_int64_def)
  then show ?thesis
    using Dequeue_takes_most_urgent [OF logical.redis_server_axioms, of store1 "[''j1'' \<mapsto> mail_ajob]"
        "''default''" "''j1''" mail_ajob 1000 "''w1''"] refines_store1 next_store1 by simp
qed

text \<open>
  A queue gives out nothing exactly when it is paused or has no ready job, and then nothing changes.
\<close>

lemma Dequeue_empty_iff:
  assumes "redis_server exec view" "refines (view s) m" "wf_queue q"
  shows "if is_paused view s q \<or> (\<forall>i. \<not> at_loc m q i (\<lambda>l. l = Ready))
     then fst (Dequeue exec NoFault now q w s) = Inr None \<and> view (snd (Dequeue exec NoFault now q w s)) = view s
     else \<exists>rec. fst (Dequeue exec NoFault now q w s) = Inr (Some rec)"
proof -
  note sim = sim_fst [OF redis_server.sim_Dequeue [OF assms(1)]] sim_snd [OF redis_server.sim_Dequeue [OF assms(1)]]
  show ?thesis
  proof (cases "is_paused view s q \<or> (\<forall>i. \<not> at_loc m q i (\<lambda>l. l = Ready))")
    case True
    then have "Dequeue redis_doc NoFault now q w (view s) = (Inr None, view s)"
      using Dequeue_none [OF assms(2,3)] run_Dequeue_paused by (metis is_paused_def)
    with True show ?thesis by (simp add: sim)
  next
    case False
    then obtain i where i: "is_next m q i" using is_next_exists [OF assms(2,3)] by blast
    then obtain a where "m i = Some a" by (auto simp: is_next_def)
    then obtain rec d' where "Dequeue redis_doc NoFault now q w (view s) = (Inr (Some rec), d')"
      using Dequeue_refines [OF assms(2,3) _ i, of a now w] False by (auto simp: is_paused_def)
    with False show ?thesis by (auto simp: sim)
  qed
qed

theorem Dequeue_empty_iff_witness:
  "fst (Dequeue redis_doc NoFault 1000 ''default'' ''w1'' store0) = Inr None"
  using Dequeue_empty_iff [OF logical.redis_server_axioms, of store0 Map.empty "''default''" 1000 "''w1''"] refines_store0
  by (simp add: at_loc_def)

text \<open>
  C5: A failed job goes to the dead letters when the worker asks to skip retries or this was its
  last allowed attempt; otherwise it waits in the delayed set until now plus its backoff. The
  attempt is counted, its lease and its active entry are gone, and the reply says which.
\<close>

theorem Nack_retries_or_buries:
  assumes "redis_server exec view" "refines (view s) m" "m i = Some a" "at_loc m q i is_active"
  shows "\<exists>s'. Nack exec NoFault now q i w err backoff skip s =
      (Inr (if skip \<or> aj_max a \<le> aj_attempt a + 1 then ''dead'' else ''retry''), s') \<and>
    refines (view s') (m(i \<mapsto> a\<lparr>aj_attempt := aj_attempt a + 1,
      aj_loc := (if skip \<or> aj_max a \<le> aj_attempt a + 1 then Dead else Delayed (now + backoff)),
      aj_state := (if skip \<or> aj_max a \<le> aj_attempt a + 1 then ''dead'' else ''retry'')\<rparr>))"
proof -
  let ?b = "a\<lparr>aj_attempt := aj_attempt a + 1, aj_loc := (if exhausted skip a then Dead else Delayed (now + backoff)),
      aj_state := (if exhausted skip a then ''dead'' else ''retry'')\<rparr>"
  have "to_failed skip (now + backoff) a = ?b" by (cases a) (simp add: to_failed_def)
  then have "upd i (to_failed skip (now + backoff)) m = m(i \<mapsto> ?b)" using assms(3) by (simp add: upd_def)
  then show ?thesis
    using redis_server.nack_contract [OF assms, of now w err backoff skip] unfolding exhausted_def by simp
qed

theorem Nack_retries_or_buries_witness:
  "\<exists>s'. Nack redis_doc NoFault 1500 ''default'' ''j1'' ''w1'' ''timeout'' 1000 False store2 = (Inr ''retry'', s') \<and>
     refines s' [''j1'' \<mapsto> mail_ajob\<lparr>aj_attempt := 1, aj_loc := Delayed 2500, aj_state := ''retry''\<rparr>]"
proof -
  have "at_loc [''j1'' \<mapsto> to_active 31000 mail_ajob] ''default'' ''j1'' is_active"
    by (simp add: at_loc_def to_active_def)
  from Nack_retries_or_buries [OF logical.redis_server_axioms _ _ this, of store2 "to_active 31000 mail_ajob"
      1500 "''w1''" "''timeout''" 1000 False] refines_store2
  show ?thesis by (simp add: to_active_def)
qed

end
