(* ===== verification/Queue_Locks.thy ===== *)
theory Queue_Locks
  imports Queue_Contracts
begin

text \<open>
  The unique locks that deduplicate jobs: how long a lock rejects further jobs with its key, and
  who releases it. The lock lives outside the abstract queue, so its properties are stated on
  the dataset.
\<close>

section \<open>Writes elsewhere keep the lock\<close>

lemma db_write_other [simp]:
  assumes "k' \<noteq> k"
  shows "db (put d k v) k' = db d k'" "db (put_ttl d k v e) k' = db d k'" "db (del d k) k' = db d k'"
    "db (store_hash d k h) k' = db d k'" "db (store_set d k xs) k' = db d k'"
    "db (store_zset d k z) k' = db d k'" "db (store_list d k l) k' = db d k'"
  using assms by (simp_all add: put_def put_ttl_def del_def store_hash_def store_set_def store_zset_def store_list_def)

lemma db_insert_job: "wf_queue (Queue job) \<Longrightarrow> db (insert_job job u d) (uniqueKey k) = db d (uniqueKey k)"
  by (simp add: insert_job_def move_defs key_simps)

lemma clock_insert_job: "clock (insert_job job u d) = clock d"
  by (simp add: insert_job_def move_defs)

lemma db_take_lock: "db (take_lock (uniqueKey k) i secs d) (uniqueKey k) = Some (RString i, Some (clock d + 1000 * secs))"
  by (simp add: take_lock_def put_ttl_def)

lemma db_lock:
  assumes "wf_queue (Queue job)" "takes_lock uk period"
  shows "db (after_enqueue job uk period d) (uniqueKey uk) = Some (RString (ID job), Some (clock d + 1000 * seconds period))"
  using assms by (simp add: after_enqueue_def db_insert_job db_take_lock)

lemma lookup_lock_later:
  assumes "db d' k = Some (v, Some e)"
  shows "lookup d' k = (if clock d' < e then Some v else None)"
  using assms by (simp add: lookup_def live_def)

section \<open>Deduplication\<close>

text \<open>
  C15: A job enqueued with a unique key and a period of at least one second (and less than \<open>2 ^ 23\<close> seconds, 97 days)
  rejects every other job that is enqueued with that key and a period of at least one second, with ErrDuplicate
  and no change, until the whole seconds of its own period have passed, whatever else is done to the queues meanwhile
  that leaves the lock alone (finishing the job releases it); from then on a new job with the key is accepted.
\<close>

theorem Enqueue_deduplicates:
  assumes "redis_server exec view" "refines (view s) m" "fresh (view s) job"
    and "uk \<noteq> ''''" "1000000000 \<le> period" "period < 2 ^ 23 * 1000000000" "lookup (view s) (uniqueKey uk) = None"
    and "Enqueue exec NoFault job uk period s = (r, s1)"
    and "refines (view s2) m2" "db (view s2) (uniqueKey uk) = db (view s1) (uniqueKey uk)"
    and "fresh (view s2) job2" "1000000000 \<le> period2"
  shows "r = Inr () \<and>
     (if clock (view s2) < clock (view s) + 1000 * (period div 1000000000)
      then fst (Enqueue exec NoFault job2 uk period2 s2) = Inl ErrDuplicate \<and>
           view (snd (Enqueue exec NoFault job2 uk period2 s2)) = view s2
      else fst (Enqueue exec NoFault job2 uk period2 s2) = Inr ())"
proof -
  note sim = sim_fst [OF redis_server.sim_Enqueue [OF assms(1)]] sim_snd [OF redis_server.sim_Enqueue [OF assms(1)]]
  have lock: "takes_lock uk period" "takes_lock uk period2" using assms(4,5,12) by (simp_all add: takes_lock_def)
  have run: "Enqueue redis_doc NoFault job uk period (view s) = (Inr (), after_enqueue job uk period (view s))"
    using assms(2,3,7) by (intro run_Enqueue) (auto simp: fresh_def)
  have r: "r = Inr ()" and v1: "view s1 = after_enqueue job uk period (view s)"
    using assms(8) sim [of NoFault job uk period s] run by simp_all
  have secs: "seconds period = period div 1000000000" using assms(5,6) by (intro seconds_exact) simp_all
  have "db (view s2) (uniqueKey uk) = Some (RString (ID job), Some (clock (view s) + 1000 * (period div 1000000000)))"
    using db_lock [OF _ lock(1), of job] assms(3,10) by (simp add: v1 fresh_def secs)
  note held = lookup_lock_later [OF this]
  show ?thesis
  proof (cases "clock (view s2) < clock (view s) + 1000 * (period div 1000000000)")
    case True
    then have "Enqueue redis_doc NoFault job2 uk period2 (view s2) = (Inl ErrDuplicate, view s2)"
      using run_Enqueue_duplicate [OF lock(2)] held by simp
    with True r show ?thesis by (simp add: sim)
  next
    case False
    then have "fst (Enqueue redis_doc NoFault job2 uk period2 (view s2)) = Inr ()"
      using run_Enqueue [of "view s2" job2 uk period2] assms(9,11) held by (simp add: fresh_def)
    with False r show ?thesis by (simp add: sim)
  qed
qed

definition mail_job2 :: JobRecord where
  "mail_job2 = mail_job\<lparr>ID := ''j2''\<rparr>"

lemma store1_after: "store1 = after_enqueue mail_job ''mail:ada'' 60000000000 store0"
  unfolding store1_def by (subst run_Enqueue) (simp_all add: refines_shape [OF refines_store0])

lemma persistent_store0: "persistent store0"
  by (rule refines_empty) (simp add: store0_def)

lemma clock_store [simp]: "clock store0 = 1000" "clock store1 = 1000"
  by (simp_all add: store1_after after_enqueue_def clock_insert_job take_lock_def store0_def)

lemma fresh_later: "fresh (tick 2000 store1) mail_job2"
  by (simp add: fresh_def mail_job2_def lookup_def live_def tick_def store1_after after_enqueue_def insert_job_def
      move_defs take_lock_def key_simps) (simp add: store0_def)

lemma persistent_store1: "persistent store1"
  unfolding store1_def by (rule keepsD [OF keeps_Enqueue persistent_store0])

lemma refines_later: "refines (tick 2000 store1) [''j1'' \<mapsto> mail_ajob]"
  using refines_tick [OF refines_store1 persistent_store1, of 2000] by simp

theorem Enqueue_deduplicates_witness:
  "fst (Enqueue redis_doc NoFault mail_job2 ''mail:ada'' 5000000000 (tick 2000 store1)) = Inl ErrDuplicate"
proof -
  have run: "Enqueue redis_doc NoFault mail_job ''mail:ada'' 60000000000 store0 =
      (fst (Enqueue redis_doc NoFault mail_job ''mail:ada'' 60000000000 store0), store1)"
    by (simp add: store1_def)
  have "clock (tick 2000 store1) = 2000" "db (tick 2000 store1) = db store1" by (simp_all add: tick_def)
  then show ?thesis
    using Enqueue_deduplicates [OF logical.redis_server_axioms _ _ _ _ _ _ run, of Map.empty "tick 2000 store1" "[''j1'' \<mapsto> mail_ajob]"
        mail_job2 5000000000] refines_store0 refines_later fresh_mail fresh_later by simp
qed

text \<open>
  A unique period below one second takes no lock at all: the seconds sent to Redis round to 0,
  and two jobs with the same key are both accepted.
\<close>

lemma subsecond_period_never_deduplicates:
  assumes "redis_server exec view" "refines (view s) m" "fresh (view s) job" "period < 1000000000"
  shows "fst (Enqueue exec NoFault job uk period s) = Inr ()"
proof -
  have "\<not> takes_lock uk period" using assms(4) by (simp add: takes_lock_def)
  then have "Enqueue redis_doc NoFault job uk period (view s) = (Inr (), after_enqueue job uk period (view s))"
    using assms(2,3) by (intro run_Enqueue) (auto simp: fresh_def)
  then show ?thesis by (simp add: sim_fst [OF redis_server.sim_Enqueue [OF assms(1)]])
qed

lemma fresh_store1: "fresh store1 mail_job2"
  by (simp add: fresh_def mail_job2_def store1_after after_enqueue_def insert_job_def move_defs take_lock_def key_simps)

section \<open>Releasing the lock\<close>

lemma str_at_writes [simp]:
  assumes "k' \<noteq> k"
  shows "str_at (store_hash d k h) k' = str_at d k'" "str_at (store_set d k xs) k' = str_at d k'"
    "str_at (store_zset d k z) k' = str_at d k'" "str_at (store_list d k l) k' = str_at d k'"
  using assms by (simp_all add: str_at_def)

lemma lock_moves:
  assumes "wf_queue q"
  shows "lookup (leave_active q w i d) (uniqueKey k) = lookup d (uniqueKey k)"
    "lookup (write_job i fs d) (uniqueKey k) = lookup d (uniqueKey k)"
    "lookup (bump_stat q f d) (uniqueKey k) = lookup d (uniqueKey k)"
    "lookup (push_dead q i d) (uniqueKey k) = lookup d (uniqueKey k)"
  using assms by (simp_all add: move_defs key_simps)

lemma lookup_drop_lock:
  "lookup (drop_lock (uniqueKey k) i d) (uniqueKey k) =
     (if lookup d (uniqueKey k) = Some (RString i) then None else lookup d (uniqueKey k))"
  by (auto simp: drop_lock_def str_at_def split: option.splits rval.splits)

text \<open>What settling an active job does to the dataset.\<close>

lemma held_runs:
  assumes "refines d m" "m i = Some a" "aj_queue a = q" "aj_loc a = Active t"
  shows "snd (Ack redis_doc NoFault now q i w d) = after_ack q i w (itoa now) (aj_unique a) d"
    "snd (CancelJob redis_doc NoFault now q i w reason d) = after_cancel q i w (itoa now) reason (aj_unique a) d"
    "snd (Nack redis_doc NoFault now q i w err backoff skip d) = after_nack q i w err (now + backoff) skip a d"
proof -
  obtain h where v: "jview_of d i = place h q (aj_prio a) (Active t)" and h: "hash_of h i a"
    and wf: "wf_id i" "wf_queue q" "unique_ok (aj_unique a)" "shape d"
    using refines_jobE [OF assms(1,2)] assms(3,4) by auto
  show "snd (Ack redis_doc NoFault now q i w d) = after_ack q i w (itoa now) (aj_unique a) d"
    using v h wf run_ackScript [OF wf(4,2,1)] by (simp add: Ack_def go_result_def place_def hash_of_def)
  show "snd (CancelJob redis_doc NoFault now q i w reason d) = after_cancel q i w (itoa now) reason (aj_unique a) d"
    using v h wf
    by (simp add: CancelJob_def go_result_def cancelScript_def run_parts after_cancel_def
        run_release_unique [where u = "aj_unique a"] view_simps map_add_def place_def hash_of_def)
  show "snd (Nack redis_doc NoFault now q i w err backoff skip d) = after_nack q i w err (now + backoff) skip a d"
    using run_nackScript [OF assms(1-3), of w err backoff now skip] by (simp add: Nack_def go_result_def)
qed

text \<open>
  C16: A job that completes, is cancelled or dies releases its unique lock when it still owns it, and
  never the lock that another job with the same key has taken since.
\<close>

theorem finishing_releases_own_lock:
  assumes "redis_server exec view" "refines (view s) m" "m i = Some a" "at_loc m q i is_active"
    and "aj_unique a = uniqueKey k" and "exhausted skip a"
    and "s' \<in> {snd (Ack exec NoFault now q i w s), snd (CancelJob exec NoFault now q i w reason s),
       snd (Nack exec NoFault now q i w err backoff skip s)}"
  shows "lookup (view s') (uniqueKey k) =
     (if lookup (view s) (uniqueKey k) = Some (RString i) then None else lookup (view s) (uniqueKey k))"
proof -
  let ?d = "view s"
  obtain t where a: "aj_queue a = q" "aj_loc a = Active t" using assms(3,4) by (auto simp: at_loc_def)
  have wf: "wf_queue q" using refines_wf [OF assms(2,3)] a(1) by simp
  from assms(7) have "view s' \<in> {after_ack q i w (itoa now) (uniqueKey k) ?d,
      after_cancel q i w (itoa now) reason (uniqueKey k) ?d, after_nack q i w err (now + backoff) skip a ?d}"
    using held_runs [OF assms(2,3) a] assms(5) by (auto simp: redis_server.queue_sim [OF assms(1), THEN sim_snd])
  then show ?thesis
    using wf assms(5,6)
    by (auto simp: after_ack_def after_cancel_def after_nack_def nack_common_def Let_def lookup_drop_lock lock_moves)
qed

theorem finishing_releases_own_lock_witness:
  "lookup store2 (uniqueKey ''mail:ada'') = Some (RString ''j1'') \<and> lookup store3 (uniqueKey ''mail:ada'') = None"
proof -
  have l: "lookup store2 (uniqueKey ''mail:ada'') = Some (RString ''j1'')"
  proof -
    have z: "zset_at store1 (readyKey ''default'') = [(5, ''j1'')]"
      by (simp add: store1_after after_enqueue_def insert_job_def move_defs take_lock_def key_simps)
        (simp add: zset_at_def zadd_def zrem_def)
    have s2: "store2 = after_dequeue ''default'' ''w1'' ''j1'' 1000 store1"
      unfolding store2_def by (subst run_Dequeue_pop [OF refines_shape [OF refines_store1] _ store1_paused z]) simp_all
    show ?thesis
      unfolding s2 by (simp add: after_dequeue_def store1_after after_enqueue_def insert_job_def move_defs
          take_lock_def key_simps takes_lock_def seconds_exact)
  qed
  have act: "at_loc [''j1'' \<mapsto> to_active 31000 mail_ajob] ''default'' ''j1'' is_active"
    by (simp add: at_loc_def to_active_def)
  have "exhausted True (to_active 31000 mail_ajob)" by (simp add: exhausted_def)
  from finishing_releases_own_lock [OF logical.redis_server_axioms _ _ act _ this, of store2 "''mail:ada''" store3 1500 "''w1''"]
    l refines_store2 show ?thesis by (simp add: store3_def to_active_def)
qed

end
