(* ===== verification/Queue_Batch.thy ===== *)
theory Queue_Batch
  imports Queue_Locks
begin

text \<open>
  Batched enqueueing: \<open>EnqueueMany\<close> pipelines the enqueue script in batches of 100. Without
  faults it is the sequence of single enqueues; when the connection fails at a batch, exactly the
  jobs of the batches before it are in the queue.
\<close>

definition enqueue_each :: "'s server \<Rightarrow> JobRecord list \<Rightarrow> 's \<Rightarrow> 's" where
  "enqueue_each exec jobs s = fold (\<lambda>job s. snd (Enqueue exec NoFault job '''' 0 s)) jobs s"

lemma enqueue_each_simps [simp]:
  "enqueue_each exec [] s = s"
  "enqueue_each exec (job # jobs) s = enqueue_each exec jobs (snd (Enqueue exec NoFault job '''' 0 s))"
  by (simp_all add: enqueue_each_def)

lemma enqueue_each_append: "enqueue_each exec (xs @ ys) s = enqueue_each exec ys (enqueue_each exec xs s)"
  by (simp add: enqueue_each_def)

definition batch_ok :: "astate \<Rightarrow> JobRecord list \<Rightarrow> bool" where
  "batch_ok m jobs \<longleftrightarrow> distinct (map ID jobs) \<and>
     (\<forall>job\<in>set jobs. wf_id (ID job) \<and> wf_queue (Queue job) \<and> State job = ''pending'' \<and> m (ID job) = None)"

definition add_jobs :: "JobRecord list \<Rightarrow> astate \<Rightarrow> astate" where
  "add_jobs jobs m = fold (\<lambda>job m. m(ID job \<mapsto> new_job job '''')) jobs m"

lemma add_jobs_simps [simp]:
  "add_jobs [] m = m" "add_jobs (job # jobs) m = add_jobs jobs (m(ID job \<mapsto> new_job job ''''))"
  by (simp_all add: add_jobs_def)

lemma add_jobs_append: "add_jobs (xs @ ys) m = add_jobs ys (add_jobs xs m)"
  by (simp add: add_jobs_def)

lemma add_jobs_other: "i \<notin> ID ` set jobs \<Longrightarrow> add_jobs jobs m i = m i"
  by (induction jobs arbitrary: m) auto

lemma add_jobs_apply:
  "distinct (map ID jobs) \<Longrightarrow> job \<in> set jobs \<Longrightarrow> add_jobs jobs m (ID job) = Some (new_job job '''')"
proof (induction jobs arbitrary: m)
  case (Cons j jobs)
  then show ?case by (cases "job = j") (auto simp: add_jobs_other)
qed simp

lemma batch_ok_Cons: "batch_ok m (job # jobs) \<Longrightarrow> batch_ok (m(ID job \<mapsto> new_job job '''')) jobs"
  by (auto simp: batch_ok_def image_iff)

lemma batch_ok_append:
  assumes "batch_ok m (xs @ ys)"
  shows "batch_ok m xs" "batch_ok (add_jobs xs m) ys"
proof -
  show "batch_ok m xs" using assms by (simp add: batch_ok_def)
  have "add_jobs xs m (ID job) = m (ID job)" if "job \<in> set ys" for job
    using assms that by (intro add_jobs_other) (auto simp: batch_ok_def)
  then show "batch_ok (add_jobs xs m) ys" using assms by (simp add: batch_ok_def)
qed

lemma Enqueue_plain_snd: "snd (Enqueue exec NoFault job '''' 0 s) = snd (enqueue_call exec job '''' 0 s)"
  by (auto simp: Enqueue_def go_result_def split: prod.splits sum.splits)

lemma batch_error_all_ok: "batch_error (map (\<lambda>x. Inr (f x)) xs) = None"
  by (induction xs) auto

context redis_server
begin

lemma enqueue_call_ok:
  assumes "refines (view s) m" "batch_ok m (job # jobs)"
  shows "fst (enqueue_call exec job '''' 0 s) = Inr (RBulk (ID job))"
    "refines (view (snd (enqueue_call exec job '''' 0 s))) (m(ID job \<mapsto> new_job job ''''))"
proof -
  from assms have run: "enqueue_call redis_doc job '''' 0 (view s) = (Inr (RBulk (ID job)), insert_job job '''' (view s))"
    by (intro run_enqueue_plain) (auto simp: batch_ok_def)
  then show "fst (enqueue_call exec job '''' 0 s) = Inr (RBulk (ID job))"
    by (simp add: sim_fst [OF sim_enqueue_call])
  have "\<exists>s'. Enqueue exec NoFault job '''' 0 s = (Inr (), s') \<and> refines (view s') (m(ID job \<mapsto> new_job job ''''))"
    using q.enqueue_law [OF assms(1), of job] assms(2) by (auto simp: batch_ok_def)
  then show "refines (view (snd (enqueue_call exec job '''' 0 s))) (m(ID job \<mapsto> new_job job ''''))"
    using Enqueue_plain_snd [of exec job s] by auto
qed

lemma pipe_scripts_enqueue:
  assumes "refines (view s) m" "batch_ok m jobs"
  shows "pipe_scripts (map (\<lambda>job. enqueue_call exec job '''' 0) jobs) s =
      (map (\<lambda>job. Inr (RBulk (ID job))) jobs, enqueue_each exec jobs s)"
    "refines (view (enqueue_each exec jobs s)) (add_jobs jobs m)"
proof -
  have "pipe_scripts (map (\<lambda>job. enqueue_call exec job '''' 0) jobs) s =
      (map (\<lambda>job. Inr (RBulk (ID job))) jobs, enqueue_each exec jobs s) \<and>
    refines (view (enqueue_each exec jobs s)) (add_jobs jobs m)"
    using assms
  proof (induction jobs arbitrary: s m)
    case (Cons job jobs)
    let ?s = "snd (enqueue_call exec job '''' 0 s)"
    note ok = enqueue_call_ok [OF Cons.prems]
    have call: "enqueue_call exec job '''' 0 s = (Inr (RBulk (ID job)), ?s)" using ok(1) by (metis prod.collapse)
    note IH = Cons.IH [OF ok(2) batch_ok_Cons [OF Cons.prems(2)]]
    then show ?case by (simp add: Enqueue_plain_snd split_beta ok(1) del: fun_upd_apply)
  qed simp
  then show "pipe_scripts (map (\<lambda>job. enqueue_call exec job '''' 0) jobs) s =
      (map (\<lambda>job. Inr (RBulk (ID job))) jobs, enqueue_each exec jobs s)"
    "refines (view (enqueue_each exec jobs s)) (add_jobs jobs m)" by simp_all
qed

lemma enqueueBatch_ok:
  assumes "refines (view s) m" "batch_ok m jobs"
  shows "enqueueBatch exec NoFault NoFault jobs s = (Inr (), enqueue_each exec jobs s)"
  using pipe_scripts_enqueue(1) [OF assms] by (simp add: enqueueBatch_def ret_def batch_error_all_ok)

text \<open>The loop up to a failing batch, or to the end.\<close>

lemma enqueue_chunks_until:
  assumes "refines (view s) m" "batch_ok m jobs" "chunkSize * n \<le> length jobs"
    and "\<And>j. i \<le> j \<Longrightarrow> j < i + n \<Longrightarrow> loadF j = NoFault \<and> execF j = NoFault"
  shows "enqueue_chunks exec loadF execF i jobs s =
      enqueue_chunks exec loadF execF (i + n) (drop (chunkSize * n) jobs) (enqueue_each exec (take (chunkSize * n) jobs) s) \<and>
    refines (view (enqueue_each exec (take (chunkSize * n) jobs) s)) (add_jobs (take (chunkSize * n) jobs) m)"
  using assms
proof (induction n arbitrary: i jobs s m)
  case (Suc n)
  let ?c = "take chunkSize jobs" and ?r = "drop chunkSize jobs" and ?s = "enqueue_each exec (take chunkSize jobs) s"
  have ne: "jobs \<noteq> []" using Suc.prems(3) by (auto simp: chunkSize_def)
  have ok: "batch_ok m ?c" "batch_ok (add_jobs ?c m) ?r"
    using batch_ok_append [of m ?c ?r] Suc.prems(2) by simp_all
  have tk: "take (chunkSize * Suc n) jobs = ?c @ take (chunkSize * n) ?r"
    and dr: "drop (chunkSize * n) ?r = drop (chunkSize * Suc n) jobs"
    by (simp_all add: take_add add.commute)
  have step: "enqueue_chunks exec loadF execF i jobs s = enqueue_chunks exec loadF execF (Suc i) ?r ?s"
    using ne enqueueBatch_ok [OF Suc.prems(1) ok(1)] Suc.prems(4) [of i]
    by (subst enqueue_chunks.simps) simp
  have "enqueue_chunks exec loadF execF (Suc i) ?r ?s =
      enqueue_chunks exec loadF execF (Suc i + n) (drop (chunkSize * n) ?r)
        (enqueue_each exec (take (chunkSize * n) ?r) ?s) \<and>
    refines (view (enqueue_each exec (take (chunkSize * n) ?r) ?s)) (add_jobs (take (chunkSize * n) ?r) (add_jobs ?c m))"
    using Suc.prems(3,4) pipe_scripts_enqueue(2) [OF Suc.prems(1) ok(1)]
    by (intro Suc.IH [OF _ ok(2)]) simp_all
  then show ?case unfolding step tk enqueue_each_append add_jobs_append dr by simp
qed simp

lemma EnqueueMany_ok:
  assumes "refines (view s) m" "batch_ok m jobs"
  shows "EnqueueMany exec (\<lambda>_. NoFault) (\<lambda>_. NoFault) jobs s = (Inr (), enqueue_each exec jobs s)"
proof -
  let ?n = "length jobs div chunkSize"
  let ?c = "take (chunkSize * ?n) jobs" and ?r = "drop (chunkSize * ?n) jobs"
  have until: "EnqueueMany exec (\<lambda>_. NoFault) (\<lambda>_. NoFault) jobs s =
      enqueue_chunks exec (\<lambda>_. NoFault) (\<lambda>_. NoFault) ?n ?r (enqueue_each exec ?c s)"
    and ref: "refines (view (enqueue_each exec ?c s)) (add_jobs ?c m)"
    using enqueue_chunks_until [OF assms, of ?n 0 "\<lambda>_. NoFault" "\<lambda>_. NoFault"] by (simp_all add: EnqueueMany_def)
  have "length ?r < chunkSize"
    using mod_less_divisor [of chunkSize "length jobs"] by (simp add: chunkSize_def minus_mult_div_eq_mod)
  then have whole: "take chunkSize ?r = ?r" "drop chunkSize ?r = []" by simp_all
  have ok: "batch_ok (add_jobs ?c m) ?r" using batch_ok_append(2) [of m ?c ?r] assms(2) by simp
  have each: "enqueue_each exec ?r (enqueue_each exec ?c s) = enqueue_each exec jobs s"
    by (metis append_take_drop_id enqueue_each_append)
  show ?thesis
  proof (cases "?r = []")
    case True
    then have "EnqueueMany exec (\<lambda>_. NoFault) (\<lambda>_. NoFault) jobs s = (Inr (), enqueue_each exec ?c s)"
      unfolding until by (subst enqueue_chunks.simps) (simp del: drop_eq_Nil)
    with True each show ?thesis by (metis enqueue_each_simps(1))
  next
    case False
    then have "EnqueueMany exec (\<lambda>_. NoFault) (\<lambda>_. NoFault) jobs s =
        enqueue_chunks exec (\<lambda>_. NoFault) (\<lambda>_. NoFault) (Suc ?n) [] (enqueue_each exec jobs s)"
      unfolding until
      by (subst enqueue_chunks.simps) (simp only: whole enqueueBatch_ok [OF ref ok] each if_False prod.case sum.case)
    then show ?thesis by (simp add: enqueue_chunks.simps)
  qed
qed

end

text \<open>
  C14: EnqueueMany, whatever the number of jobs, does what one Enqueue after the other does: all jobs
  are in the queue, in one pass, with batches of at most 100.
\<close>

theorem EnqueueMany_is_sequential:
  assumes "redis_server exec view" "refines (view s) m" "batch_ok m jobs"
  shows "EnqueueMany exec (\<lambda>_. NoFault) (\<lambda>_. NoFault) jobs s = (Inr (), enqueue_each exec jobs s) \<and>
     refines (view (enqueue_each exec jobs s)) (add_jobs jobs m)"
  using redis_server.EnqueueMany_ok [OF assms] redis_server.pipe_scripts_enqueue(2) [OF assms] by simp

theorem EnqueueMany_is_sequential_witness:
  "EnqueueMany redis_doc (\<lambda>_. NoFault) (\<lambda>_. NoFault) [mail_job, mail_job2] store0 =
     (Inr (), enqueue_each redis_doc [mail_job, mail_job2] store0) \<and>
   refines (id (enqueue_each redis_doc [mail_job, mail_job2] store0)) (add_jobs [mail_job, mail_job2] Map.empty)"
proof -
  have "batch_ok Map.empty [mail_job, mail_job2]" by (simp add: batch_ok_def mail_job2_def)
  then show ?thesis
    using EnqueueMany_is_sequential [OF logical.redis_server_axioms, of store0 Map.empty "[mail_job, mail_job2]"]
      refines_store0 by (simp only: id_apply)
qed

text \<open>
  When the connection fails at batch k, EnqueueMany reports that error and exactly the jobs of
  the first k batches have been enqueued: no job of a batch is enqueued without the others.
\<close>

lemma EnqueueMany_fault_prefix:
  assumes "redis_server exec view" "refines (view s) m" "batch_ok m jobs"
    and "100 * k < length jobs" "\<not> is_duplicate e"
  shows "EnqueueMany exec (\<lambda>_. NoFault) (\<lambda>i. if i = k then ConnError e else NoFault) jobs s =
     (Inl (Wrapped ''winter: batch enqueue'' e), enqueue_each exec (take (100 * k) jobs) s)"
proof -
  let ?F = "\<lambda>i. if i = k then ConnError e else NoFault"
  obtain j js where js: "drop (100 * k) jobs = j # js" using assms(4) by (metis Cons_nth_drop_Suc)
  have "EnqueueMany exec (\<lambda>_. NoFault) ?F jobs s =
      enqueue_chunks exec (\<lambda>_. NoFault) ?F k (j # js) (enqueue_each exec (take (100 * k) jobs) s)"
    using redis_server.enqueue_chunks_until [OF assms(1-3), of k 0 "\<lambda>_. NoFault" ?F] assms(4) js
    by (simp add: EnqueueMany_def chunkSize_def)
  also have "\<dots> = (Inl (Wrapped ''winter: batch enqueue'' e), enqueue_each exec (take (100 * k) jobs) s)"
    using assms(5) by (subst enqueue_chunks.simps) (simp add: enqueueBatch_def ret_def chunkSize_def)
  finally show ?thesis .
qed

end
