(* ===== verification/Frames.thy ===== *)
theory Frames
  imports Queue_Batch
begin

text \<open>
  A command changes no key but its own, and no command changes the clock. A computation that never
  issues a command on a key therefore leaves it as it is, together with its time to live.
\<close>

fun cmd_key :: "command \<Rightarrow> key" where
  "cmd_key (GET k) = k"
| "cmd_key (SET k _) = k"
| "cmd_key (SET_PX k _ _) = k"
| "cmd_key (SET_NX_EX k _ _) = k"
| "cmd_key (DEL k) = k"
| "cmd_key (EXISTS k) = k"
| "cmd_key (PEXPIRE k _) = k"
| "cmd_key (INCR k) = k"
| "cmd_key (HSET k _) = k"
| "cmd_key (HSETNX k _ _) = k"
| "cmd_key (HGET k _) = k"
| "cmd_key (HGETALL k) = k"
| "cmd_key (HDEL k _) = k"
| "cmd_key (HINCRBY k _ _) = k"
| "cmd_key (SADD k _) = k"
| "cmd_key (SREM k _) = k"
| "cmd_key (SCARD k) = k"
| "cmd_key (ZADD k _ _) = k"
| "cmd_key (ZADD_XX k _ _) = k"
| "cmd_key (ZREM k _) = k"
| "cmd_key (ZPOPMIN k) = k"
| "cmd_key (ZRANGEBYSCORE k _ _) = k"
| "cmd_key (ZCARD k) = k"
| "cmd_key (LPUSH k _) = k"
| "cmd_key (LREM_1 k _) = k"
| "cmd_key (LRANGE k _ _) = k"
| "cmd_key (LLEN k) = k"

fun read_only :: "command \<Rightarrow> bool" where
  "read_only (GET _) = True"
| "read_only (EXISTS _) = True"
| "read_only (HGET _ _) = True"
| "read_only (HGETALL _) = True"
| "read_only (SCARD _) = True"
| "read_only (ZRANGEBYSCORE _ _ _) = True"
| "read_only (ZCARD _) = True"
| "read_only (LRANGE _ _ _) = True"
| "read_only (LLEN _) = True"
| "read_only _ = False"

lemma redis_doc_read_only: "read_only c \<Longrightarrow> snd (redis_doc c d) = d"
  by (cases c) (auto simp: redis_doc.simps typed_def split: option.splits)

lemma redis_doc_frame: "k \<noteq> cmd_key c \<or> read_only c \<Longrightarrow> db (snd (redis_doc c d)) k = db d k"
  by (cases c) (auto simp: redis_doc.simps typed_def split: option.splits list.splits)

lemma redis_doc_clock: "clock (snd (redis_doc c d)) = clock d"
  by (cases c) (auto simp: redis_doc.simps typed_def split: option.splits list.splits)

text \<open>The entry of a key, with the clock that decides whether it is alive.\<close>

definition entry :: "key \<Rightarrow> (rval \<times> int option) option \<times> int \<Rightarrow> dataset \<Rightarrow> bool" where
  "entry k x d \<longleftrightarrow> (db d k, clock d) = x"

lemma keeps_entry_lcall [keep_intros]: "k \<noteq> cmd_key c \<or> read_only c \<Longrightarrow> keeps (entry k x) (lcall redis_doc c)"
  using redis_doc_frame [of k c] redis_doc_clock [of c] unfolding keeps_def lcall_def entry_def
  by (auto split: prod.splits reply.splits) (metis snd_conv)+

lemma keeps_entry_call [keep_intros]:
  "k \<noteq> cmd_key c \<or> read_only c \<Longrightarrow> (\<And>r. keeps (entry k x) (f r)) \<Longrightarrow> keeps (entry k x) (call redis_doc c f)"
  unfolding call_def by (intro keep_intros)

lemma lookup_entry: "entry k (db d k, clock d) d' \<Longrightarrow> lookup d' k = lookup d k"
  by (auto simp: entry_def lookup_def live_def split: option.split)

lemma keeps_lookup:
  assumes "\<And>x. keeps (entry k x) f"
  shows "lookup (snd (f d)) k = lookup d k"
  using keepsD [OF assms [of "(db d k, clock d)"], of d] by (intro lookup_entry) (simp add: entry_def)

lemma at_lookup:
  assumes "lookup d' k = lookup d k"
  shows "str_at d' k = str_at d k" "hash_at d' k = hash_at d k" "set_at d' k = set_at d k"
    "zset_at d' k = zset_at d k" "list_at d' k = list_at d k"
  using assms by (simp_all add: str_at_def hash_at_def set_at_def zset_at_def list_at_def)

text \<open>Taking, promoting and recovering jobs leaves a queue paused or not as it was.\<close>

lemma paused_frame:
  assumes "wf_queue q" "wf_queue q'"
  shows "lookup (snd (Dequeue redis_doc flt now q' w d)) (pausedKey q) = lookup d (pausedKey q)"
    "lookup (snd (RecoverExpiredLeases redis_doc flt now q' l d)) (pausedKey q) = lookup d (pausedKey q)"
    "lookup (snd (Promote redis_doc flt now q' l d)) (pausedKey q) = lookup d (pausedKey q)"
proof -
  show "lookup (snd (Dequeue redis_doc flt now q' w d)) (pausedKey q) = lookup d (pausedKey q)"
    unfolding Dequeue_def dequeueScript_def
    by (rule keeps_lookup, intro keep_intros) (simp_all add: assms key_simps)
  show "lookup (snd (RecoverExpiredLeases redis_doc flt now q' l d)) (pausedKey q) = lookup d (pausedKey q)"
    unfolding RecoverExpiredLeases_def RecoverExpiredLeasesAt_def recoverLeasesScript_def recover_one_def
    by (rule keeps_lookup, intro keep_intros) (simp_all add: assms key_simps)
  show "lookup (snd (Promote redis_doc flt now q' l d)) (pausedKey q) = lookup d (pausedKey q)"
    unfolding Promote_def promoteScript_def promote_one_def
    by (rule keeps_lookup, intro keep_intros) (simp_all add: assms key_simps)
qed

section \<open>Keys of the other components\<close>

text \<open>
  The scheduler, the workflows, the rate limiter and the job results have keys of their own.
  Whatever happens to them, the abstract queue stays the same.
\<close>

definition foreign :: "key \<Rightarrow> bool" where
  "foreign k \<longleftrightarrow> k = cronKey \<or>
     (\<exists>x. k = workflowKey x \<or> k = depsKey x \<or> k = counterKey x \<or> k = bucketKey x \<or> k = resultKey x)"

lemma foreign_intros [simp]: "foreign cronKey" "foreign (workflowKey x)" "foreign (depsKey x)"
  "foreign (counterKey x)" "foreign (bucketKey x)" "foreign (resultKey x)"
  by (auto simp: foreign_def)

lemma not_foreign [simp]:
  "wf_queue q \<Longrightarrow> \<not> foreign (readyKey q)" "wf_queue q \<Longrightarrow> \<not> foreign (delayedKey q)"
  "wf_queue q \<Longrightarrow> \<not> foreign (leaseKey q)" "wf_queue q \<Longrightarrow> \<not> foreign (activeKey q)"
  "wf_queue q \<Longrightarrow> \<not> foreign (deadKey q)" "wf_queue q \<Longrightarrow> \<not> foreign (pausedKey q)" "\<not> foreign (statsKey q)"
  "wf_id i \<Longrightarrow> \<not> foreign (jobKey i)" "\<not> foreign (workerJobsKey w)" "\<not> foreign workersKey"
  "\<not> foreign (uniqueKey u)"
  by (auto simp: foreign_def key_simps)

definition agree :: "dataset \<Rightarrow> dataset \<Rightarrow> bool" where
  "agree d d' \<longleftrightarrow> (\<forall>k. \<not> foreign k \<longrightarrow> lookup d' k = lookup d k)"

lemma agree_at:
  assumes "agree d d'" "\<not> foreign k"
  shows "str_at d' k = str_at d k" "hash_at d' k = hash_at d k" "set_at d' k = set_at d k"
    "zset_at d' k = zset_at d k" "list_at d' k = list_at d k" "has_type t d' k = has_type t d k"
  using assms at_lookup [of d' k d] by (simp_all add: agree_def has_type_def)

lemma refines_agree:
  assumes "refines d m" "agree d d'"
  shows "refines d' m"
proof (rule refines_same [OF assms(1)])
  note at = agree_at [OF assms(2)]
  have s: "shape d" using assms(1) by simp
  show "shape d'" using s by (intro shapeI) (simp_all add: shape_queue_def at)
  show "jview_of d' i = jview_of d i" if "wf_id i" for i
    using that by (simp add: jview_of_def at cong: if_cong conj_cong)
qed

lemma agree_refl [simp]: "agree d d"
  by (simp add: agree_def)

lemma agree_trans: "agree d d' \<Longrightarrow> agree d' d'' \<Longrightarrow> agree d d''"
  by (simp add: agree_def)

text \<open>A computation whose writes all go to foreign keys.\<close>

lemma keeps_agree_lcall [keep_intros]: "foreign (cmd_key c) \<or> read_only c \<Longrightarrow> keeps (agree d) (lcall redis_doc c)"
proof -
  assume c: "foreign (cmd_key c) \<or> read_only c"
  have "lookup (snd (redis_doc c d1)) k = lookup d1 k" if "\<not> foreign k" for d1 k
  proof -
    have "entry k (db d1 k, clock d1) (snd (redis_doc c d1))"
      using redis_doc_frame [of k c d1] redis_doc_clock [of c d1] c that by (auto simp: entry_def)
    then show ?thesis by (rule lookup_entry)
  qed
  moreover have "snd (lcall redis_doc c d1) = snd (redis_doc c d1)" for d1
    by (auto simp: lcall_def split: prod.splits reply.splits)
  ultimately show ?thesis by (simp add: keeps_def agree_def)
qed

lemma keeps_agree_call [keep_intros]:
  "foreign (cmd_key c) \<or> read_only c \<Longrightarrow> (\<And>r. keeps (agree d) (f r)) \<Longrightarrow> keeps (agree d) (call redis_doc c f)"
  unfolding call_def by (intro keep_intros)

lemma keeps_refines: "(\<And>d. keeps (agree d) f) \<Longrightarrow> refines d m \<Longrightarrow> refines (snd (f d)) m"
  using keepsD [of "agree d" f d] refines_agree by auto

section \<open>Numbered identifiers\<close>

lemma last_nat_str: "\<exists>d<10. last (nat_str n) = digit_chr d"
proof (cases "n < 10")
  case True
  then show ?thesis by (auto simp: nat_str.simps [of n])
next
  case False
  then have "last (nat_str n) = digit_chr (n mod 10)" by (simp add: nat_str.simps [of n])
  moreover have "n mod 10 < 10" by simp
  ultimately show ?thesis by blast
qed

lemma wf_id_itoa [simp]: "wf_id (x @ itoa n)"
proof -
  obtain d where d: "d < 10" "last (itoa n) = digit_chr d"
    using last_nat_str [of "nat n"] last_nat_str [of "nat (- n)"] by (cases "n < 0") (auto simp: itoa_def)
  have "digit_chr d \<in> set ''0123456789''" unfolding digit_chr_def using d(1) by (intro nth_mem) simp
  then have "digit_chr d \<noteq> CHR ''t''" by auto
  then have l: "last (x @ itoa n) \<noteq> CHR ''t''" using d(2) by simp
  have "x @ itoa n \<noteq> zs @ '':result''" for zs
  proof
    assume "x @ itoa n = zs @ '':result''"
    from arg_cong [OF this, of last] l show False by simp
  qed
  then show ?thesis by (simp add: wf_id_def suffix_def)
qed

end
