(* ===== verification/Queue_Order.thy ===== *)
theory Queue_Order
  imports Queue_Batch Frames "HOL-Library.Multiset"
begin

text \<open>
  The queue as a priority queue: what successive dequeues hand out, compared with sorting.
\<close>

text \<open>Up to \<open>n\<close> dequeues, by any workers at any times; a dequeue that gets no job is passed over.\<close>

fun dequeue_n :: "'s server \<Rightarrow> (nat \<Rightarrow> int) \<Rightarrow> string \<Rightarrow> (nat \<Rightarrow> string) \<Rightarrow> nat \<Rightarrow> nat \<Rightarrow> 's \<Rightarrow> JobRecord list \<times> 's" where
  "dequeue_n exec T q W k 0 s = ([], s)"
| "dequeue_n exec T q W k (Suc n) s =
     (case Dequeue exec NoFault (T k) q (W k) s of
        (Inr (Some rec), s1) \<Rightarrow> (case dequeue_n exec T q W (Suc k) n s1 of (recs, s2) \<Rightarrow> (rec # recs, s2))
      | (_, s1) \<Rightarrow> dequeue_n exec T q W (Suc k) n s1)"

text \<open>The ready jobs of a queue, most urgent first.\<close>

definition ready_list :: "astate \<Rightarrow> string \<Rightarrow> (int \<times> string) list \<Rightarrow> bool" where
  "ready_list m q xs \<longleftrightarrow> sorted xs \<and> distinct (map snd xs) \<and>
     (\<forall>p i. (p, i) \<in> set xs \<longleftrightarrow> (\<exists>a. m i = Some a \<and> aj_queue a = q \<and> aj_loc a = Ready \<and> aj_prio a = p))"

lemma ready_list_Cons:
  assumes "ready_list m q ((p, i) # xs)"
  obtains a where "m i = Some a" "aj_queue a = q" "aj_loc a = Ready" "aj_prio a = p" "is_next m q i"
    "ready_list (upd i (to_active t) m) q xs"
proof -
  obtain a where a: "m i = Some a" "aj_queue a = q" "aj_loc a = Ready" "aj_prio a = p"
    using assms unfolding ready_list_def by (metis list.set_intros(1))
  have "(p, i) \<le> (p', j)" if "m j = Some b" "aj_queue b = q" "aj_loc b = Ready" "aj_prio b = p'" for j b p'
  proof -
    have "(p', j) \<in> set ((p, i) # xs)" using assms that unfolding ready_list_def by blast
    moreover have "\<forall>y\<in>set xs. (p, i) \<le> y" using assms by (simp add: ready_list_def)
    ultimately show ?thesis by (metis order_refl set_ConsD)
  qed
  then have "is_next m q i" using a by (auto simp: is_next_def)
  moreover have "ready_list (upd i (to_active t) m) q xs"
  proof -
    have i: "i \<notin> snd ` set xs" and ok: "sorted xs" "distinct (map snd xs)" using assms by (simp_all add: ready_list_def)
    have mem: "(p', j) \<in> set ((p, i) # xs) \<longleftrightarrow> (\<exists>a. m j = Some a \<and> aj_queue a = q \<and> aj_loc a = Ready \<and> aj_prio a = p')" for p' j
      using assms unfolding ready_list_def by blast
    have "(p', j) \<in> set xs \<longleftrightarrow> (\<exists>a. upd i (to_active t) m j = Some a \<and> aj_queue a = q \<and> aj_loc a = Ready \<and> aj_prio a = p')" for p' j
    proof (cases "j = i")
      case True
      then show ?thesis using i a(1) by (auto simp: upd_def to_active_def image_iff)
    next
      case False
      then show ?thesis using mem [of p' j] by (simp add: upd_def)
    qed
    then show ?thesis using ok by (simp add: ready_list_def)
  qed
  ultimately show thesis using that a by blast
qed

definition key_fields :: "JobRecord \<Rightarrow> int \<times> string \<times> string \<times> string" where
  "key_fields rec = (Priority rec, ID rec, Kind rec, Payload rec)"

definition stored_fields :: "astate \<Rightarrow> int \<times> string \<Rightarrow> int \<times> string \<times> string \<times> string" where
  "stored_fields m = (\<lambda>(p, i). (p, i, aj_kind (the (m i)), aj_payload (the (m i))))"

context redis_server
begin

lemma dequeue_n_empty:
  assumes "refines (view s) m" "wf_queue q" "ready_list m q []"
  shows "fst (dequeue_n exec T q W k n s) = []"
  using assms(1)
proof (induction n arbitrary: k s)
  case (Suc n)
  have "\<forall>i. \<not> at_loc m q i (\<lambda>l. l = Ready)" using assms(3) by (auto simp: ready_list_def at_loc_def)
  from q.dequeue_empty_law [OF Suc.prems assms(2) disjI2 [OF this], of "T k" "W k"]
  obtain s1 where "Dequeue exec NoFault (T k) q (W k) s = (Inr None, s1)" "refines (view s1) m" by metis
  then show ?case using Suc.IH by simp
qed simp

lemma dequeue_n_order:
  assumes "refines (view s) m" "wf_queue q" "\<not> is_paused view s q" "ready_list m q xs" "length xs \<le> n"
    and "\<And>i a. m i = Some a \<Longrightarrow> aj_queue a = q \<Longrightarrow> aj_loc a = Ready \<Longrightarrow> int64_job a"
  shows "map key_fields (fst (dequeue_n exec T q W k n s)) = map (stored_fields m) xs"
  using assms
proof (induction xs arbitrary: s m k n)
  case Nil
  then show ?case using dequeue_n_empty by simp
next
  case (Cons x xs)
  obtain p i n' where x: "x = (p, i)" "n = Suc n'" using Cons.prems(5) by (cases x, cases n) auto
  let ?e = "T k + 30000" and ?m = "upd i (to_active (T k + 30000)) m"
  obtain a where a: "m i = Some a" "aj_prio a = p" "is_next m q i" "ready_list ?m q xs" "aj_queue a = q" "aj_loc a = Ready"
    using ready_list_Cons Cons.prems(4) x(1) by metis
  obtain rec s1 where r: "Dequeue exec NoFault (T k) q (W k) s = (Inr (Some rec), s1)" "refines (view s1) ?m" "describes rec i (to_active ?e a)"
    using q.dequeue_law [OF Cons.prems(1-3) a(3,1), of "T k" "W k"] Cons.prems(6) [OF a(1,5,6)] by auto
  have "lookup (view s1) (pausedKey q) = lookup (view s) (pausedKey q)"
    using paused_frame(1) [OF Cons.prems(2,2), of NoFault "T k" "W k" "view s"] sim_snd [OF sim_Dequeue, of NoFault "T k" q "W k" s] r(1) by simp
  then have "\<not> is_paused view s1 q" using Cons.prems(3) by (simp add: is_paused_def)
  moreover have "int64_job b" if "?m j = Some b" "aj_queue b = q" "aj_loc b = Ready" for j b
    using that Cons.prems(6) by (auto simp: upd_def to_active_def split: if_splits)
  ultimately have "map key_fields (fst (dequeue_n exec T q W (Suc k) n' s1)) = map (stored_fields ?m) xs"
    using Cons.IH [OF r(2) Cons.prems(2) _ a(4)] Cons.prems(5) x(2) by simp
  moreover have "stored_fields ?m = stored_fields m"
    by (rule ext) (auto simp: stored_fields_def upd_def to_active_def a(1))
  ultimately have rest: "map key_fields (fst (dequeue_n exec T q W (Suc k) n' s1)) = map (stored_fields m) xs" by simp
  have "key_fields rec = stored_fields m x"
    using r(3) a(1,2) x(1) by (simp add: key_fields_def stored_fields_def describes_def to_active_def)
  with rest r(1) x(2) show ?case by (simp add: case_prod_beta)
qed

end

text \<open>The jobs of a batch that are ready at once, in a queue that had none.\<close>

lemma ready_list_batch:
  assumes "batch_ok m jobs" "\<forall>job\<in>set jobs. Queue job = q \<and> ScheduledAt job \<le> 0" "\<And>i. \<not> at_loc m q i (\<lambda>l. l = Ready)"
  shows "ready_list (add_jobs jobs m) q (sort (map (\<lambda>job. (Priority job, ID job)) jobs))"
proof -
  have dist: "distinct (map ID jobs)" using assms(1) by (simp add: batch_ok_def)
  have "(\<exists>a. add_jobs jobs m i = Some a \<and> aj_queue a = q \<and> aj_loc a = Ready \<and> aj_prio a = p) \<longleftrightarrow>
      (\<exists>job\<in>set jobs. ID job = i \<and> Priority job = p)" for p i
  proof (cases "i \<in> ID ` set jobs")
    case True
    then obtain job where job: "job \<in> set jobs" "i = ID job" by blast
    then have "job' = job" if "job' \<in> set jobs" "ID job' = i" for job' using dist that by (auto simp: distinct_map dest: inj_onD)
    then show ?thesis using add_jobs_apply [OF dist job(1), of m] job assms(2) by (auto simp: new_job_def)
  next
    case False
    then show ?thesis using add_jobs_other [OF False] assms(3) by (auto simp: at_loc_def)
  qed
  moreover have "distinct (map snd (sort xs))" if "distinct (map snd xs)" for xs :: "(int \<times> string) list"
    using that by (simp add: distinct_map)
  then have "distinct (map snd (sort (map (\<lambda>job. (Priority job, ID job)) jobs)))" using dist by (simp add: comp_def)
  ultimately show ?thesis by (auto simp: ready_list_def)
qed

lemma stored_fields_mono: "x \<le> y \<Longrightarrow> stored_fields m x \<le> stored_fields m y"
  by (cases x; cases y) (auto simp: stored_fields_def)

lemma sort_fields:
  assumes "\<And>job. job \<in> set jobs \<Longrightarrow> stored_fields m (Priority job, ID job) = key_fields job"
  shows "map (stored_fields m) (sort (map (\<lambda>job. (Priority job, ID job)) jobs)) = sort (map key_fields jobs)"
proof (rule properties_for_sort [symmetric])
  let ?xs = "map (\<lambda>job. (Priority job, ID job)) jobs"
  have "sorted (map (stored_fields m) ys)" if "sorted ys" for ys
    using that stored_fields_mono by (induction ys) auto
  then show "sorted (map (stored_fields m) (sort ?xs))" by simp
  have "mset (map (stored_fields m) (sort ?xs)) = mset (map (stored_fields m) ?xs)" by (simp only: mset_map mset_sort)
  also have "map (stored_fields m) ?xs = map key_fields jobs" using assms by simp
  finally show "mset (map (stored_fields m) (sort ?xs)) = mset (map key_fields jobs)" .
qed

context redis_server
begin

lemma enqueue_each_paused:
  assumes "refines (view s) m" "batch_ok m jobs" "wf_queue q"
  shows "is_paused view (enqueue_each exec jobs s) q = is_paused view s q"
  using assms(1,2)
proof (induction jobs arbitrary: s m)
  case (Cons job jobs)
  obtain s' where s': "Enqueue exec NoFault job '''' 0 s = (Inr (), s')" "refines (view s') (m(ID job \<mapsto> new_job job ''''))"
    "is_paused view s' q = is_paused view s q"
    using q.enqueue_law [OF Cons.prems(1), of job] Cons.prems(2) assms(3) by (auto simp: batch_ok_def)
  then show ?case using Cons.IH [OF s'(2) batch_ok_Cons [OF Cons.prems(2)]] by simp
qed simp

end

text \<open>
  C4: The queue sorts. Whatever the order in which jobs are put into a queue without ready jobs, and
  whoever asks for them how often and when, successive dequeues hand out exactly these jobs, each
  once and with its own kind and payload, in the order of their priority values and among equal ones
  of their identifiers, and then none.
\<close>

theorem queue_sorts_jobs:
  assumes "redis_server exec view" "refines (view s) m" "wf_queue q" "\<not> is_paused view s q" "batch_ok m jobs"
    and "\<forall>job\<in>set jobs. Queue job = q \<and> ScheduledAt job \<le> 0 \<and> int64 (Priority job) \<and> int64 (MaxRetries job)"
    and "\<And>i. \<not> at_loc m q i (\<lambda>l. l = Ready)" "length jobs \<le> n"
  shows "\<exists>s1. EnqueueMany exec (\<lambda>_. NoFault) (\<lambda>_. NoFault) jobs s = (Inr (), s1) \<and>
     map key_fields (fst (dequeue_n exec T q W k n s1)) = sort (map key_fields jobs)"
proof -
  let ?s = "enqueue_each exec jobs s" and ?m = "add_jobs jobs m" and ?xs = "sort (map (\<lambda>job. (Priority job, ID job)) jobs)"
  have dist: "distinct (map ID jobs)" using assms(5) by (simp add: batch_ok_def)
  have run: "EnqueueMany exec (\<lambda>_. NoFault) (\<lambda>_. NoFault) jobs s = (Inr (), ?s)" "refines (view ?s) ?m"
    using redis_server.EnqueueMany_ok [OF assms(1,2,5)] redis_server.pipe_scripts_enqueue(2) [OF assms(1,2,5)] by simp_all
  have "\<not> is_paused view ?s q" using redis_server.enqueue_each_paused [OF assms(1,2,5,3)] assms(4) by simp
  moreover have "ready_list ?m q ?xs" using ready_list_batch [OF assms(5) _ assms(7)] assms(6) by auto
  moreover have "int64_job a" if a: "?m i = Some a" "aj_queue a = q" "aj_loc a = Ready" for i a
  proof (cases "i \<in> ID ` set jobs")
    case True
    then obtain job where job: "job \<in> set jobs" "i = ID job" by blast
    then have "a = new_job job ''''" using a(1) add_jobs_apply [OF dist job(1), of m] by simp
    then show ?thesis using assms(6) job(1) by (simp add: new_job_def int64_job_def int64_def min_int64_def max_int64_def)
  next
    case False
    then show ?thesis using a add_jobs_other [OF False, of m] assms(7) [of i] by (auto simp: at_loc_def)
  qed
  ultimately have "map key_fields (fst (dequeue_n exec T q W k n ?s)) = map (stored_fields ?m) ?xs"
    using assms(8) by (intro redis_server.dequeue_n_order [OF assms(1) run(2) assms(3)]) auto
  also have "\<dots> = sort (map key_fields jobs)"
    using add_jobs_apply [OF dist, of _ m] by (intro sort_fields) (simp add: stored_fields_def key_fields_def new_job_def)
  finally show ?thesis using run(1) by blast
qed

text \<open>Three jobs put in with priorities 10, 0 and 5.\<close>

definition rank_job :: "string \<Rightarrow> int \<Rightarrow> JobRecord" where
  "rank_job i p = mail_job\<lparr>ID := i, Priority := p\<rparr>"

theorem queue_sorts_jobs_witness:
  "\<exists>s1. EnqueueMany redis_doc (\<lambda>_. NoFault) (\<lambda>_. NoFault) [rank_job ''a'' 10, rank_job ''b'' 0, rank_job ''c'' 5] store0 = (Inr (), s1) \<and>
     map key_fields (fst (dequeue_n redis_doc (\<lambda>_. 1000) ''default'' (\<lambda>_. ''w1'') 0 4 s1)) =
       map key_fields [rank_job ''b'' 0, rank_job ''c'' 5, rank_job ''a'' 10]"
proof -
  let ?jobs = "[rank_job ''a'' 10, rank_job ''b'' 0, rank_job ''c'' 5]"
  have "batch_ok Map.empty ?jobs" by (simp add: batch_ok_def rank_job_def wf_id_def suffix_to_prefix)
  moreover have "\<forall>job\<in>set ?jobs. Queue job = ''default'' \<and> ScheduledAt job \<le> 0 \<and> int64 (Priority job) \<and> int64 (MaxRetries job)"
    by (simp add: rank_job_def int64_def min_int64_def max_int64_def)
  moreover have "\<not> is_paused id store0 ''default''" by (simp add: is_paused_def)
  moreover have "sort (map key_fields ?jobs) = map key_fields [rank_job ''b'' 0, rank_job ''c'' 5, rank_job ''a'' 10]"
    by (simp add: key_fields_def rank_job_def)
  ultimately show ?thesis
    using queue_sorts_jobs [OF logical.redis_server_axioms, of store0 Map.empty "''default''" ?jobs 4 "\<lambda>_. 1000" "\<lambda>_. ''w1''" 0] refines_store0
    by (simp add: at_loc_def)
qed

end
