(* ===== verification/Queue_Inspect.thy ===== *)
theory Queue_Inspect
  imports Frames
begin

text \<open>
  Reading the queue back: job records, statistics, results and dead letters, the sweeps that move
  jobs between its structures, and what happens when a worker finishes a job whose lease was
  already recovered.
\<close>

section \<open>Sweeps\<close>

text \<open>
  C13: Promote moves delayed jobs to the ready set when they are due and not before: all due jobs if
  the limit allows, otherwise the earliest ones; it returns how many it moved and touches no
  other job.
\<close>

theorem Promote_moves_due_jobs:
  assumes "redis_server exec view" "refines (view s) m" "wf_queue q"
  shows "\<exists>ids s'. Promote exec NoFault now q limit s = (Inr (int (length ids)), s') \<and>
     selects (due_time m q) now limit ids \<and>
     refines (view s') (\<lambda>i. if i \<in> set ids then map_option to_ready (m i) else m i)"
proof -
  obtain ids d' where sel: "selects (due_time m q) now limit ids"
    and run: "Promote redis_doc NoFault now q limit (view s) = (Inr (int (length ids)), d')"
    and ref: "refines d' (fold (\<lambda>i. upd i to_ready) ids m)"
    using Promote_refines [OF assms(2,3)] by blast
  obtain s' where "Promote exec NoFault now q limit s = (Inr (int (length ids)), s')" "view s' = d'"
    using sim_result [OF redis_server.sim_Promote [OF assms(1)] run] .
  with sel ref show ?thesis
    unfolding fold_upd [OF selects_distinct [OF sel]] by blast
qed

theorem Promote_moves_due_jobs_witness:
  "\<exists>ids s'. Promote redis_doc NoFault 2600 ''default'' 100 store_failed = (Inr (int (length ids)), s') \<and>
     selects (due_time [''j1'' \<mapsto> to_failed False 2500 (to_active 31000 mail_ajob)] ''default'') 2600 100 ids \<and>
     refines (id s') (\<lambda>i. if i \<in> set ids
       then map_option to_ready ([''j1'' \<mapsto> to_failed False 2500 (to_active 31000 mail_ajob)] i)
       else [''j1'' \<mapsto> to_failed False 2500 (to_active 31000 mail_ajob)] i)"
  by (rule Promote_moves_due_jobs [OF logical.redis_server_axioms]) (simp_all add: refines_store_failed)

text \<open>
  C12: Lease recovery makes exactly the jobs with an expired lease ready again (the earliest first,
  up to the limit) and returns their identifiers; a job whose lease lies in the future keeps its
  worker.
\<close>

theorem Recover_expired_leases:
  assumes "redis_server exec view" "refines (view s) m" "wf_queue q"
  shows "\<exists>ids s' m'. RecoverExpiredLeases exec NoFault now q limit s = (Inr ids, s') \<and>
     selects (lease_time m q) now limit ids \<and> refines (view s') m' \<and>
     (\<forall>i. m' i = (if i \<in> set ids then map_option to_ready (m i) else m i)) \<and>
     (\<forall>i a t. m i = Some a \<and> aj_loc a = Active t \<and> now < t \<longrightarrow> m' i = Some a)"
proof -
  obtain ids d' where sel: "selects (lease_time m q) now limit ids"
    and run: "RecoverExpiredLeases redis_doc NoFault now q limit (view s) = (Inr ids, d')"
    and ref: "refines d' (fold (\<lambda>i. upd i to_ready) ids m)"
    using Recover_refines [OF assms(2,3)] by blast
  obtain s' where s': "RecoverExpiredLeases exec NoFault now q limit s = (Inr ids, s')" "view s' = d'"
    using sim_result [OF redis_server.sim_RecoverExpiredLeases [OF assms(1)] run] .
  let ?m = "\<lambda>i. if i \<in> set ids then map_option to_ready (m i) else m i"
  have r: "refines (view s') ?m" using ref s'(2) unfolding fold_upd [OF selects_distinct [OF sel]] by simp
  have "i \<notin> set ids" if "m i = Some a" "aj_loc a = Active t" "now < t" for i a t
    using sel that unfolding selects_def lease_time_Some by fastforce
  then have "\<forall>i a t. m i = Some a \<and> aj_loc a = Active t \<and> now < t \<longrightarrow> ?m i = Some a" by auto
  with s'(1) sel r show ?thesis by (intro exI [of _ ids] exI [of _ s'] exI [of _ ?m]) simp
qed

theorem Recover_expired_leases_witness:
  "\<exists>ids s' m'. RecoverExpiredLeases redis_doc NoFault 20000 ''default'' 100 store2 = (Inr ids, s') \<and>
     refines (id s') m' \<and> m' ''j1'' = Some (to_active 31000 mail_ajob)"
proof -
  obtain ids s' m' where "RecoverExpiredLeases redis_doc NoFault 20000 ''default'' 100 store2 = (Inr ids, s')"
    "refines (id s') m'"
    "\<forall>i a t. [''j1'' \<mapsto> to_active 31000 mail_ajob] i = Some a \<and> aj_loc a = Active t \<and> 20000 < t \<longrightarrow> m' i = Some a"
    using Recover_expired_leases [OF logical.redis_server_axioms, of store2 "[''j1'' \<mapsto> to_active 31000 mail_ajob]"
        "''default''" 20000 100] refines_store2 by auto
  then show ?thesis by (auto simp: to_active_def)
qed

section \<open>A worker that finishes too late\<close>

lemma zset_moves:
  assumes "wf_queue q" "unique_ok u"
  shows "zset_at (leave_active q w i d) (readyKey q) = zset_at d (readyKey q)"
    "zset_at (write_job i fs d) (readyKey q) = zset_at d (readyKey q)"
    "zset_at (bump_stat q f d) (readyKey q) = zset_at d (readyKey q)"
    "zset_at (drop_lock u i d) (readyKey q) = zset_at d (readyKey q)"
    "lookup (leave_active q w i d) (pausedKey q) = lookup d (pausedKey q)"
    "lookup (write_job i fs d) (pausedKey q) = lookup d (pausedKey q)"
    "lookup (bump_stat q f d) (pausedKey q) = lookup d (pausedKey q)"
    "lookup (drop_lock u i d) (pausedKey q) = lookup d (pausedKey q)"
  using assms by (auto simp: move_defs key_simps drop_lock_def unique_ok_def)

text \<open>
  C39: Ack does not check that the worker still owns the job: after the lease was recovered and the
  job is ready again, a late Ack succeeds and marks the job completed, but leaves it in the ready
  set, and the next Dequeue hands the completed job out once more.
\<close>

theorem late_ack_runs_again:
  assumes "redis_server exec view" "refines (view s) m" "wf_queue q" "lookup (view s) (pausedKey q) = None"
    and "is_next m q i" and "Ack exec NoFault now q i w s = (r, s1)"
  shows "r = Inr () \<and> job_field (view s1) i ''state'' = Some ''completed'' \<and>
     (\<exists>rec. fst (Dequeue exec NoFault later q w2 s1) = Inr (Some rec) \<and> ID rec = i)"
proof -
  obtain a where a: "m i = Some a" "aj_queue a = q" "aj_loc a = Ready" using assms(5) by (auto simp: is_next_def)
  obtain h where v: "jview_of (view s) i = place h q (aj_prio a) Ready" and h: "hash_of h i a"
    and wf: "wf_id i" "wf_queue q" "unique_ok (aj_unique a)" "shape (view s)"
    using refines_jobE [OF assms(2) a(1)] a by auto
  let ?d = "after_ack q i w (itoa now) (aj_unique a) (view s)"
  have "Ack redis_doc NoFault now q i w (view s) = (Inr (), ?d)"
    using v h wf run_ackScript [OF wf(4,2,1)] by (simp add: Ack_def go_result_def place_def hash_of_def)
  then have r: "r = Inr ()" and v1: "view s1 = ?d"
    using assms(6) sim_fst [OF redis_server.sim_Ack [OF assms(1)], of NoFault now q i w s]
      sim_snd [OF redis_server.sim_Ack [OF assms(1)], of NoFault now q i w s] by simp_all
  have sh: "shape ?d" using wf by (simp add: after_ack_def)
  obtain z where "zset_at (view s) (readyKey q) = (aj_prio a, i) # z"
    using is_next_head [OF assms(2,3,5) a(1)] by blast
  then have z: "zset_at ?d (readyKey q) = (aj_prio a, i) # z" using wf by (simp add: after_ack_def zset_moves)
  have p: "lookup ?d (pausedKey q) = None" using wf assms(4) by (simp add: after_ack_def zset_moves)
  have st: "job_field ?d i ''state'' = Some ''completed''"
    using wf by (simp add: job_field_jview after_ack_def view_simps)
  have "ID (parseJobRecordFromMap (jv_hash (jview_of (after_dequeue q w2 i later ?d) i))) = i"
    using wf v h by (simp add: after_dequeue_def after_ack_def view_simps parseJobRecordFromMap_def mget_def
        hash_of_def place_def map_add_def)
  then have "\<exists>rec. fst (Dequeue redis_doc NoFault later q w2 ?d) = Inr (Some rec) \<and> ID rec = i"
    using run_Dequeue_pop [OF sh wf(2) p z, of later w2] by simp
  then show ?thesis using r v1 st sim_fst [OF redis_server.sim_Dequeue [OF assms(1)]] by metis
qed

text \<open>The sample job, its lease of 30 s recovered after 40 s.\<close>

definition store_recovered :: dataset where
  "store_recovered = snd (RecoverExpiredLeases redis_doc NoFault 40000 ''default'' 100 store2)"

lemma refines_store_recovered: "refines store_recovered [''j1'' \<mapsto> to_ready (to_active 31000 mail_ajob)]"
proof -
  let ?m = "[''j1'' \<mapsto> to_active 31000 mail_ajob]"
  obtain ids d' where sel: "selects (lease_time ?m ''default'') 40000 100 ids"
    and run: "RecoverExpiredLeases redis_doc NoFault 40000 ''default'' 100 store2 = (Inr ids, d')"
    and ref: "refines d' (fold (\<lambda>i. upd i to_ready) ids ?m)"
    using Recover_refines [OF refines_store2, of "''default''" 40000 100] by auto
  have lt: "lease_time ?m ''default'' i = (if i = ''j1'' then Some 31000 else None)" for i
    by (simp add: lease_time_def to_active_def)
  have "set ids \<subseteq> {''j1''}" using sel by (auto simp: selects_def lt split: if_splits)
  moreover from this have "length ids \<le> 1"
    using selects_distinct [OF sel] distinct_card [of ids] card_mono [of "{''j1''}" "set ids"] by simp
  ultimately have "set ids = {''j1''}" using sel unfolding selects_def lt by auto
  then have "fold (\<lambda>i. upd i to_ready) ids ?m = [''j1'' \<mapsto> to_ready (to_active 31000 mail_ajob)]"
    by (simp add: fold_upd [OF selects_distinct [OF sel]] fun_eq_iff)
  with run ref show ?thesis by (simp add: store_recovered_def)
qed

theorem late_ack_runs_again_witness:
  "fst (Ack redis_doc NoFault 41000 ''default'' ''j1'' ''w1'' store_recovered) = Inr () \<and>
   (\<exists>rec. fst (Dequeue redis_doc NoFault 42000 ''default'' ''w2''
      (snd (Ack redis_doc NoFault 41000 ''default'' ''j1'' ''w1'' store_recovered))) = Inr (Some rec) \<and> ID rec = ''j1'')"
proof -
  have p: "lookup store_recovered (pausedKey ''default'') = None"
    by (simp add: store_recovered_def store2_def paused_frame)
  have n: "is_next [''j1'' \<mapsto> to_ready (to_active 31000 mail_ajob)] ''default'' ''j1''"
    by (simp add: is_next_def to_ready_def to_active_def)
  show ?thesis
    using late_ack_runs_again [OF logical.redis_server_axioms _ _ _ n, of store_recovered 41000 "''w1''" _ _ 42000 "''w2''"]
      p refines_store_recovered by (metis id_apply sample_names(1) prod.collapse)
qed

section \<open>Reading records and results back\<close>

text \<open>Every field survives the string encoding of the hash and the parsing back.\<close>

lemma GetJob_after_Enqueue:
  assumes "redis_server exec view" "refines (view s) m" "fresh (view s) job"
    and "list_all int64 [Priority job, MaxRetries job, CreatedAt job, ScheduledAt job]"
    and "Enqueue exec NoFault job uk period s = (Inr (), s1)"
  shows "fst (GetJob exec NoFault (ID job) s1) = Inr (Some
     (job\<lparr>Attempt := 0, StartedAt := 0, CompletedAt := 0, LastError := '''', UniqueKey := lock_key uk period\<rparr>))"
proof -
  let ?d = "view s" and ?u = "lock_key uk period"
  let ?h = "hash_set (job_fields job ?u) []"
  have run: "Enqueue redis_doc NoFault job uk period ?d = (Inr (), view s1)"
    using assms(5) sim_fst [OF redis_server.sim_Enqueue [OF assms(1)], of NoFault job uk period s]
      sim_snd [OF redis_server.sim_Enqueue [OF assms(1)], of NoFault job uk period s] by (metis fst_conv prod.collapse snd_conv)
  then have "takes_lock uk period \<Longrightarrow> lookup ?d (uniqueKey uk) = None"
    using run_Enqueue_duplicate by (metis Inl_Inr_False fst_conv)
  then have v1: "view s1 = after_enqueue job uk period ?d"
    using run_Enqueue [of ?d job uk period] run assms(2,3) by (auto simp: fresh_def)
  have wf: "wf_id (ID job)" "wf_queue (Queue job)" "lookup ?d (jobKey (ID job)) = None"
    using assms(3) by (auto simp: fresh_def)
  then have "hash_at ?d (jobKey (ID job)) = []" by (simp add: hash_at_def)
  then have h: "hash_at (view s1) (jobKey (ID job)) = ?h" and ty: "has_type THash (view s1) (jobKey (ID job))"
    using wf by (simp_all add: v1 after_enqueue_def insert_job_def move_defs take_lock_def key_simps has_type_def)
  have dist: "distinct (map fst ?h)" by simp
  have ne: "?h \<noteq> []"
  proof
    assume "?h = []"
    then have "map_of ?h ''id'' = None" by simp
    then show False by (simp add: job_fields_def)
  qed
  then obtain f v r where hc: "?h = (f, v) # r" by (cases ?h) auto
  have "fst (GetJob redis_doc NoFault (ID job) (view s1)) = Inr (Some (parseJobRecordFromMap (map_of ?h)))"
    using ty dist map_of_rev_distinct [OF dist]
    by (simp add: GetJob_def go_result_def lcall_def redis_doc.simps typed_def h hc)
  moreover have "parseJobRecordFromMap (map_of ?h) =
      job\<lparr>Attempt := 0, StartedAt := 0, CompletedAt := 0, LastError := '''', UniqueKey := ?u\<rparr>"
    using assms(4)
    by (cases job) (simp add: parseJobRecordFromMap_def mget_def job_fields_def int64_def min_int64_def max_int64_def)
  ultimately show ?thesis by (simp add: sim_fst [OF redis_server.sim_GetJob [OF assms(1)]])
qed

text \<open>
  What Enqueue stores is what GetJob returns: every field of the record survives the encoding
  as strings in a Redis hash and the parsing back (for numbers in the range of int64), with the
  counters and times of a job that has not run.
\<close>

lemma Enqueue_GetJob_roundtrip:
  assumes "redis_server exec view" "refines (view s) m" "fresh (view s) job"
    and "list_all int64 [Priority job, MaxRetries job, CreatedAt job, ScheduledAt job]"
    and "Enqueue exec NoFault job uk period s = (Inr (), s1)"
  shows "fst (GetJob exec NoFault (ID job) s1) = Inr (Some
     (job\<lparr>Attempt := 0, StartedAt := 0, CompletedAt := 0, LastError := '''', UniqueKey := lock_key uk period\<rparr>))"
  by (rule GetJob_after_Enqueue [OF assms])

text \<open>
  A stored result is returned until its time to live has passed (in whole milliseconds, at least
  one) and is gone from then on.
\<close>

lemma SetResult_GetResult_roundtrip:
  assumes "redis_server exec view" "0 < ttl" "SetResult exec NoFault i data ttl s = (r, s1)" "view s2 = tick t (view s1)"
  shows "r = Inr () \<and> fst (GetResult exec NoFault i s2) =
     Inr (if t < clock (view s) + max 1 (ttl div 1000000) then Some data else None)"
proof -
  let ?e = "clock (view s) + max 1 (ttl div 1000000)"
  have "SetResult redis_doc NoFault i data ttl (view s) = (Inr (), put_ttl (view s) (resultKey i) (RString data) (Some ?e))"
    using assms(2) by (simp add: SetResult_def go_result_def lcall_def redis_doc.simps)
  then have r: "r = Inr ()" and v1: "view s1 = put_ttl (view s) (resultKey i) (RString data) (Some ?e)"
    using assms(3) sim_fst [OF redis_server.sim_SetResult [OF assms(1)], of NoFault i data ttl s]
      sim_snd [OF redis_server.sim_SetResult [OF assms(1)], of NoFault i data ttl s] by simp_all
  have l: "lookup (view s2) (resultKey i) = (if t < ?e then Some (RString data) else None)"
    unfolding assms(4) v1 by (simp add: lookup_def live_def tick_def put_ttl_def)
  have "fst (GetResult redis_doc NoFault i (view s2)) = Inr (if t < ?e then Some data else None)"
    by (simp add: GetResult_def go_result_def lcall_def redis_doc.simps typed_def has_type_def str_at_def l)
  with r show ?thesis by (simp add: sim_fst [OF redis_server.sim_GetResult [OF assms(1)]])
qed

section \<open>Statistics and dead letters\<close>

lemma card_zset:
  assumes "zgood z" and "\<And>i. zscore z i \<noteq> None \<longleftrightarrow> P i"
  shows "length z = card {i. P i}"
proof -
  have d: "distinct (map snd z)" using assms(1) by (simp add: zgood_def zset_ok_def)
  have "i \<in> set (map snd z) \<longleftrightarrow> zscore z i \<noteq> None" for i
    by (force simp: zscore_def map_of_eq_None_iff)
  then have "{i. P i} = set (map snd z)" using assms(2) by auto
  with distinct_card [OF d] show ?thesis by simp
qed

lemma distinct_count_list: "(\<And>i. count_list xs i \<le> 1) \<Longrightarrow> distinct xs"
proof (induction xs)
  case (Cons x xs)
  have "count_list xs x = 0" using Cons.prems [of x] by simp
  moreover have "count_list xs i \<le> 1" for i using Cons.prems [of i] by (simp split: if_splits)
  ultimately show ?case using Cons.IH by (simp add: count_list_0_iff)
qed simp

lemma card_list:
  assumes "\<And>i. count_list xs i = (if P i then 1 else 0)"
  shows "length xs = card {i. P i}"
proof -
  have "set xs = {i. P i}" using assms count_list_0_iff by (metis (mono_tags, lifting) mem_Collect_eq subsetI subset_antisym zero_neq_one)
  moreover have "distinct xs" using assms by (intro distinct_count_list) simp
  ultimately show ?thesis using distinct_card by metis
qed

text \<open>How many jobs of a queue are in a place.\<close>

definition jobs_at :: "astate \<Rightarrow> string \<Rightarrow> (loc \<Rightarrow> bool) \<Rightarrow> int" where
  "jobs_at m q P = int (card {i. at_loc m q i P})"

lemma queue_lengths:
  assumes "refines d m" "wf_queue q"
  shows "int (length (zset_at d (readyKey q))) = jobs_at m q (\<lambda>l. l = Ready)"
    "int (length (zset_at d (delayedKey q))) = jobs_at m q (\<lambda>l. \<exists>t. l = Delayed t)"
    "int (length (set_at d (activeKey q))) = jobs_at m q is_active"
    "int (length (list_at d (deadKey q))) = jobs_at m q (\<lambda>l. l = Dead)"
proof -
  note sh = refines_shape [OF assms(1)]
  have wf: "wf_id i" if "at_loc m q i P" for i P using that refines_wf [OF assms(1)] by (auto simp: at_loc_def)
  have good: "zgood (zset_at d (readyKey q))" "zgood (zset_at d (delayedKey q))" using sh assms(2) by simp_all
  have "zscore (zset_at d (readyKey q)) i \<noteq> None \<longleftrightarrow> at_loc m q i (\<lambda>l. l = Ready)" for i
  proof (cases "wf_id i")
    case True
    then show ?thesis unfolding not_None_eq by (auto simp: at_loc_def refines_ready_iff [OF assms True])
  next
    case False
    then show ?thesis using zgood_zscore_wf [OF good(1), of i] wf [of i "\<lambda>l. l = Ready"] by auto
  qed
  then show "int (length (zset_at d (readyKey q))) = jobs_at m q (\<lambda>l. l = Ready)"
    using card_zset [OF good(1)] by (simp add: jobs_at_def)
  have "zscore (zset_at d (delayedKey q)) i \<noteq> None \<longleftrightarrow> at_loc m q i (\<lambda>l. \<exists>t. l = Delayed t)" for i
    by (simp add: due_time_zscore [OF assms] due_time_Some at_loc_def, metis)
  then show "int (length (zset_at d (delayedKey q))) = jobs_at m q (\<lambda>l. \<exists>t. l = Delayed t)"
    using card_zset [OF good(2)] by (simp add: jobs_at_def)
  have s: "sgood (set_at d (activeKey q))" using sh assms(2) by simp
  have "i \<in> set (set_at d (activeKey q)) \<longleftrightarrow> at_loc m q i is_active" for i
    using refines_active_iff [OF assms, of i] s wf [of i] by (auto simp: at_loc_def sgood_def)
  then have "set (set_at d (activeKey q)) = {i. at_loc m q i is_active}" by blast
  then show "int (length (set_at d (activeKey q))) = jobs_at m q is_active"
    using s distinct_card [of "set_at d (activeKey q)"] by (simp add: jobs_at_def sgood_def)
  have "count_list (list_at d (deadKey q)) i = (if at_loc m q i (\<lambda>l. l = Dead) then 1 else 0)" for i
  proof (cases "wf_id i")
    case True
    then show ?thesis using refines_dead_iff [OF assms True] by (auto simp: at_loc_def)
  next
    case False
    have "lgood (list_at d (deadKey q))" using sh assms(2) by simp
    then have "i \<notin> set (list_at d (deadKey q))" using False by (auto simp: lgood_def)
    then show ?thesis using False wf [of i] by (auto simp: count_list_0_iff)
  qed
  then show "int (length (list_at d (deadKey q))) = jobs_at m q (\<lambda>l. l = Dead)"
    by (simp only: jobs_at_def card_list)
qed

lemma run_QueueStats:
  assumes "shape d" "wf_queue q"
  shows "QueueStats redis_doc NoFault q d = (Inr (queue_stats_of
     [RInt (int (length (zset_at d (readyKey q)))), RInt (int (length (set_at d (activeKey q)))),
      RInt (int (length (zset_at d (delayedKey q)))), RInt (int (length (list_at d (deadKey q)))),
      RArr (concat (map (\<lambda>(f, v). [f, v]) (hash_at d (statsKey q))))]), d)"
  using assms by (simp add: QueueStats_def go_result_def pipe_exec_def redis_doc.simps typed_def)

text \<open>
  QueueStats counts the jobs of the queue in each place: the four depths it reports are the
  numbers of ready, active, delayed and dead jobs (the counter hash must not itself have fields
  of these names), and it changes nothing.
\<close>

lemma QueueStats_counts_jobs:
  assumes "redis_server exec view" "refines (view s) m" "wf_queue q"
    and "\<And>f. f \<in> {''ready'', ''active'', ''delayed'', ''dead''} \<Longrightarrow> map_of (hash_at (view s) (statsKey q)) f = None"
  shows "\<exists>st s'. QueueStats exec NoFault q s = (Inr st, s') \<and> view s' = view s \<and>
     st ''ready'' = Some (jobs_at m q (\<lambda>l. l = Ready)) \<and> st ''active'' = Some (jobs_at m q is_active) \<and>
     st ''delayed'' = Some (jobs_at m q (\<lambda>l. \<exists>t. l = Delayed t)) \<and> st ''dead'' = Some (jobs_at m q (\<lambda>l. l = Dead))"
proof -
  let ?d = "view s"
  have sh: "shape ?d" using assms(2) by simp
  then have "counters_ok (hash_at ?d (statsKey q))" using assms(3) by simp
  then have dist: "distinct (map fst (hash_at ?d (statsKey q)))" by (simp add: counters_ok_def)
  obtain s' where "QueueStats exec NoFault q s = (fst (QueueStats redis_doc NoFault q ?d), s')" "view s' = ?d"
    using sim_result [OF redis_server.sim_QueueStats [OF assms(1)] run_QueueStats [OF sh assms(3)]]
    by (metis fst_conv run_QueueStats [OF sh assms(3)])
  then show ?thesis
    using assms(4)
    by (simp add: run_QueueStats [OF sh assms(3)] queue_lengths [OF assms(2,3)] queue_stats_of_def int_reply_def
        map_of_rev_distinct [OF dist] map_add_def)
qed

lemma jobs_at_single: "jobs_at [i \<mapsto> a] q P = (if aj_queue a = q \<and> P (aj_loc a) then 1 else 0)"
proof (cases "aj_queue a = q \<and> P (aj_loc a)")
  case True
  then have "{j. at_loc [i \<mapsto> a] q j P} = {i}" by (auto simp: at_loc_def split: if_splits)
  with True show ?thesis by (simp add: jobs_at_def)
next
  case False
  then have "{j. at_loc [i \<mapsto> a] q j P} = {}" by (auto simp: at_loc_def split: if_splits)
  with False show ?thesis by (simp add: jobs_at_def)
qed

text \<open>
  C17: RetryDead puts exactly a dead job back as ready with its attempts reset and fails for any other
  job; PurgeDead removes all dead jobs of the queue and no other, and returns how many.
\<close>

theorem dead_letters_retry_and_purge:
  assumes "redis_server exec view" "refines (view s) m" "wf_queue q" "wf_id i"
  shows "(if at_loc m q i (\<lambda>l. l = Dead)
      then \<exists>s'. RetryDead exec NoFault q i s = (Inr (), s') \<and> refines (view s') (upd i to_retried m)
      else \<exists>s'. RetryDead exec NoFault q i s =
        (Inl (Plain (''winter: job '' @ i @ '' not found in dead queue'')), s') \<and> refines (view s') m) \<and>
    (\<exists>s'. PurgeDead exec NoFault q s = (Inr (jobs_at m q (\<lambda>l. l = Dead)), s') \<and> refines (view s') (purged q m))"
proof -
  have "if at_loc m q i (\<lambda>l. l = Dead)
      then \<exists>s'. RetryDead exec NoFault q i s = (Inr (), s') \<and> refines (view s') (upd i to_retried m)
      else \<exists>s'. RetryDead exec NoFault q i s =
        (Inl (Plain (''winter: job '' @ i @ '' not found in dead queue'')), s') \<and> refines (view s') m"
  proof (cases "at_loc m q i (\<lambda>l. l = Dead)")
    case True
    then obtain a where "m i = Some a" "aj_queue a = q" "aj_loc a = Dead" by (auto simp: at_loc_def)
    with RetryDead_refines [OF assms(2)] True sim_result [OF redis_server.sim_RetryDead [OF assms(1)]] show ?thesis
      by metis
  next
    case False
    with RetryDead_missing [OF assms(2-4)] sim_result [OF redis_server.sim_RetryDead [OF assms(1)]] show ?thesis
      by (metis (no_types, lifting))
  qed
  moreover have "\<exists>s'. PurgeDead exec NoFault q s = (Inr (jobs_at m q (\<lambda>l. l = Dead)), s') \<and> refines (view s') (purged q m)"
    using PurgeDead_refines [OF assms(2,3)] queue_lengths(4) [OF assms(2,3)]
      sim_result [OF redis_server.sim_PurgeDead [OF assms(1)]] by metis
  ultimately show ?thesis by blast
qed

theorem dead_letters_retry_and_purge_witness:
  "\<exists>s'. PurgeDead redis_doc NoFault ''default'' store1 = (Inr 0, s') \<and> refines s' (purged ''default'' [''j1'' \<mapsto> mail_ajob])"
  using dead_letters_retry_and_purge [OF logical.redis_server_axioms, of store1 "[''j1'' \<mapsto> mail_ajob]" "''default''" "''j1''"]
    refines_store1 by (simp add: jobs_at_single)

end
