(* ===== verification/Go_Time.thy ===== *)
theory Go_Time
  imports Float64
begin

text \<open>
  What the program uses of the package \<open>time\<close> for text: reading a duration (\<open>ParseDuration\<close>) and
  printing one (\<open>Duration.String\<close>). A duration is a number of nanoseconds. The reader computes with
  unsigned 64-bit numbers that it keeps at or below \<open>2 ^ 63\<close>, and with doubles for fractions.
\<close>

section \<open>Reading\<close>

definition hex_digit :: "nat \<Rightarrow> char" where
  "hex_digit n = ''0123456789abcdef'' ! n"

text \<open>How \<open>time\<close> quotes the text of an error, byte by byte.\<close>

definition time_quote :: "string \<Rightarrow> string" where
  "time_quote s =
     CHR 0x22 # concat (map (\<lambda>c.
       if of_char c \<ge> (0x80 :: nat) \<or> of_char c < (0x20 :: nat)
       then [CHR 0x5C, CHR ''x'', hex_digit (of_char c div 16), hex_digit (of_char c mod 16)]
       else if c = CHR 0x22 \<or> c = CHR 0x5C then [CHR 0x5C, c] else [c]) s) @ [CHR 0x22]"

text \<open>The leading digits as a number, unless it is above \<open>2 ^ 63\<close>, and the rest.\<close>

fun leadingInt :: "nat \<Rightarrow> string \<Rightarrow> (nat \<times> string) option" where
  "leadingInt x [] = Some (x, [])"
| "leadingInt x (c # cs) =
     (case digit_val c of
        None \<Rightarrow> Some (x, c # cs)
      | Some d \<Rightarrow>
          if x > 2 ^ 63 div 10 then None
          else if x * 10 + d > 2 ^ 63 then None else leadingInt (x * 10 + d) cs)"

text \<open>The digits of a fraction that fit, the power of ten they stand for, and the rest.\<close>

fun leadingFraction :: "nat \<Rightarrow> nat \<Rightarrow> bool \<Rightarrow> string \<Rightarrow> nat \<times> nat \<times> string" where
  "leadingFraction x scale overflow [] = (x, scale, [])"
| "leadingFraction x scale overflow (c # cs) =
     (case digit_val c of
        None \<Rightarrow> (x, scale, c # cs)
      | Some d \<Rightarrow>
          if overflow \<or> x > (2 ^ 63 - 1) div 10 \<or> x * 10 + d > 2 ^ 63 then leadingFraction x scale True cs
          else leadingFraction (x * 10 + d) (scale * 10) False cs)"

definition unitMap :: "string \<Rightarrow> nat option" where
  "unitMap = map_of
     [(''ns'', 1), (''us'', 1000), ([CHR 0xC2, CHR 0xB5, CHR ''s''], 1000), ([CHR 0xCE, CHR 0xBC, CHR ''s''], 1000),
      (''ms'', 1000000), (''s'', 1000000000), (''m'', 60000000000), (''h'', 3600000000000)]"

definition unit_char :: "char \<Rightarrow> bool" where
  "unit_char c = (c \<noteq> CHR ''.'' \<and> \<not> is_digit c)"

text \<open>One number with its unit: its value in nanoseconds and the rest.\<close>

definition parse_fraction :: "string \<Rightarrow> nat \<times> nat \<times> bool \<times> string" where
  "parse_fraction s =
     (case s of
        c # cs \<Rightarrow> if c = CHR ''.'' then (case leadingFraction 0 1 False cs of (f, scale, r) \<Rightarrow> (f, scale, length r \<noteq> length cs, r))
                  else (0, 1, False, s)
      | [] \<Rightarrow> (0, 1, False, []))"

definition with_fraction :: "nat \<Rightarrow> nat \<Rightarrow> nat \<Rightarrow> nat \<Rightarrow> nat" where
  "with_fraction v f scale unit =
     (if f > 0 then v + nat \<lfloor>round64 (round64 (of_nat f) * round64 (of_nat unit / of_nat scale))\<rfloor> else v)"

definition parse_part :: "string \<Rightarrow> string \<Rightarrow> string + nat \<times> string" where
  "parse_part orig s =
     (let invalid = Inl (''time: invalid duration '' @ time_quote orig) in
      case s of
        [] \<Rightarrow> invalid
      | c # _ \<Rightarrow>
          if \<not> (c = CHR ''.'' \<or> is_digit c) then invalid
          else (case leadingInt 0 s of
                  None \<Rightarrow> invalid
                | Some (v, s1) \<Rightarrow>
                    (case parse_fraction s1 of
                       (f, scale, post, s2) \<Rightarrow>
                         if length s1 = length s \<and> \<not> post then invalid
                         else let u = takeWhile unit_char s2; s3 = dropWhile unit_char s2 in
                              if u = [] then Inl (''time: missing unit in duration '' @ time_quote orig)
                              else (case unitMap u of
                                      None \<Rightarrow> Inl (''time: unknown unit '' @ time_quote u @ '' in duration '' @ time_quote orig)
                                    | Some unit \<Rightarrow>
                                        if v > 2 ^ 63 div unit then invalid
                                        else let v' = with_fraction (v * unit) f scale unit
                                             in if v' > 2 ^ 63 then invalid else Inr (v', s3)))))"

lemma length_leadingInt: "leadingInt x s = Some (v, r) \<Longrightarrow> length r \<le> length s"
  by (induction x s rule: leadingInt.induct) (auto split: option.splits if_splits)

lemma length_leadingFraction: "leadingFraction x sc o' s = (f, sc', r) \<Longrightarrow> length r \<le> length s"
  by (induction x sc o' s rule: leadingFraction.induct) (auto split: option.splits if_splits)

lemma length_parse_fraction: "parse_fraction s = (f, scale, post, r) \<Longrightarrow> length r \<le> length s"
  by (auto simp: parse_fraction_def dest: length_leadingFraction split: list.splits if_splits prod.splits)

lemma parse_part_shorter: "parse_part orig s = Inr (v, r) \<Longrightarrow> length r < length s"
proof -
  assume p: "parse_part orig s = Inr (v, r)"
  then obtain v1 s1 f scale post s2 where s1: "leadingInt 0 s = Some (v1, s1)" and s2: "parse_fraction s1 = (f, scale, post, s2)"
    and u: "takeWhile unit_char s2 \<noteq> []" "r = dropWhile unit_char s2"
    by (auto simp: parse_part_def Let_def split: list.splits if_splits option.splits prod.splits)
  have "length r + length (takeWhile unit_char s2) = length s2"
    unfolding u(2) by (metis add.commute length_append takeWhile_dropWhile_id)
  moreover have "0 < length (takeWhile unit_char s2)" using u(1) by simp
  ultimately show ?thesis using length_leadingInt [OF s1] length_parse_fraction [OF s2] by linarith
qed

function parse_parts :: "string \<Rightarrow> nat \<Rightarrow> string \<Rightarrow> string + nat" where
  "parse_parts orig d s =
     (if s = [] then Inr d
      else case parse_part orig s of
             Inl e \<Rightarrow> Inl e
           | Inr (v, r) \<Rightarrow> if d + v > 2 ^ 63 then Inl (''time: invalid duration '' @ time_quote orig) else parse_parts orig (d + v) r)"
  by pat_completeness auto

termination by (relation "measure (\<lambda>(_, _, s). length s)") (auto dest: parse_part_shorter)

declare parse_parts.simps [simp del]

definition time_ParseDuration :: "string \<Rightarrow> string + int" where
  "time_ParseDuration orig =
     (let invalid = Inl (''time: invalid duration '' @ time_quote orig);
          neg = (orig \<noteq> [] \<and> hd orig = CHR ''-'');
          s = (if orig \<noteq> [] \<and> (hd orig = CHR ''-'' \<or> hd orig = CHR ''+'') then tl orig else orig)
      in if s = ''0'' then Inr 0
         else if s = [] then invalid
         else (case parse_parts orig 0 s of
                 Inl e \<Rightarrow> Inl e
               | Inr d \<Rightarrow> if neg then Inr (- int d) else if d > 2 ^ 63 - 1 then invalid else Inr (int d)))"

text \<open>A duration that is read fits in 64 bits.\<close>

lemma parse_parts_bound: "d \<le> 2 ^ 63 \<Longrightarrow> parse_parts orig d s = Inr n \<Longrightarrow> n \<le> 2 ^ 63"
proof (induction orig d s rule: parse_parts.induct)
  case (1 orig d s)
  show ?case
  proof (cases "s = []")
    case True
    then show ?thesis using "1.prems" by (simp add: parse_parts.simps)
  next
    case False
    then obtain v r where "parse_part orig s = Inr (v, r)" "\<not> d + v > 2 ^ 63" "parse_parts orig (d + v) r = Inr n"
      using "1.prems"(2) by (auto simp: parse_parts.simps [of orig d s] split: sum.splits if_splits)
    then show ?thesis using "1.IH" [OF False, of "(v, r)" v r] by simp
  qed
qed

lemma time_ParseDuration_range: "time_ParseDuration s = Inr d \<Longrightarrow> int64 d"
  by (auto simp: time_ParseDuration_def Let_def int64_def min_int64_def max_int64_def dest!: parse_parts_bound [of 0, simplified]
      split: if_splits sum.splits)

section \<open>Printing\<close>

text \<open>The digits of \<open>v\<close> below \<open>10 ^ prec\<close> as a fraction without trailing zeros, and what is above.\<close>

definition fmtFrac :: "nat \<Rightarrow> nat \<Rightarrow> string \<times> nat" where
  "fmtFrac v prec =
     (let ds = nat_str (v mod 10 ^ prec)
      in (fraction (replicate (prec - length ds) (CHR ''0'') @ ds), v div 10 ^ prec))"

definition duration_String :: "int \<Rightarrow> string" where
  "duration_String d =
     (let u = nat \<bar>d\<bar>; neg = (if d < 0 then ''-'' else '''') in
      if u < 1000000000 then
        if u = 0 then ''0s''
        else if u < 1000 then neg @ nat_str u @ ''ns''
        else if u < 1000000 then (case fmtFrac u 3 of (fs, v) \<Rightarrow> neg @ nat_str v @ fs @ [CHR 0xC2, CHR 0xB5, CHR ''s''])
        else (case fmtFrac u 6 of (fs, v) \<Rightarrow> neg @ nat_str v @ fs @ ''ms'')
      else (case fmtFrac u 9 of (fs, v) \<Rightarrow>
        let secs = nat_str (v mod 60) @ fs @ ''s''; m = v div 60
        in neg @ (if m = 0 then secs
                  else if m div 60 = 0 then nat_str (m mod 60) @ ''m'' @ secs
                  else nat_str (m div 60) @ ''h'' @ nat_str (m mod 60) @ ''m'' @ secs)))"

lemmas parse_duration_simps = time_ParseDuration_def parse_parts.simps parse_part_def parse_fraction_def with_fraction_def
  unitMap_def unit_char_def is_digit_def digit_val_def

lemma ParseDuration_examples:
  "time_ParseDuration ''15s'' = Inr 15000000000" "time_ParseDuration ''60s'' = Inr 60000000000"
  "time_ParseDuration ''30s'' = Inr 30000000000" "time_ParseDuration ''500ms'' = Inr 500000000"
  "time_ParseDuration ''1h15m'' = Inr 4500000000000"
  by (simp_all add: parse_duration_simps)

end
