(* ===== verification/Winter.thy ===== *)
theory Winter
  imports Frames Go_Time "HOL-Library.Word"
begin

text \<open>
  \<^verbatim>\<open>winter.go\<close>: job states and their transition table, the errors a handler returns to
  control its job, the backoff strategies, the enqueue options and \<open>WaitForResult\<close>.
  Durations are in nanoseconds; where the code computes with them at the width of an int64 they
  are 64 bit words.
\<close>

section \<open>Job states\<close>

definition StatePending :: string where "StatePending = ''pending''"
definition StateActive :: string where "StateActive = ''active''"
definition StateCompleted :: string where "StateCompleted = ''completed''"
definition StateFailed :: string where "StateFailed = ''failed''"
definition StateRetry :: string where "StateRetry = ''retry''"
definition StateDead :: string where "StateDead = ''dead''"
definition StateCancelled :: string where "StateCancelled = ''cancelled''"

lemmas state_defs = StatePending_def StateActive_def StateCompleted_def StateFailed_def StateRetry_def
  StateDead_def StateCancelled_def

definition validTransitions :: "string \<rightharpoonup> string list" where
  "validTransitions =
     [StatePending \<mapsto> [StateActive],
      StateActive \<mapsto> [StateCompleted, StateFailed, StateRetry, StateCancelled],
      StateRetry \<mapsto> [StatePending, StateActive],
      StateFailed \<mapsto> [StateDead, StatePending],
      StateDead \<mapsto> [StatePending],
      StateCancelled \<mapsto> [],
      StateCompleted \<mapsto> []]"

definition ValidTransition :: "string \<Rightarrow> string \<Rightarrow> bool" where
  "ValidTransition frm to = (case validTransitions frm of None \<Rightarrow> False | Some targets \<Rightarrow> to \<in> set targets)"

section \<open>Errors of handlers\<close>

text \<open>
  A Go error: a plain error, the two sentinel types, \<open>ErrSkipRetry\<close>, or an error that wraps others
  (\<open>fmt.Errorf\<close> with \<open>%w\<close>, \<open>errors.Join\<close>). \<open>errors.As\<close> and \<open>errors.Is\<close> search it depth first.
\<close>

datatype goerr =
    ErrorString string
  | RescheduleError int
  | CancelError string
  | ErrSkipRetry
  | WrapError string "goerr list"

fun errors_as :: "(goerr \<Rightarrow> 'a option) \<Rightarrow> goerr \<Rightarrow> 'a option"
  and errors_as_any :: "(goerr \<Rightarrow> 'a option) \<Rightarrow> goerr list \<Rightarrow> 'a option" where
  "errors_as f (WrapError msg es) =
     (case f (WrapError msg es) of Some x \<Rightarrow> Some x | None \<Rightarrow> errors_as_any f es)"
| "errors_as f (ErrorString s) = f (ErrorString s)"
| "errors_as f (RescheduleError d) = f (RescheduleError d)"
| "errors_as f (CancelError r) = f (CancelError r)"
| "errors_as f ErrSkipRetry = f ErrSkipRetry"
| "errors_as_any f [] = None"
| "errors_as_any f (e # es) = (case errors_as f e of Some x \<Rightarrow> Some x | None \<Rightarrow> errors_as_any f es)"

definition Reschedule :: "int \<Rightarrow> goerr" where
  "Reschedule d = RescheduleError d"

definition IsReschedule :: "goerr \<Rightarrow> int option" where
  "IsReschedule = errors_as (\<lambda>e. case e of RescheduleError d \<Rightarrow> Some d | _ \<Rightarrow> None)"

definition Cancel :: "string \<Rightarrow> goerr" where
  "Cancel reason = CancelError reason"

definition IsCancel :: "goerr \<Rightarrow> string option" where
  "IsCancel = errors_as (\<lambda>e. case e of CancelError r \<Rightarrow> Some r | _ \<Rightarrow> None)"

definition IsSkipRetry :: "goerr \<Rightarrow> bool" where
  "IsSkipRetry e \<longleftrightarrow> errors_as (\<lambda>e. case e of ErrSkipRetry \<Rightarrow> Some () | _ \<Rightarrow> None) e \<noteq> None"

text \<open>The text of an error.\<close>

fun Error :: "goerr \<Rightarrow> string" where
  "Error (ErrorString s) = s"
| "Error (RescheduleError d) = ''winter: reschedule in '' @ duration_String d"
| "Error (CancelError r) = ''winter: cancel: '' @ r"
| "Error ErrSkipRetry = ''winter: skip retry''"
| "Error (WrapError msg es) = msg"

section \<open>Backoff\<close>

type_synonym dur = "64 word"

definition ns :: "int \<Rightarrow> dur" where
  "ns n = word_of_int n"

definition maxBackoff :: dur where
  "maxBackoff = ns (3600 * 1000000000)"

text \<open>
  \<open>time.Duration(math.Pow(2, float64(attempt)))\<close>: the power is exact; its conversion truncates a
  fraction to 0 and is implementation dependent beyond the range of int64 (\<open>conv\<close>).
\<close>

definition pow2_duration :: "(int \<Rightarrow> dur) \<Rightarrow> int \<Rightarrow> dur" where
  "pow2_duration conv attempt =
     (if attempt < 0 then 0 else if attempt < 63 then word_of_int (2 ^ nat attempt) else conv attempt)"

datatype BackoffStrategy = Exponential dur | Linear dur | Fixed dur

fun Next :: "(int \<Rightarrow> dur) \<Rightarrow> BackoffStrategy \<Rightarrow> int \<Rightarrow> dur" where
  "Next conv (Exponential base) attempt =
     (let d = base * pow2_duration conv attempt in if maxBackoff <s d then maxBackoff else d)"
| "Next conv (Linear step) attempt = step * ns (attempt + 1)"
| "Next conv (Fixed d) attempt = d"

section \<open>Options\<close>

text \<open>Times are nanoseconds since the epoch, \<open>None\<close> is the zero \<open>time.Time\<close>.\<close>

record insertOpts =
  io_queue :: string
  io_priority :: int
  io_scheduledAt :: "int option"
  io_uniquePeriod :: int

datatype EnqueueOption = OptQueue string | OptPriority int | OptIn int | OptAt "int option" | OptUnique int

text \<open>Applying an option; \<open>now\<close> is the \<open>time.Now()\<close> that \<open>In\<close> reads.\<close>

fun apply_opt :: "int \<Rightarrow> EnqueueOption \<Rightarrow> insertOpts \<Rightarrow> insertOpts" where
  "apply_opt now (OptQueue name) o' = o'\<lparr>io_queue := name\<rparr>"
| "apply_opt now (OptPriority p) o' = o'\<lparr>io_priority := p\<rparr>"
| "apply_opt now (OptIn d) o' = o'\<lparr>io_scheduledAt := Some (now + d)\<rparr>"
| "apply_opt now (OptAt t) o' = o'\<lparr>io_scheduledAt := t\<rparr>"
| "apply_opt now (OptUnique period) o' = o'\<lparr>io_uniquePeriod := period\<rparr>"

definition default_opts :: insertOpts where
  "default_opts = \<lparr>io_queue = ''default'', io_priority = 5, io_scheduledAt = None, io_uniquePeriod = 0\<rparr>"

definition apply_opts :: "int \<Rightarrow> EnqueueOption list \<Rightarrow> insertOpts \<Rightarrow> insertOpts" where
  "apply_opts now opts o' = fold (apply_opt now) opts o'"

section \<open>Waiting for a result\<close>

text \<open>
  \<open>WaitForResult\<close> polls until a result is there or its context ends. Each round meets a fault and
  is followed by what the rest of the system does until the next tick; the context ends when the
  rounds do, with \<open>ctxErr\<close>. \<open>unmarshal\<close> is \<open>json.Unmarshal\<close> into the result type.
\<close>

fun WaitForResult :: "'s server \<Rightarrow> (string \<Rightarrow> string + 'r) \<Rightarrow> string \<Rightarrow> (fault \<times> ('s \<Rightarrow> 's)) list \<Rightarrow> string \<Rightarrow>
    's \<Rightarrow> (qerr + 'r) \<times> 's" where
  "WaitForResult exec unmarshal ctxErr [] jobID s = (Inl (Plain ctxErr), s)"
| "WaitForResult exec unmarshal ctxErr ((flt, env) # rounds) jobID s =
     (case GetResult exec flt jobID s of
        (Inl e, s') \<Rightarrow> (Inl e, s')
      | (Inr (Some data), s') \<Rightarrow>
          (case unmarshal data of
             Inl e \<Rightarrow> (Inl (Wrapped ''winter: unmarshal result'' e), s')
           | Inr r \<Rightarrow> (Inr r, s'))
      | (Inr None, s') \<Rightarrow> WaitForResult exec unmarshal ctxErr rounds jobID (env s'))"

section \<open>Correctness of the errors\<close>

lemma errors_as_any_first:
  "errors_as_any f (es @ e # es') =
     (case errors_as_any f es of Some x \<Rightarrow> Some x | None \<Rightarrow> errors_as_any f (e # es'))"
  by (induction es) (auto split: option.split)

text \<open>An error wraps another when it contains it at some depth.\<close>

inductive wraps :: "goerr \<Rightarrow> goerr \<Rightarrow> bool" where
  wraps_self: "wraps e e"
| wraps_in: "e' \<in> set es \<Longrightarrow> wraps e' x \<Longrightarrow> wraps (WrapError msg es) x"

inductive_cases wraps_WrapE: "wraps (WrapError msg es) x"

lemma wraps_simple:
  "wraps (ErrorString s) x \<longleftrightarrow> x = ErrorString s" "wraps (RescheduleError d) x \<longleftrightarrow> x = RescheduleError d"
  "wraps (CancelError r) x \<longleftrightarrow> x = CancelError r" "wraps ErrSkipRetry x \<longleftrightarrow> x = ErrSkipRetry"
  by (auto elim: wraps.cases intro: wraps.intros)

lemma errors_as_None:
  "errors_as f e = None \<longleftrightarrow> (\<forall>x. wraps e x \<longrightarrow> f x = None)"
  "errors_as_any f es = None \<longleftrightarrow> (\<forall>e\<in>set es. \<forall>x. wraps e x \<longrightarrow> f x = None)"
proof (induction f e and f es rule: errors_as_errors_as_any.induct)
  case (1 f msg es)
  have "(\<forall>x. wraps (WrapError msg es) x \<longrightarrow> f x = None) \<longleftrightarrow>
      f (WrapError msg es) = None \<and> (\<forall>e\<in>set es. \<forall>x. wraps e x \<longrightarrow> f x = None)"
    by (auto elim!: wraps_WrapE intro: wraps.intros)
  with 1 show ?case by (auto split: option.split)
qed (auto simp: wraps_simple split: option.split)

lemma errors_as_Some:
  "errors_as f e = Some y \<Longrightarrow> \<exists>x. wraps e x \<and> f x = Some y"
  "errors_as_any f es = Some y \<Longrightarrow> \<exists>e\<in>set es. \<exists>x. wraps e x \<and> f x = Some y"
  by (induction f e and f es rule: errors_as_errors_as_any.induct)
    (auto intro: wraps.intros split: option.splits)

section \<open>Exponential backoff\<close>

lemma ns_sint: "- (2 ^ 63) \<le> n \<Longrightarrow> n < 2 ^ 63 \<Longrightarrow> sint (ns n) = n"
  by (simp add: ns_def sint_sbintrunc' signed_take_bit_int_eq_self)

lemma maxBackoff_sint [simp]: "sint maxBackoff = 3600 * 1000000000"
  unfolding maxBackoff_def by (rule ns_sint) simp_all

lemma Exponential_product:
  assumes "0 \<le> attempt" "attempt < 63"
  shows "ns base * pow2_duration conv attempt = ns (base * 2 ^ nat attempt)"
  using assms by (simp add: pow2_duration_def ns_def)

lemma Exponential_in_range:
  assumes "0 \<le> attempt" "attempt < 63" "0 \<le> base" "base * 2 ^ nat attempt < 2 ^ 63"
  shows "sint (Next conv (Exponential (ns base)) attempt) = min (3600 * 1000000000) (base * 2 ^ nat attempt)"
proof -
  have "sint (ns (base * 2 ^ nat attempt)) = base * 2 ^ nat attempt"
    using assms(3,4) by (intro ns_sint) (auto intro: order_trans [of _ 0])
  then show ?thesis
    using Exponential_product [OF assms(1,2)] by (auto simp: Let_def word_sless_alt min_def)
qed

text \<open>
  Within the range where the multiplication does not overflow, the backoff of the server's
  retry policy is what its documentation says: with a base of one second, attempt n waits 2^n
  seconds, at most one hour. This holds for the first 34 attempts.
\<close>

lemma exponential_backoff_doubles:
  assumes "0 \<le> attempt" "attempt \<le> 33"
  shows "sint (Next conv (Exponential (ns 1000000000)) attempt) = min (3600 * 1000000000) (1000000000 * 2 ^ nat attempt)"
proof (rule Exponential_in_range)
  have "(2::int) ^ nat attempt \<le> 2 ^ 33" using assms by (intro power_increasing) auto
  then show "(1000000000::int) * 2 ^ nat attempt < 2 ^ 63" by simp
qed (use assms in auto)

text \<open>A 64-bit word read as a signed number.\<close>

definition wrap64 :: "int \<Rightarrow> int" where
  "wrap64 n = (n + 2 ^ 63) mod 2 ^ 64 - 2 ^ 63"

lemma ns_wrap64: "sint (ns n) = wrap64 n"
  by (simp add: ns_def wrap64_def sint_sbintrunc' signed_take_bit_eq_take_bit_shift take_bit_eq_mod)

lemma wrap64_id: "- (2 ^ 63) \<le> n \<Longrightarrow> n < 2 ^ 63 \<Longrightarrow> wrap64 n = n"
  by (simp add: wrap64_def)

lemma wrap64_dvd: "2 ^ 64 dvd n \<Longrightarrow> wrap64 n = 0"
  by (auto simp: wrap64_def dvd_def)

lemma Exponential_wraps:
  assumes "0 \<le> attempt" "attempt < 63"
  shows "sint (Next conv (Exponential (ns base)) attempt) = min (3600 * 1000000000) (wrap64 (base * 2 ^ nat attempt))"
  using Exponential_product [OF assms] by (auto simp: Let_def word_sless_alt min_def ns_wrap64)

text \<open>
  C38: The delay of an exponential backoff, for any positive base and any attempt whose power of two is a
  64-bit number, is never above one hour, but the product wraps around before that cap is applied: the delay
  is the documented one, the base times two to the attempt and at most one hour, exactly when that product fits 64
  signed bits or what is left of it after wrapping around is at least one hour; and when the base and the power have
  64 factors of two together the delay is 0.
\<close>

theorem exponential_backoff_overflows:
  assumes "0 \<le> attempt" "attempt < 63" "0 < base" "base < 2 ^ 63"
  shows "sint (Next conv (Exponential (ns base)) attempt) \<le> 3600 * 1000000000 \<and>
     (sint (Next conv (Exponential (ns base)) attempt) = min (3600 * 1000000000) (base * 2 ^ nat attempt) \<longleftrightarrow>
        base * 2 ^ nat attempt < 2 ^ 63 \<or>
        3600 * 1000000000 \<le> (base * 2 ^ nat attempt + 2 ^ 63) mod 2 ^ 64 - 2 ^ 63) \<and>
     (2 ^ (64 - nat attempt) dvd base \<longrightarrow> sint (Next conv (Exponential (ns base)) attempt) = 0)"
proof -
  let ?d = "sint (Next conv (Exponential (ns base)) attempt)" and ?p = "base * 2 ^ nat attempt"
  have d: "?d = min (3600 * 1000000000) (wrap64 ?p)" by (rule Exponential_wraps [OF assms(1,2)])
  have pos: "0 \<le> ?p" using assms(3) by simp
  have "?d = min (3600 * 1000000000) ?p \<longleftrightarrow> ?p < 2 ^ 63 \<or> 3600 * 1000000000 \<le> wrap64 ?p"
  proof (cases "?p < 2 ^ 63")
    case True
    then have "wrap64 ?p = ?p" using pos by (intro wrap64_id) simp_all
    then show ?thesis using True by (simp only: d simp_thms)
  next
    case False
    then have "min (3600 * 1000000000) ?p = 3600 * 1000000000" by (intro min_absorb1) (simp add: not_less)
    then show ?thesis unfolding d using False by (simp only: min_def) auto
  qed
  moreover have "?d = 0" if "2 ^ (64 - nat attempt) dvd base"
  proof -
    have "(2::int) ^ 64 = 2 ^ (64 - nat attempt) * 2 ^ nat attempt"
      unfolding power_add [symmetric] using assms(2) by simp
    then have "2 ^ 64 dvd ?p" using mult_dvd_mono [OF that dvd_refl, of "2 ^ nat attempt"] by (simp only:)
    then show ?thesis unfolding d by (simp add: wrap64_dvd)
  qed
  ultimately show ?thesis using d unfolding wrap64_def by (auto simp only: min.cobounded1 simp_thms)
qed

text \<open>The server's base of one second at attempt 34: the delay is not the documented hour.\<close>

theorem exponential_backoff_overflows_witness:
  "sint (Next (\<lambda>_. 0) (Exponential (ns 1000000000)) 34) \<noteq> min (3600 * 1000000000) (1000000000 * 2 ^ nat 34) \<and>
   sint (Next (\<lambda>_. 0) (Exponential (ns 1000000000)) 55) = 0"
  using exponential_backoff_overflows [of 34 1000000000 "\<lambda>_. 0"] exponential_backoff_overflows [of 55 1000000000 "\<lambda>_. 0"]
  by simp

text \<open>With a base of one second: the attempts whose delay is 0 or negative, so that the job is retried at once.\<close>

lemma one_second_overflows:
  assumes "0 \<le> attempt" "attempt < 63"
  shows "sint (Next conv (Exponential (ns 1000000000)) attempt) \<le> 0 \<longleftrightarrow>
     attempt \<in> {34, 35, 36, 38, 39, 40, 43, 44, 46, 48, 49, 52} \<union> {54..62}"
proof -
  have "list_all (\<lambda>n. min (3600 * 1000000000) (wrap64 (1000000000 * 2 ^ nat n)) \<le> 0 \<longleftrightarrow>
      (n \<in> {34, 35, 36, 38, 39, 40, 43, 44, 46, 48, 49, 52} \<or> 54 \<le> n)) [0..62]"
    by code_simp
  then show ?thesis unfolding Exponential_wraps [OF assms] using assms by (simp add: list_all_iff)
qed

text \<open>
  Whatever an error wraps and however deep, the three sentinels are recognised exactly when they
  are in it, and the delay or reason reported is one that is in it.
\<close>

lemma sentinels_found_when_wrapped:
  "(IsReschedule e = None \<longleftrightarrow> (\<forall>d. \<not> wraps e (RescheduleError d))) \<and>
   (IsCancel e = None \<longleftrightarrow> (\<forall>r. \<not> wraps e (CancelError r))) \<and>
   (IsSkipRetry e \<longleftrightarrow> wraps e ErrSkipRetry) \<and>
   (\<forall>d\<in>set_option (IsReschedule e). wraps e (RescheduleError d)) \<and>
   (\<forall>r\<in>set_option (IsCancel e). wraps e (CancelError r))"
proof (intro conjI ballI)
  show "IsReschedule e = None \<longleftrightarrow> (\<forall>d. \<not> wraps e (RescheduleError d))"
    unfolding IsReschedule_def errors_as_None by (auto split: goerr.splits)
  show "IsCancel e = None \<longleftrightarrow> (\<forall>r. \<not> wraps e (CancelError r))"
    unfolding IsCancel_def errors_as_None by (auto split: goerr.splits)
  have "(case x of ErrSkipRetry \<Rightarrow> Some () | _ \<Rightarrow> None) = None \<longleftrightarrow> x \<noteq> ErrSkipRetry" for x by (cases x) auto
  then show "IsSkipRetry e \<longleftrightarrow> wraps e ErrSkipRetry"
    unfolding IsSkipRetry_def errors_as_None by auto
  show "wraps e (RescheduleError d)" if "d \<in> set_option (IsReschedule e)" for d
    using that errors_as_Some(1) by (fastforce simp: IsReschedule_def split: goerr.splits)
  show "wraps e (CancelError r)" if "r \<in> set_option (IsCancel e)" for r
    using that errors_as_Some(1) by (fastforce simp: IsCancel_def split: goerr.splits)
qed

section \<open>The transition table\<close>

text \<open>The state a job shows before and after a step of the queue.\<close>

definition queue_transitions :: "(string \<times> string) set" where
  "queue_transitions = {(aj_state a, aj_state b) | a b.
     job_step a (Some b) \<and> aj_state a \<in> set (states_of (aj_loc a)) \<and> aj_state a \<noteq> aj_state b}"

lemma queue_transitions_eq:
  "queue_transitions =
     {(''pending'', ''active''), (''active'', ''completed''), (''active'', ''cancelled''), (''active'', ''pending''),
      (''active'', ''retry''), (''active'', ''dead''), (''retry'', ''pending''), (''dead'', ''pending'')}" (is "?L = ?R")
proof
  have "(aj_state a, aj_state b) \<in> ?R"
    if "job_step a (Some b)" and st: "aj_state a \<in> set (states_of (aj_loc a))" "aj_state a \<noteq> aj_state b" for a b
    using that(1)
  proof cases
    case (j_failed skip t)
    then show ?thesis using st by (cases "exhausted skip a") (auto simp: to_failed_def)
  next
    case (j_promoted t)
    then show ?thesis using st by (auto simp: to_ready_def)
  qed (use st in \<open>auto simp: to_active_def to_completed_def to_cancelled_def to_delayed_def to_ready_def to_retried_def\<close>)
  then show "?L \<subseteq> ?R" unfolding queue_transitions_def by blast
  have ex: "(st, aj_state b) \<in> ?L"
    if "job_step (mail_ajob\<lparr>aj_loc := l, aj_state := st\<rparr>) (Some b)" "st \<in> set (states_of l)" "st \<noteq> aj_state b" for st l b
    using that unfolding queue_transitions_def
    by (intro CollectI exI [of _ "mail_ajob\<lparr>aj_loc := l, aj_state := st\<rparr>"] exI [of _ b]) simp
  let ?act = "mail_ajob\<lparr>aj_loc := Active 0, aj_state := ''active''\<rparr>"
  have "(''pending'', ''active'') \<in> ?L"
    using ex [OF job_step.j_active [of "mail_ajob\<lparr>aj_loc := Ready, aj_state := ''pending''\<rparr>" 0]] by (simp add: to_active_def)
  moreover have "(''active'', ''completed'') \<in> ?L"
    using ex [OF job_step.j_completed [of ?act]] by (simp add: to_completed_def)
  moreover have "(''active'', ''cancelled'') \<in> ?L"
    using ex [OF job_step.j_cancelled [of ?act]] by (simp add: to_cancelled_def)
  moreover have "(''active'', ''pending'') \<in> ?L"
    using ex [OF job_step.j_recovered [of ?act]] by (simp add: to_ready_def)
  moreover have "(''active'', ''retry'') \<in> ?L"
    using ex [OF job_step.j_failed [of ?act False 0]] by (simp add: to_failed_def exhausted_def)
  moreover have "(''active'', ''dead'') \<in> ?L"
    using ex [OF job_step.j_failed [of ?act True 0]] by (simp add: to_failed_def exhausted_def)
  moreover have "(''retry'', ''pending'') \<in> ?L"
    using ex [OF job_step.j_promoted [of "mail_ajob\<lparr>aj_loc := Delayed 0, aj_state := ''retry''\<rparr>" 0]] by (simp add: to_ready_def)
  moreover have "(''dead'', ''pending'') \<in> ?L"
    using ex [OF job_step.j_retried [of "mail_ajob\<lparr>aj_loc := Dead, aj_state := ''dead''\<rparr>"]] by (simp add: to_retried_def)
  ultimately show "?R \<subseteq> ?L" by blast
qed

lemma ValidTransition_iff:
  "ValidTransition x y \<longleftrightarrow> (x, y) \<in> set
     [(''pending'', ''active''), (''active'', ''completed''), (''active'', ''failed''), (''active'', ''retry''),
      (''active'', ''cancelled''), (''retry'', ''pending''), (''retry'', ''active''), (''failed'', ''dead''),
      (''failed'', ''pending''), (''dead'', ''pending'')]"
  by (simp add: ValidTransition_def validTransitions_def state_defs)

text \<open>
  The transition table of winter.go and the state changes the queue makes agree except in two
  places: the queue moves jobs from active to pending (reschedule and lease recovery) and from active to
  dead, which the table rejects, while the table's states and edges through failed and its edge
  from retry to active are never used.
\<close>

lemma transition_table_differs:
  "{t \<in> queue_transitions. \<not> ValidTransition (fst t) (snd t)} = {(''active'', ''pending''), (''active'', ''dead'')} \<and>
   {(x, y). ValidTransition x y} - queue_transitions =
     {(''active'', ''failed''), (''retry'', ''active''), (''failed'', ''dead''), (''failed'', ''pending'')}"
proof -
  have table: "{(x, y). ValidTransition x y} =
     {(''pending'', ''active''), (''active'', ''completed''), (''active'', ''failed''), (''active'', ''retry''),
      (''active'', ''cancelled''), (''retry'', ''pending''), (''retry'', ''active''), (''failed'', ''dead''),
      (''failed'', ''pending''), (''dead'', ''pending'')}"
    unfolding ValidTransition_iff list.set by (simp only: split_def prod.collapse Collect_mem_eq)
  have "ValidTransition x y \<longleftrightarrow> (x, y) \<in> {(x, y). ValidTransition x y}" for x y by simp
  then have "{t \<in> queue_transitions. \<not> ValidTransition (fst t) (snd t)} = queue_transitions - {(x, y). ValidTransition x y}"
    by auto
  then show ?thesis unfolding table queue_transitions_eq by (simp add: insert_Diff_if)
qed

end
