(* ===== verification/Client.thy ===== *)
theory Client
  imports Winter
begin

text \<open>
  \<^verbatim>\<open>client.go\<close>: the typed enqueue API. A task is its kind, the outcome of marshalling it to
  JSON and, when it implements \<open>TaskWithOptions\<close>, its options. The clock, the fresh identifiers
  and the SHA-256 digest in hexadecimal are arguments.
\<close>

record Rate =
  Max :: int
  Per :: int

record TaskOptions =
  to_queue :: string
  to_maxRetries :: int
  to_timeout :: int
  to_backoff :: "BackoffStrategy option"
  to_rateLimit :: Rate

record Task =
  t_kind :: string
  t_json :: "string + string"
  t_options :: "TaskOptions option"

text \<open>The fields of \<open>Job[T]\<close> that the enqueue functions fill in.\<close>

record Job =
  j_id :: string
  j_kind :: string
  j_queue :: string
  j_priority :: int
  j_state :: string
  j_attempt :: int
  j_maxRetries :: int
  j_createdAt :: int
  j_scheduledAt :: "int option"

definition blank_record :: JobRecord where
  "blank_record = \<lparr>ID = '''', Kind = '''', Queue = '''', Priority = 0, State = '''', Payload = '''', Attempt = 0,
     MaxRetries = 0, CreatedAt = 0, ScheduledAt = 0, StartedAt = 0, CompletedAt = 0, LastError = '''',
     UniqueKey = '''', WorkflowID = ''''\<rparr>"

text \<open>Overriding the queue and the retry limit by the task's options.\<close>

definition task_queue :: "Task \<Rightarrow> string \<Rightarrow> string" where
  "task_queue t q =
     (case t_options t of None \<Rightarrow> q | Some o' \<Rightarrow> if to_queue o' \<noteq> '''' then to_queue o' else q)"

definition task_maxRetries :: "Task \<Rightarrow> int" where
  "task_maxRetries t =
     (case t_options t of None \<Rightarrow> 3 | Some o' \<Rightarrow> if to_maxRetries o' > 0 then to_maxRetries o' else 3)"

definition scheduled_ms :: "insertOpts \<Rightarrow> int" where
  "scheduled_ms o' = (case io_scheduledAt o' of None \<Rightarrow> 0 | Some t \<Rightarrow> unixMilli t)"

definition unique_name :: "(string \<Rightarrow> string) \<Rightarrow> string \<Rightarrow> string \<Rightarrow> string" where
  "unique_name sha kind payload = kind @ '':'' @ sha payload"

definition marshal_err :: "string \<Rightarrow> qerr" where
  "marshal_err e = Wrapped ''winter: marshal args'' e"

definition client_Enqueue :: "'s server \<Rightarrow> (string \<Rightarrow> string) \<Rightarrow> fault \<Rightarrow> int \<Rightarrow> int \<Rightarrow> string \<Rightarrow> Task \<Rightarrow> EnqueueOption list \<Rightarrow>
    's \<Rightarrow> (qerr + Job) \<times> 's" where
  "client_Enqueue exec sha flt optNow now uuid args opts s =
     (let o0 = default_opts\<lparr>io_queue := task_queue args ''default''\<rparr>;
          o' = apply_opts optNow opts o0
      in case t_json args of
           Inl e \<Rightarrow> (Inl (marshal_err e), s)
         | Inr payload \<Rightarrow>
             (let uniqueKey = (if io_uniquePeriod o' > 0 then unique_name sha (t_kind args) payload else '''');
                  job = blank_record\<lparr>ID := uuid, Kind := t_kind args, Queue := io_queue o', Priority := io_priority o',
                    State := StatePending, Payload := payload, MaxRetries := task_maxRetries args,
                    CreatedAt := unixMilli now, ScheduledAt := scheduled_ms o'\<rparr>
              in case Enqueue exec flt job uniqueKey (io_uniquePeriod o') s of
                   (Inl e, s') \<Rightarrow> (Inl e, s')
                 | (Inr _, s') \<Rightarrow>
                     (Inr \<lparr>j_id = uuid, j_kind = t_kind args, j_queue = io_queue o', j_priority = io_priority o',
                        j_state = StatePending, j_attempt = 0, j_maxRetries = task_maxRetries args,
                        j_createdAt = now, j_scheduledAt = io_scheduledAt o'\<rparr>, s')))"

text \<open>The records of a batch: the loop over the tasks stops at the first that cannot be marshalled.\<close>

definition batch_record :: "int \<Rightarrow> insertOpts \<Rightarrow> string \<Rightarrow> Task \<Rightarrow> string \<Rightarrow> JobRecord" where
  "batch_record now o' uuid args payload =
     blank_record\<lparr>ID := uuid, Kind := t_kind args, Queue := task_queue args (io_queue o'),
       Priority := io_priority o', State := StatePending, Payload := payload,
       MaxRetries := task_maxRetries args, CreatedAt := unixMilli now, ScheduledAt := scheduled_ms o'\<rparr>"

definition batch_job :: "int \<Rightarrow> insertOpts \<Rightarrow> string \<Rightarrow> Task \<Rightarrow> Job" where
  "batch_job now o' uuid args =
     \<lparr>j_id = uuid, j_kind = t_kind args, j_queue = task_queue args (io_queue o'), j_priority = io_priority o',
      j_state = StatePending, j_attempt = 0, j_maxRetries = task_maxRetries args, j_createdAt = now,
      j_scheduledAt = io_scheduledAt o'\<rparr>"

fun batch_records :: "int \<Rightarrow> insertOpts \<Rightarrow> (nat \<Rightarrow> string) \<Rightarrow> nat \<Rightarrow> Task list \<Rightarrow> qerr + (JobRecord \<times> Job) list" where
  "batch_records now o' uuid i [] = Inr []"
| "batch_records now o' uuid i (args # tasks) =
     (case t_json args of
        Inl e \<Rightarrow> Inl (Wrapped (''winter: marshal args['' @ itoa (int i) @ '']'') e)
      | Inr payload \<Rightarrow>
          (case batch_records now o' uuid (Suc i) tasks of
             Inl e \<Rightarrow> Inl e
           | Inr rs \<Rightarrow> Inr ((batch_record now o' (uuid i) args payload, batch_job now o' (uuid i) args) # rs)))"

definition client_EnqueueMany :: "'s server \<Rightarrow> (nat \<Rightarrow> fault) \<Rightarrow> (nat \<Rightarrow> fault) \<Rightarrow> int \<Rightarrow> int \<Rightarrow> (nat \<Rightarrow> string) \<Rightarrow>
    Task list \<Rightarrow> EnqueueOption list \<Rightarrow> 's \<Rightarrow> (qerr + Job list) \<times> 's" where
  "client_EnqueueMany exec loadF execF optNow now uuid tasks opts s =
     (let o' = apply_opts optNow opts default_opts
      in case batch_records now o' uuid 0 tasks of
           Inl e \<Rightarrow> (Inl e, s)
         | Inr rs \<Rightarrow>
             (case EnqueueMany exec loadF execF (map fst rs) s of
                (Inl e, s') \<Rightarrow> (Inl e, s')
              | (Inr _, s') \<Rightarrow> (Inr (map snd rs), s')))"

section \<open>Options take effect\<close>

text \<open>The last option of a kind wins.\<close>

lemma apply_opts_last:
  "io_queue (apply_opts now (opts @ [OptQueue q]) o') = q"
  "io_priority (apply_opts now (opts @ [OptPriority p]) o') = p"
  "io_uniquePeriod (apply_opts now (opts @ [OptUnique d]) o') = d"
  by (simp_all add: apply_opts_def)

fun sets_queue :: "EnqueueOption \<Rightarrow> bool" where
  "sets_queue (OptQueue _) = True"
| "sets_queue _ = False"

lemma apply_opts_queue:
  assumes "\<not> list_ex sets_queue opts"
  shows "io_queue (apply_opts now opts o') = io_queue o'"
proof -
  have "io_queue (apply_opt now opt o') = io_queue o'" if "\<not> sets_queue opt" for opt o'
    using that by (cases opt) auto
  then show ?thesis using assms by (induction opts arbitrary: o') (auto simp: apply_opts_def)
qed

lemma apply_opts_queue_indep:
  assumes "list_ex sets_queue opts"
  shows "io_queue (apply_opts now opts o1) = io_queue (apply_opts now opts o2)"
proof -
  have same: "io_queue o1 = io_queue o2 \<Longrightarrow> io_queue (apply_opts now opts o1) = io_queue (apply_opts now opts o2)" for opts o1 o2
  proof (induction opts arbitrary: o1 o2)
    case (Cons opt opts)
    have "io_queue (apply_opt now opt o1) = io_queue (apply_opt now opt o2)" using Cons.prems by (cases opt) auto
    from Cons.IH [OF this] show ?case by (simp add: apply_opts_def)
  qed (simp add: apply_opts_def)
  show ?thesis using assms
  proof (induction opts arbitrary: o1 o2)
    case (Cons opt opts)
    show ?case
    proof (cases "sets_queue opt")
      case True
      then have "io_queue (apply_opt now opt o1) = io_queue (apply_opt now opt o2)" by (cases opt) simp_all
      from same [OF this] show ?thesis by (simp add: apply_opts_def)
    next
      case False
      with Cons.prems have "list_ex sets_queue opts" by simp
      from Cons.IH [OF this, of "apply_opt now opt o1" "apply_opt now opt o2"] show ?thesis by (simp add: apply_opts_def)
    qed
  qed simp
qed

text \<open>
  Where the queue of a job comes from. A single Enqueue lets an explicit Queue option win over the
  queue of the task; EnqueueMany does the opposite, although its documentation says that its
  options apply to all jobs of the batch: a task with a queue of its own ignores them.
\<close>

lemma queue_precedence_differs:
  assumes "t_json args = Inr payload" "t_options args = Some to" "to_queue to \<noteq> ''''" "list_ex sets_queue opts"
    and "client_Enqueue exec sha flt now now uuid args opts s = (Inr job, s1)"
    and "client_EnqueueMany exec' loadF execF now now (\<lambda>_. uuid) [args] opts s' = (Inr jobs, s2)"
  shows "j_queue job = io_queue (apply_opts now opts default_opts) \<and> map j_queue jobs = [to_queue to]"
proof -
  have "j_queue job = io_queue (apply_opts now opts (default_opts\<lparr>io_queue := task_queue args ''default''\<rparr>))"
    using assms(1,5) by (auto simp: client_Enqueue_def Let_def split: prod.splits sum.splits)
  also have "\<dots> = io_queue (apply_opts now opts default_opts)" using apply_opts_queue_indep [OF assms(4)] .
  finally have "j_queue job = io_queue (apply_opts now opts default_opts)" .
  moreover have "map j_queue jobs = [to_queue to]"
    using assms(1,2,3,6)
    by (auto simp: client_EnqueueMany_def Let_def batch_job_def task_queue_def split: prod.splits sum.splits)
  ultimately show ?thesis by simp
qed

definition report_task :: Task where
  "report_task = \<lparr>t_kind = ''report'', t_json = Inr ''{}'', t_options = Some
     \<lparr>to_queue = ''low'', to_maxRetries = 0, to_timeout = 0, to_backoff = None, to_rateLimit = \<lparr>Max = 0, Per = 0\<rparr>\<rparr>\<rparr>"

definition report_record :: "string \<Rightarrow> JobRecord" where
  "report_record q = blank_record\<lparr>ID := ''j1'', Kind := ''report'', Queue := q, Priority := 5, State := ''pending'',
     Payload := ''{}'', MaxRetries := 3, CreatedAt := 1\<rparr>"

lemma report_enqueue:
  "Enqueue redis_doc NoFault (report_record ''default'') '''' 0 store0 =
     (Inr (), after_enqueue (report_record ''default'') '''' 0 store0)"
  by (rule run_Enqueue) (simp_all add: refines_shape [OF refines_store0] report_record_def)

lemma report_enqueue_many:
  "EnqueueMany redis_doc (\<lambda>_. NoFault) (\<lambda>_. NoFault) [report_record ''low''] store0 =
     (Inr (), enqueue_each redis_doc [report_record ''low''] store0)"
  using redis_server.EnqueueMany_ok [OF logical.redis_server_axioms, of store0 Map.empty "[report_record ''low'']"]
    refines_store0 by (simp add: batch_ok_def report_record_def)

section \<open>What a client call puts into the queue\<close>

text \<open>
  C18: A client Enqueue, on any server, puts exactly one new job into the queue, ready at once or delayed until the
  scheduled time, with the kind, payload, queue, priority and retry limit that the defaults, the task and the options
  give, and returns the handle with the same values; unless the arguments cannot be marshalled, or the Unique
  option gives a period of at least a second and the lock of the same kind and payload is held: then the call
  fails and nothing is stored.
\<close>

theorem client_Enqueue_adds_job:
  assumes "redis_server exec view" "refines (view s) m" "wf_id uuid" "m uuid = None"
    and "o' = apply_opts optNow opts (default_opts\<lparr>io_queue := task_queue args ''default''\<rparr>)" "wf_queue (io_queue o')"
  shows "case t_json args of
      Inl e \<Rightarrow> client_Enqueue exec sha NoFault optNow now uuid args opts s = (Inl (marshal_err e), s)
    | Inr payload \<Rightarrow>
        if 1000000000 \<le> io_uniquePeriod o' \<and> lookup (view s) (uniqueKey (unique_name sha (t_kind args) payload)) \<noteq> None
        then \<exists>s'. client_Enqueue exec sha NoFault optNow now uuid args opts s = (Inl ErrDuplicate, s') \<and> view s' = view s
        else \<exists>s' a. client_Enqueue exec sha NoFault optNow now uuid args opts s =
            (Inr \<lparr>j_id = uuid, j_kind = t_kind args, j_queue = io_queue o', j_priority = io_priority o', j_state = ''pending'',
               j_attempt = 0, j_maxRetries = task_maxRetries args, j_createdAt = now, j_scheduledAt = io_scheduledAt o'\<rparr>, s') \<and>
          refines (view s') (m(uuid \<mapsto> a)) \<and>
          aj_kind a = t_kind args \<and> aj_payload a = payload \<and> aj_queue a = io_queue o' \<and> aj_prio a = io_priority o' \<and>
          aj_max a = task_maxRetries args \<and> aj_attempt a = 0 \<and> aj_state a = ''pending'' \<and>
          aj_loc a = (if 0 < scheduled_ms o' then Delayed (scheduled_ms o') else Ready)"
proof (cases "t_json args")
  case (Inl e)
  then show ?thesis by (simp add: client_Enqueue_def Let_def)
next
  case (Inr payload)
  let ?job = "blank_record\<lparr>ID := uuid, Kind := t_kind args, Queue := io_queue o', Priority := io_priority o',
    State := StatePending, Payload := payload, MaxRetries := task_maxRetries args,
    CreatedAt := unixMilli now, ScheduledAt := scheduled_ms o'\<rparr>"
  let ?uk = "if io_uniquePeriod o' > 0 then unique_name sha (t_kind args) payload else ''''" and ?per = "io_uniquePeriod o'"
  let ?held = "1000000000 \<le> ?per \<and> lookup (view s) (uniqueKey (unique_name sha (t_kind args) payload)) \<noteq> None"
  have lock: "takes_lock ?uk ?per \<longleftrightarrow> 1000000000 \<le> ?per" by (auto simp: takes_lock_def unique_name_def)
  note sim = redis_server.sim_Enqueue [OF assms(1)]
  show ?thesis
  proof (cases ?held)
    case True
    then have "Enqueue redis_doc NoFault ?job ?uk ?per (view s) = (Inl ErrDuplicate, view s)"
      using lock by (intro run_Enqueue_duplicate) auto
    then obtain s' where "Enqueue exec NoFault ?job ?uk ?per s = (Inl ErrDuplicate, s')" "view s' = view s"
      by (rule sim_result [OF sim])
    then show ?thesis using True Inr assms(5) by (auto simp: client_Enqueue_def Let_def)
  next
    case False
    then obtain d' where "Enqueue redis_doc NoFault ?job ?uk ?per (view s) = (Inr (), d')"
      "refines d' (m(uuid \<mapsto> new_job ?job (lock_key ?uk ?per)))"
      using Enqueue_refines [OF assms(2), of ?job ?uk ?per] lock assms(3,4,6) by (auto simp: StatePending_def)
    moreover from this(1) obtain s' where "Enqueue exec NoFault ?job ?uk ?per s = (Inr (), s')" "view s' = d'"
      by (rule sim_result [OF sim])
    ultimately show ?thesis using False Inr assms(5) by (auto simp: client_Enqueue_def Let_def new_job_def StatePending_def)
  qed
qed

theorem client_Enqueue_adds_job_witness:
  "\<exists>job s' a. client_Enqueue redis_doc (\<lambda>_. ''00'') NoFault 1000000 1000000 ''j2'' report_task [] store1 = (Inr job, s') \<and>
     refines s' ([''j1'' \<mapsto> mail_ajob](''j2'' \<mapsto> a)) \<and> j_queue job = ''low'' \<and> j_priority job = 5 \<and> aj_queue a = ''low'' \<and> aj_loc a = Ready"
proof -
  let ?o = "apply_opts 1000000 [] (default_opts\<lparr>io_queue := task_queue report_task ''default''\<rparr>)"
  have "wf_queue (io_queue ?o)" "io_uniquePeriod ?o \<le> 0" "io_queue ?o = ''low''" "scheduled_ms ?o = 0" "io_priority ?o = 5"
    by (simp_all add: apply_opts_def default_opts_def task_queue_def report_task_def scheduled_ms_def)
  moreover have "t_json report_task = Inr ''{}''" by (simp add: report_task_def)
  ultimately show ?thesis
    using client_Enqueue_adds_job [OF logical.redis_server_axioms, of store1 "[''j1'' \<mapsto> mail_ajob]" "''j2''" ?o
        1000000 "[]" report_task "\<lambda>_. ''00''" 1000000] refines_store1 by auto
qed

end
