(* ===== verification/Rate_Limit.thy ===== *)
theory Rate_Limit
  imports Frames Float64 "HOL-Library.Countable"
begin

text \<open>
  \<^verbatim>\<open>internal/ratelimit/limiter.go\<close>: the token bucket. The script computes with Lua numbers, which
  are IEEE doubles: \<open>fl\<close> is the rounding of one arithmetic operation, \<open>fmt\<close> and \<open>num\<close> are the
  conversions of a number to the string stored in Redis and back (17 significant digits, which
  recover every double). What the proofs use of them is the locale \<open>lua_numbers\<close>, which the doubles of
  \<open>Float64\<close> satisfy. With a refill interval of 0 ms or a maximum of 0 the script divides by
  zero and goes on with infinite numbers or NaN, case by case in \<open>bucket_infinite\<close>; \<open>nonfin\<close> is the
  integer that Redis replies for such a number, which the C cast leaves undefined.
\<close>

section \<open>The script\<close>

record numbers =
  fl :: "rat \<Rightarrow> rat"
  fmt :: "rat \<Rightarrow> string"
  num :: "string \<Rightarrow> rat option"
  nonfin :: int

fun num_of :: "numbers \<Rightarrow> reply \<Rightarrow> rat option" where
  "num_of N (RBulk s) = num N s"
| "num_of N (RInt n) = Some (of_int n)"
| "num_of N _ = None"

text \<open>The computation between reading and writing the bucket: refill, then take one token.\<close>

definition bucket_step :: "numbers \<Rightarrow> int \<Rightarrow> int \<Rightarrow> int \<Rightarrow> rat \<Rightarrow> rat \<Rightarrow> (bool \<times> int) \<times> rat" where
  "bucket_step N mx intervalMs nowMs tokens0 lastRefill =
     (let elapsed = fl N (of_int nowMs - lastRefill);
          refillRate = fl N (of_int mx / of_int intervalMs);
          added = fl N (elapsed * refillRate);
          tokens = min (of_int mx) (fl N (tokens0 + added))
      in if tokens \<ge> 1
         then (let tokens' = fl N (tokens - 1) in ((True, \<lfloor>tokens'\<rfloor>), tokens'))
         else (let deficit = fl N (1 - tokens) in ((False, \<lceil>fl N (deficit / refillRate)\<rceil>), tokens)))"

text \<open>
  The same computation where it divides by zero, with the text of the tokens that are written. For a maximum of 0
  the bucket is empty and the deficit is divided by 0 (or by NaN). For an interval of 0 the rate
  is infinite, what is added is infinite or NaN, and the minimum of the maximum and NaN is the maximum.
\<close>

definition bucket_infinite :: "numbers \<Rightarrow> int \<Rightarrow> int \<Rightarrow> int \<Rightarrow> rat \<Rightarrow> rat \<Rightarrow> (bool \<times> int) \<times> string" where
  "bucket_infinite N mx intervalMs nowMs tokens0 lastRefill =
     (let elapsed = fl N (of_int nowMs - lastRefill)
      in if mx = 0 then ((False, nonfin N), fmt N (if intervalMs = 0 then 0 else min 0 (fl N tokens0)))
         else if 0 < mx \<and> elapsed < 0 \<or> mx < 0 \<and> 0 < elapsed then ((False, nonfin N), ''-inf'')
         else if 0 < mx then (let tokens' = fl N (of_int mx - 1) in ((True, \<lfloor>tokens'\<rfloor>), fmt N tokens'))
         else ((False, 0), fmt N (of_int mx)))"

definition tokenBucketScript :: "'s server \<Rightarrow> numbers \<Rightarrow> key \<Rightarrow> int \<Rightarrow> int \<Rightarrow> int \<Rightarrow> ('s, int list) lua" where
  "tokenBucketScript exec N key mx intervalMs nowMs =
     call exec (HGET key ''tokens'') (\<lambda>t.
     call exec (HGET key ''last_refill'') (\<lambda>l.
       let (tokens, lastRefill) =
         (case num_of N t of None \<Rightarrow> (of_int mx, Some (of_int nowMs)) | Some x \<Rightarrow> (x, num_of N l))
       in case lastRefill of
            None \<Rightarrow> raise ''attempt to perform arithmetic on a nil value''
          | Some lr \<Rightarrow>
              (case (if intervalMs = 0 \<or> mx = 0 then bucket_infinite N mx intervalMs nowMs tokens lr
                     else map_prod id (fmt N) (bucket_step N mx intervalMs nowMs tokens lr)) of
                ((allowed, n), tokens') \<Rightarrow>
                  call exec (HSET key [(''tokens'', tokens'), (''last_refill'', fmt N (of_int nowMs))]) (\<lambda>_.
                  call exec (PEXPIRE key (intervalMs * 2)) (\<lambda>_.
                  ret [if allowed then 1 else 0, n])))))"

record Result =
  Allowed :: bool
  Remaining :: int
  RetryIn :: int

definition milliseconds :: "int \<Rightarrow> int" where
  "milliseconds d = (if d < 0 then - ((- d) div 1000000) else d div 1000000)"

text \<open>A number of milliseconds as a duration: the product wraps around at 64 bits.\<close>

definition retry_in :: "int \<Rightarrow> int" where
  "retry_in ms = (ms * 1000000 + 2 ^ 63) mod 2 ^ 64 - 2 ^ 63"

definition Allow :: "'s server \<Rightarrow> numbers \<Rightarrow> fault \<Rightarrow> int \<Rightarrow> string \<Rightarrow> int \<Rightarrow> int \<Rightarrow> 's \<Rightarrow> (qerr + Result) \<times> 's" where
  "Allow exec N flt nowMs kind mx per =
     go_result (run flt (tokenBucketScript exec N (bucketKey kind) mx (milliseconds per) nowMs))
       (Wrapped ''winter: rate limit'')
       (\<lambda>vals. if vals ! 0 = 1 then Inr \<lparr>Allowed = True, Remaining = vals ! 1, RetryIn = 0\<rparr>
          else Inr \<lparr>Allowed = False, Remaining = 0, RetryIn = retry_in (vals ! 1)\<rparr>)"

section \<open>Lua numbers\<close>

locale lua_numbers =
  fixes N :: numbers
  assumes fl_mono: "x \<le> y \<Longrightarrow> fl N x \<le> fl N y"
    and fl_int: "\<bar>n\<bar> \<le> 2 ^ 53 \<Longrightarrow> fl N (of_int n) = of_int n"
    and num_fmt: "fl N x = x \<Longrightarrow> num N (fmt N x) = Some x"
    and fl_idem: "fl N (fl N x) = fl N x"
    and fl_error: "\<bar>fl N x - x\<bar> \<le> \<bar>x\<bar> * eps + tiny"
begin

lemma fl_0 [simp]: "fl N 0 = 0"
  using fl_int [of 0] by simp

lemma fl_nonneg: "0 \<le> x \<Longrightarrow> 0 \<le> fl N x"
  using fl_mono [of 0 x] by simp

text \<open>A bucket never holds more than its maximum nor less than nothing, and what is stored reads back.\<close>

lemma bucket_bounds:
  assumes "0 \<le> tokens" "lr \<le> of_int now" "0 \<le> mx" "mx \<le> 2 ^ 53" "0 < interval"
  shows "0 \<le> snd (bucket_step N mx interval now tokens lr)"
    "snd (bucket_step N mx interval now tokens lr) \<le> of_int mx"
    "fl N (snd (bucket_step N mx interval now tokens lr)) = snd (bucket_step N mx interval now tokens lr)"
proof -
  define added where "added = fl N (fl N (of_int now - lr) * fl N (of_int mx / of_int interval))"
  define t where "t = min (of_int mx) (fl N (tokens + added))"
  have "0 \<le> added" unfolding added_def using assms by (intro fl_nonneg mult_nonneg_nonneg) simp_all
  then have t0: "0 \<le> t" using assms by (simp add: t_def fl_nonneg)
  have flt: "fl N t = t" using fl_int [of mx] assms(3,4) by (simp add: t_def min_def fl_idem)
  have le: "fl N (t - 1) \<le> t" using fl_mono [of "t - 1" t] flt by simp
  have tm: "t \<le> of_int mx" by (simp add: t_def)
  have s: "snd (bucket_step N mx interval now tokens lr) = (if t \<ge> 1 then fl N (t - 1) else t)"
    by (simp add: bucket_step_def Let_def t_def added_def)
  show "0 \<le> snd (bucket_step N mx interval now tokens lr)" unfolding s using t0 by (simp add: fl_nonneg)
  show "snd (bucket_step N mx interval now tokens lr) \<le> of_int mx"
    unfolding s using le tm by simp
  show "fl N (snd (bucket_step N mx interval now tokens lr)) = snd (bucket_step N mx interval now tokens lr)"
    unfolding s using flt by (simp add: fl_idem)
qed

text \<open>Whole tokens, no time passing: the arithmetic is exact.\<close>

lemma bucket_whole:
  assumes "0 \<le> k" "k \<le> mx" "mx \<le> 2 ^ 53" "0 < interval"
  shows "bucket_step N mx interval now (of_int k) (of_int now) =
     (if 1 \<le> k then ((True, k - 1), of_int (k - 1))
      else ((False, \<lceil>fl N (1 / fl N (of_int mx / of_int interval))\<rceil>), 0))"
proof -
  have k: "fl N (of_int k) = of_int k" "fl N (of_int (k - 1)) = of_int (k - 1)" if "1 \<le> k"
    using that assms by (intro fl_int; simp)+
  have k0: "fl N (of_int k) = of_int k" using assms by (intro fl_int) simp
  have m: "min (of_int mx) (of_int k :: rat) = of_int k" using assms(2) by (simp add: min_def)
  have one: "fl N 1 = 1" using fl_int [of 1] by simp
  show ?thesis
  proof (cases "1 \<le> k")
    case True
    have "fl N (of_int k - 1) = of_int k - 1" using k(2) [OF True] by simp
    with True assms(2) show ?thesis by (simp add: bucket_step_def Let_def k0 m)
  next
    case False
    then have "k = 0" using assms(1) by simp
    with assms(2) one show ?thesis by (simp add: bucket_step_def Let_def min_def)
  qed
qed

end

section \<open>Instances\<close>

text \<open>Doubles satisfy the laws, and so does rational arithmetic without rounding.\<close>

definition doubles :: numbers where
  "doubles = \<lparr>fl = round64, fmt = format17g, num = strtod, nonfin = - (2 ^ 63)\<rparr>"

interpretation doubles: lua_numbers doubles
  by unfold_locales (simp_all add: doubles_def round64_mono round64_int strtod_format17g round64_idem round64_error)

definition exact :: numbers where
  "exact = \<lparr>fl = id, fmt = (\<lambda>x. itoa (int (to_nat x))), num = (\<lambda>s. map_option (\<lambda>n. from_nat (nat n)) (parse_dec s)), nonfin = - (2 ^ 63)\<rparr>"

interpretation exact: lua_numbers exact
  using tiny_pos eps_bounds(1) by unfold_locales (simp_all add: exact_def add_nonneg_nonneg)

section \<open>The bucket in Redis\<close>

definition holds_bucket :: "numbers \<Rightarrow> dataset \<Rightarrow> key \<Rightarrow> rat \<Rightarrow> rat \<Rightarrow> bool" where
  "holds_bucket N d key t l \<longleftrightarrow> (\<exists>h. lookup d key = Some (RHash h) \<and>
     map_of h ''tokens'' = Some (fmt N t) \<and> map_of h ''last_refill'' = Some (fmt N l))"

definition bucket_written :: "numbers \<Rightarrow> key \<Rightarrow> rat \<Rightarrow> int \<Rightarrow> int \<Rightarrow> dataset \<Rightarrow> dataset" where
  "bucket_written N key t now iv d =
     (let h = hash_set [(''tokens'', fmt N t), (''last_refill'', fmt N (of_int now))] (hash_at d key)
      in put_ttl (store_hash d key h) key (RHash h) (Some (clock d + iv * 2)))"

lemma call_PEXPIRE: "lookup d k = Some v \<Longrightarrow> 0 < ms \<Longrightarrow>
    call redis_doc (PEXPIRE k ms) f d = f (RInt 1) (put_ttl d k v (Some (clock d + ms)))"
  by (rule call_ok) (simp_all add: redis_doc.simps)

lemma write_bucket:
  assumes "has_type THash d key" "0 < iv"
  shows "call redis_doc (HSET key [(''tokens'', fmt N t), (''last_refill'', fmt N (of_int now))]) (\<lambda>_.
      call redis_doc (PEXPIRE key (iv * 2)) (\<lambda>_. k)) d = k (bucket_written N key t now iv d)"
proof -
  let ?h = "hash_set [(''tokens'', fmt N t), (''last_refill'', fmt N (of_int now))] (hash_at d key)"
  have "lookup (store_hash d key ?h) key = Some (RHash ?h)" by simp
  with assms show ?thesis by (simp add: call_HSET call_PEXPIRE bucket_written_def Let_def)
qed

lemma bucket_written_holds:
  assumes "0 < iv"
  shows "holds_bucket N (bucket_written N key t now iv d) key t (of_int now)"
    "clock (bucket_written N key t now iv d) = clock d"
    "k \<noteq> key \<Longrightarrow> db (bucket_written N key t now iv d) k = db d k"
  using assms by (auto simp: holds_bucket_def bucket_written_def Let_def)

context lua_numbers
begin

lemma run_bucket_stored:
  assumes "holds_bucket N d key t l" "fl N t = t" "fl N l = l" "0 < iv" "mx \<noteq> 0"
    and "bucket_step N mx iv now t l = ((a, n), t')"
  shows "tokenBucketScript redis_doc N key mx iv now d = (Inr [if a then 1 else 0, n], bucket_written N key t' now iv d)"
proof -
  obtain h where h: "lookup d key = Some (RHash h)" "map_of h ''tokens'' = Some (fmt N t)"
    "map_of h ''last_refill'' = Some (fmt N l)" using assms(1) by (auto simp: holds_bucket_def)
  have ty: "has_type THash d key" using h by (simp add: has_type_def)
  have at: "hash_at d key = h" using h by (simp add: hash_at_def)
  show ?thesis
    unfolding tokenBucketScript_def using ty at h assms num_fmt
    by (simp add: call_HGET write_bucket ret_def)
qed

lemma run_bucket_fresh:
  assumes "lookup d key = None" "0 < iv" "mx \<noteq> 0"
    and "bucket_step N mx iv now (of_int mx) (of_int now) = ((a, n), t')"
  shows "tokenBucketScript redis_doc N key mx iv now d = (Inr [if a then 1 else 0, n], bucket_written N key t' now iv d)"
proof -
  have ty: "has_type THash d key" and at: "hash_at d key = []"
    using assms(1) by (simp_all add: has_type_def hash_at_def)
  show ?thesis
    unfolding tokenBucketScript_def using ty at assms by (simp add: call_HGET write_bucket ret_def)
qed

end

context redis_server
begin

lemma sim_tokenBucketScript:
  "sim view (tokenBucketScript exec N key mx iv now) (tokenBucketScript redis_doc N key mx iv now)"
  unfolding tokenBucketScript_def Let_def split_def by (intro script_sim)

lemma sim_Allow: "sim view (Allow exec N flt now kind mx per) (Allow redis_doc N flt now kind mx per)"
  unfolding Allow_def by (intro sim_intros sim_tokenBucketScript)

end

text \<open>Consecutive checks at one instant.\<close>

fun allow_burst :: "'s server \<Rightarrow> numbers \<Rightarrow> int \<Rightarrow> string \<Rightarrow> int \<Rightarrow> int \<Rightarrow> nat \<Rightarrow> 's \<Rightarrow> (qerr + Result) list" where
  "allow_burst exec N now kind mx per 0 s = []"
| "allow_burst exec N now kind mx per (Suc n) s =
     (case Allow exec N NoFault now kind mx per s of (r, s') \<Rightarrow> r # allow_burst exec N now kind mx per n s')"

definition burst_result :: "numbers \<Rightarrow> int \<Rightarrow> int \<Rightarrow> int \<Rightarrow> qerr + Result" where
  "burst_result N mx iv k =
     Inr (if 1 \<le> k then \<lparr>Allowed = True, Remaining = k - 1, RetryIn = 0\<rparr>
       else \<lparr>Allowed = False, Remaining = 0, RetryIn = retry_in \<lceil>fl N (1 / fl N (of_int mx / of_int iv))\<rceil>\<rparr>)"

lemma sim_burst:
  assumes "redis_server exec view"
  shows "allow_burst exec N now kind mx per n s = allow_burst redis_doc N now kind mx per n (view s)"
proof (induction n arbitrary: s)
  case (Suc n)
  have "Allow redis_doc N NoFault now kind mx per (view s) =
      map_prod id view (Allow exec N NoFault now kind mx per s)"
    using redis_server.sim_Allow [OF assms] by (simp add: sim_def)
  then show ?case using Suc by (cases "Allow exec N NoFault now kind mx per s") simp
qed simp

lemma burst_stored:
  assumes "lua_numbers N" "holds_bucket N d (bucketKey kind) (of_int k) (of_int now)"
    and "0 \<le> k" "k \<le> mx" "1 \<le> mx" "mx \<le> 2 ^ 53" "\<bar>now\<bar> \<le> 2 ^ 53" "0 < milliseconds per"
  shows "allow_burst redis_doc N now kind mx per n d =
     map (\<lambda>j. burst_result N mx (milliseconds per) (max 0 (k - int j))) [0..<n]"
  using assms(2-4)
proof (induction n arbitrary: d k)
  case (Suc n)
  define k' where "k' = max 0 (k - 1)"
  obtain x where whole: "bucket_step N mx (milliseconds per) now (of_int k) (of_int now) = ((1 \<le> k, x), of_int k')"
    and x: "burst_result N mx (milliseconds per) k =
      Inr (if 1 \<le> k then \<lparr>Allowed = True, Remaining = x, RetryIn = 0\<rparr> else \<lparr>Allowed = False, Remaining = 0, RetryIn = retry_in x\<rparr>)"
    using lua_numbers.bucket_whole [OF assms(1) Suc.prems(2,3) assms(6,8), of now] Suc.prems(2)
    by (cases "1 \<le> k") (auto simp: k'_def burst_result_def)
  let ?d = "bucket_written N (bucketKey kind) (of_int k') now (milliseconds per) d"
  have flk: "fl N (of_int k) = of_int k" "fl N (of_int now) = of_int now"
    using Suc.prems(2,3) assms(6,7) by (intro lua_numbers.fl_int [OF assms(1)]; simp)+
  have "tokenBucketScript redis_doc N (bucketKey kind) mx (milliseconds per) now d =
      (Inr [if 1 \<le> k then 1 else 0, x], ?d)"
    using lua_numbers.run_bucket_stored [OF assms(1) Suc.prems(1) flk assms(8) _ whole] assms(5) by simp
  then have allow: "Allow redis_doc N NoFault now kind mx per d = (burst_result N mx (milliseconds per) k, ?d)"
    by (simp add: Allow_def go_result_def x)
  have "allow_burst redis_doc N now kind mx per n ?d =
      map (\<lambda>j. burst_result N mx (milliseconds per) (max 0 (k' - int j))) [0..<n]"
    using Suc.prems(2,3) assms(5,8) by (intro Suc.IH) (auto simp: k'_def bucket_written_holds)
  moreover have "max 0 (k' - int j) = max 0 (k - int (Suc j))" for j by (simp add: k'_def)
  ultimately have "allow_burst redis_doc N now kind mx per (Suc n) d =
      burst_result N mx (milliseconds per) k # map (\<lambda>j. burst_result N mx (milliseconds per) (max 0 (k - int (Suc j)))) [0..<n]"
    by (simp add: allow)
  then show ?case using Suc.prems(2) by (simp add: upt_conv_Cons map_Suc_upt [symmetric] del: upt_Suc)
qed simp

lemma burst_fresh:
  assumes "lua_numbers N" "lookup d (bucketKey kind) = None"
    and "1 \<le> mx" "mx \<le> 2 ^ 53" "\<bar>now\<bar> \<le> 2 ^ 53" "0 < milliseconds per"
  shows "allow_burst redis_doc N now kind mx per n d =
     map (\<lambda>j. burst_result N mx (milliseconds per) (max 0 (mx - int j))) [0..<n]"
proof (cases n)
  case (Suc n')
  let ?d = "bucket_written N (bucketKey kind) (of_int (mx - 1)) now (milliseconds per) d"
  have "bucket_step N mx (milliseconds per) now (of_int mx) (of_int now) = ((True, mx - 1), of_int (mx - 1))"
    using lua_numbers.bucket_whole [OF assms(1) _ _ assms(4,6), of mx now] assms(3) by simp
  then have "tokenBucketScript redis_doc N (bucketKey kind) mx (milliseconds per) now d = (Inr [1, mx - 1], ?d)"
    using lua_numbers.run_bucket_fresh [OF assms(1,2,6)] assms(3) by auto
  then have allow: "Allow redis_doc N NoFault now kind mx per d = (burst_result N mx (milliseconds per) mx, ?d)"
    using assms(3) by (simp add: Allow_def go_result_def burst_result_def)
  have "allow_burst redis_doc N now kind mx per n' ?d =
      map (\<lambda>j. burst_result N mx (milliseconds per) (max 0 (mx - 1 - int j))) [0..<n']"
    using assms by (intro burst_stored) (auto simp: bucket_written_holds)
  then have "allow_burst redis_doc N now kind mx per (Suc n') d =
      burst_result N mx (milliseconds per) mx # map (\<lambda>j. burst_result N mx (milliseconds per) (max 0 (mx - int (Suc j)))) [0..<n']"
    by (simp add: allow algebra_simps)
  then show ?thesis using assms(3) unfolding Suc by (simp add: upt_conv_Cons map_Suc_upt [symmetric] del: upt_Suc)
qed simp

text \<open>
  A fresh bucket of max tokens allows a burst of exactly max checks in the same millisecond,
  counting down what remains, and denies every further one; with any rounding of Lua numbers that
  is exact on integers up to 2^53.
\<close>

lemma Allow_burst_is_max:
  assumes "redis_server exec view" "lua_numbers N" "lookup (view s) (bucketKey kind) = None"
    and "1 \<le> mx" "mx \<le> 2 ^ 53" "\<bar>now\<bar> \<le> 2 ^ 53" "1000000 \<le> per" and "i < n"
  shows "\<exists>r. allow_burst exec N now kind mx per n s ! i = Inr r \<and> Allowed r = (int i < mx) \<and>
     (int i < mx \<longrightarrow> Remaining r = mx - int i - 1)"
proof -
  have per: "0 < milliseconds per" using assms(7) by (simp add: milliseconds_def pos_imp_zdiv_pos_iff)
  have "allow_burst exec N now kind mx per n s ! i = burst_result N mx (milliseconds per) (max 0 (mx - int i))"
    using burst_fresh [OF assms(2,3,4,5,6) per, of n] assms(8) by (simp add: sim_burst [OF assms(1)])
  then show ?thesis by (auto simp: burst_result_def max_def)
qed

text \<open>A maximum of 0 allows nothing, with any interval and whatever the bucket holds.\<close>

lemma zero_limit_denies: "Allow exec N flt now kind 0 per s = (Inr r, s') \<Longrightarrow> \<not> Allowed r"
  by (cases flt)
    (auto simp: Allow_def go_result_def tokenBucketScript_def bucket_infinite_def call_def lbind_def ret_def raise_def Let_def
      split: prod.splits sum.splits option.splits if_splits)

section \<open>The long run\<close>

text \<open>The rate as the script computes it, and what the rounding of one check can add at most.\<close>

definition refill_rate :: "numbers \<Rightarrow> int \<Rightarrow> int \<Rightarrow> rat" where
  "refill_rate N mx iv = fl N (of_int mx / of_int iv)"

definition slack :: "int \<Rightarrow> rat" where
  "slack mx = 2 * of_int mx * eps + 3 * tiny"

text \<open>Tokens and the token of an allowed check, before and after it.\<close>

definition gain_ok :: "numbers \<Rightarrow> int \<Rightarrow> int \<Rightarrow> rat \<Rightarrow> int \<Rightarrow> int \<Rightarrow> bool \<Rightarrow> rat \<Rightarrow> bool" where
  "gain_ok N mx iv t l now a t' \<longleftrightarrow>
     (if a then 1 else 0) + t' \<le> of_int mx + slack mx \<and>
     (if a then 1 else 0) + t' \<le> t + of_int (now - l) * (refill_rate N mx iv * (1 + eps)) + slack mx"

context lua_numbers
begin

lemma fl_le: "0 \<le> x \<Longrightarrow> fl N x \<le> x + x * eps + tiny"
  using fl_error [of x] by (simp add: abs_le_iff)

lemma refill_rate_nonneg: "0 \<le> mx \<Longrightarrow> 0 < iv \<Longrightarrow> 0 \<le> refill_rate N mx iv"
  by (simp add: refill_rate_def fl_nonneg)

text \<open>After twice the interval a bucket is full, whatever it held.\<close>

lemma refill_full:
  assumes "1 \<le> mx" "0 < iv" "iv \<le> 2 ^ 53" "l + iv * 2 \<le> now"
  shows "of_int mx \<le> of_int (now - l) * (refill_rate N mx iv * (1 + eps))"
proof -
  define x :: rat where "x = of_int mx / of_int iv"
  have x: "0 \<le> x" "of_int iv * x = of_int mx" using assms by (simp_all add: x_def)
  have iv: "(of_int iv :: rat) \<le> 2 ^ 53" using assms(3) by (metis of_int_le_iff of_int_numeral of_int_power)
  have "x - x * eps - tiny \<le> refill_rate N mx iv" using fl_error [of x] x(1) by (simp add: refill_rate_def x_def [symmetric] abs_le_iff)
  then have "of_int iv * 2 * (x - x * eps - tiny) \<le> of_int iv * 2 * refill_rate N mx iv" using assms(2) by (intro mult_left_mono) auto
  moreover have "of_int iv * 2 * (x - x * eps - tiny) = of_int mx * 2 - of_int mx * 2 * eps - 2 * of_int iv * tiny"
    unfolding x(2) [symmetric] by (simp add: algebra_simps)
  moreover have "of_int iv * tiny \<le> 2 ^ 53 * tiny" using iv tiny_pos by (intro mult_right_mono) auto
  then have "of_int iv * tiny \<le> 1 / 8" using tiny_small by linarith
  moreover have "(1 :: rat) \<le> of_int mx" using assms(1) by simp
  moreover have "of_int mx * eps \<le> of_int mx * (1 / 8)" using eps_bounds assms(1) by (intro mult_left_mono) auto
  ultimately have "of_int mx \<le> of_int iv * 2 * refill_rate N mx iv" by linarith
  also have "\<dots> \<le> of_int (now - l) * refill_rate N mx iv"
    using assms refill_rate_nonneg [of mx iv] by (intro mult_right_mono) (simp_all flip: of_int_mult of_int_diff)
  also have "\<dots> \<le> of_int (now - l) * (refill_rate N mx iv * (1 + eps))"
    using assms refill_rate_nonneg [of mx iv] eps_bounds(1) by (intro mult_left_mono) (simp_all add: algebra_simps)
  finally show ?thesis .
qed

lemma step_gain:
  assumes "0 \<le> t" "0 \<le> l" "l \<le> now" "now \<le> 2 ^ 53" "1 \<le> mx" "0 < iv"
    and "bucket_step N mx iv now t (of_int l) = ((a, n), t')"
  shows "gain_ok N mx iv t l now a t'"
proof -
  define R E where "R = refill_rate N mx iv" and "E = (of_int (now - l) :: rat)"
  have R: "0 \<le> R" using refill_rate_nonneg assms(5,6) by (simp add: R_def)
  have E: "fl N (of_int now - of_int l) = E" "0 \<le> E" using fl_int [of "now - l"] assms(2-4) by (simp_all add: E_def)
  define y where "y = t + fl N (E * R)"
  define tok where "tok = min (of_int mx) (fl N y)"
  have y: "0 \<le> y" "y \<le> t + (E * R + E * R * eps + tiny)" using fl_le [of "E * R"] fl_nonneg [of "E * R"] E(2) R assms(1) by (simp_all add: y_def)
  have tok: "tok \<le> of_int mx" "tok \<le> y + of_int mx * eps + tiny"
  proof -
    show "tok \<le> y + of_int mx * eps + tiny"
    proof (cases "y \<le> of_int mx")
      case True
      then have "y * eps \<le> of_int mx * eps" using eps_bounds(1) by simp
      then show ?thesis using fl_le [OF y(1)] by (simp add: tok_def)
    next
      case False
      have "0 \<le> of_int mx * eps" using assms(5) eps_bounds(1) by simp
      then show ?thesis using False tiny_pos by (simp add: tok_def)
    qed
  qed (simp add: tok_def)
  have step: "(a, t') = (if tok \<ge> 1 then (True, fl N (tok - 1)) else (False, tok))"
    using assms(7) by (auto simp: bucket_step_def Let_def E R_def refill_rate_def y_def tok_def split: if_splits)
  have "(if a then 1 else 0) + t' \<le> tok + of_int mx * eps + tiny"
  proof (cases "tok \<ge> 1")
    case True
    have "(tok - 1) * eps \<le> of_int mx * eps" using tok(1) eps_bounds(1) by (intro mult_right_mono) simp_all
    then show ?thesis using True step fl_le [of "tok - 1"] by simp
  next
    case False
    have "0 \<le> of_int mx * eps" using assms(5) eps_bounds(1) by simp
    then show ?thesis using False step tiny_pos by simp
  qed
  moreover have "slack mx = 2 * (of_int mx * eps) + 3 * tiny" by (simp add: slack_def)
  moreover have "0 \<le> of_int mx * eps" using assms(5) eps_bounds(1) by simp
  moreover have "E * (R * (1 + eps)) = E * R + E * R * eps" by (simp add: algebra_simps)
  ultimately show ?thesis
    unfolding gain_ok_def R_def [symmetric] E_def [symmetric] using tok y tiny_pos by linarith
qed

end

text \<open>What is left of a bucket of \<open>t\<close> tokens at time \<open>l\<close>; it expires when it must be full again.\<close>

definition bucket_left :: "numbers \<Rightarrow> int \<Rightarrow> int \<Rightarrow> dataset \<Rightarrow> key \<Rightarrow> rat \<Rightarrow> int \<Rightarrow> bool" where
  "bucket_left N mx iv d key t l \<longleftrightarrow> 0 \<le> t \<and> t \<le> of_int mx \<and> fl N t = t \<and>
     (db d key = None \<and> t = of_int mx \<or>
      (\<exists>h. db d key = Some (RHash h, Some (l + iv * 2)) \<and> map_of h ''tokens'' = Some (fmt N t) \<and>
           map_of h ''last_refill'' = Some (fmt N (of_int l))))"

text \<open>
  Checks of the limiter at successive times, on a server that other clients use in between: \<open>wait t\<close>
  is what happens until time t. The result says which checks were allowed.
\<close>

fun allow_run :: "'s server \<Rightarrow> numbers \<Rightarrow> (int \<Rightarrow> 's \<Rightarrow> 's) \<Rightarrow> string \<Rightarrow> int \<Rightarrow> int \<Rightarrow> int list \<Rightarrow> 's \<Rightarrow> bool list" where
  "allow_run exec N wait kind mx per [] s = []"
| "allow_run exec N wait kind mx per (now # ts) s =
     (case Allow exec N NoFault now kind mx per (wait now s) of
        (r, s') \<Rightarrow> (case r of Inr x \<Rightarrow> Allowed x | Inl _ \<Rightarrow> False) # allow_run exec N wait kind mx per ts s')"

definition others_wait :: "('s \<Rightarrow> dataset) \<Rightarrow> (int \<Rightarrow> 's \<Rightarrow> 's) \<Rightarrow> key \<Rightarrow> bool" where
  "others_wait view wait key \<longleftrightarrow> (\<forall>t s. clock (view (wait t s)) = t \<and> db (view (wait t s)) key = db (view s) key)"

lemma bucket_left_wait: "others_wait view wait key \<Longrightarrow> bucket_left N mx iv (view (wait now s)) key t l = bucket_left N mx iv (view s) key t l"
  by (simp add: bucket_left_def others_wait_def)

lemma bucket_written_left:
  assumes "0 \<le> t" "t \<le> of_int mx" "fl N t = t" "clock d = now"
  shows "bucket_left N mx iv (bucket_written N key t now iv d) key t now"
  using assms by (simp add: bucket_left_def bucket_written_def Let_def put_ttl_def)

context lua_numbers
begin

text \<open>Whether the stored bucket is still there or has expired, a check gains no more than the refill.\<close>

lemma script_gain:
  assumes "bucket_left N mx iv d key t l" "clock d = now" "0 \<le> l" "l \<le> now" "now \<le> 2 ^ 53" "1 \<le> mx" "mx \<le> 2 ^ 53" "0 < iv" "iv \<le> 2 ^ 53"
  obtains a n t' where "tokenBucketScript redis_doc N key mx iv now d = (Inr [if a then 1 else 0, n], bucket_written N key t' now iv d)"
    "gain_ok N mx iv t l now a t'" "bucket_left N mx iv (bucket_written N key t' now iv d) key t' now"
proof (cases "lookup d key = None")
  case True
  obtain a n t' where step: "bucket_step N mx iv now (of_int mx) (of_int now) = ((a, n), t')" by (metis surj_pair)
  have gain: "gain_ok N mx iv (of_int mx) now now a t'" using step_gain [OF _ _ _ _ _ _ step] assms by simp
  have full: "of_int mx \<le> t + of_int (now - l) * (refill_rate N mx iv * (1 + eps))"
  proof (cases "db d key")
    case None
    have "0 \<le> of_int (now - l) * (refill_rate N mx iv * (1 + eps))"
      using refill_rate_nonneg [of mx iv] assms(4,6,8) eps_bounds(1) by (intro mult_nonneg_nonneg) auto
    then show ?thesis using None assms(1) by (auto simp: bucket_left_def)
  next
    case (Some ve)
    with True assms(1,2) have "l + iv * 2 \<le> now" "0 \<le> t" by (auto simp: bucket_left_def lookup_def live_def expired_def split: if_splits)
    then show ?thesis using refill_full [OF assms(6,8,9)] by (simp add: add_increasing)
  qed
  have "bucket_left N mx iv (bucket_written N key t' now iv d) key t' now"
    using bucket_bounds [of "of_int mx" "of_int now" now mx iv] assms step by (intro bucket_written_left) auto
  moreover have "gain_ok N mx iv t l now a t'" using gain full by (simp add: gain_ok_def)
  ultimately show thesis using that run_bucket_fresh [OF True assms(8) _ step] assms(6) by simp
next
  case False
  then have h: "holds_bucket N d key t (of_int l)"
    using assms(1) by (auto simp: bucket_left_def holds_bucket_def lookup_def live_def split: option.splits if_splits)
  obtain a n t' where step: "bucket_step N mx iv now t (of_int l) = ((a, n), t')" by (metis surj_pair)
  have t: "0 \<le> t" "fl N t = t" "fl N (of_int l) = of_int l" using assms by (auto simp: bucket_left_def intro: fl_int)
  have "bucket_left N mx iv (bucket_written N key t' now iv d) key t' now"
    using bucket_bounds [of t "of_int l" now mx iv] t(1) assms step by (intro bucket_written_left) auto
  then show thesis using that run_bucket_stored [OF h t(2,3) assms(8) _ step] step_gain [OF t(1) assms(3-6,8) step] assms(6) by simp
qed

end

lemma allow_run_step:
  assumes "redis_server exec view" "lua_numbers N" "others_wait view wait (bucketKey kind)"
    and "1 \<le> mx" "mx \<le> 2 ^ 53" "0 < milliseconds per" "milliseconds per \<le> 2 ^ 53"
    and "bucket_left N mx (milliseconds per) (view s) (bucketKey kind) t l" "0 \<le> l" "l \<le> now" "now \<le> 2 ^ 53"
  obtains a s' t' where "allow_run exec N wait kind mx per (now # ts) s = a # allow_run exec N wait kind mx per ts s'"
    "gain_ok N mx (milliseconds per) t l now a t'" "bucket_left N mx (milliseconds per) (view s') (bucketKey kind) t' now"
proof -
  let ?d = "view (wait now s)" and ?w = "\<lambda>t'. bucket_written N (bucketKey kind) t' now (milliseconds per) (view (wait now s))"
  have "bucket_left N mx (milliseconds per) ?d (bucketKey kind) t l" "clock ?d = now"
    using assms(3,8) by (auto simp: bucket_left_wait others_wait_def)
  from lua_numbers.script_gain [OF assms(2) this assms(9-11,4-7)]
  obtain a n t' where g: "tokenBucketScript redis_doc N (bucketKey kind) mx (milliseconds per) now ?d = (Inr [if a then 1 else 0, n], ?w t')"
    "gain_ok N mx (milliseconds per) t l now a t'" "bucket_left N mx (milliseconds per) (?w t') (bucketKey kind) t' now" by metis
  have "\<exists>r. Allow redis_doc N NoFault now kind mx per ?d = (Inr r, ?w t') \<and> Allowed r = a"
    by (cases a) (simp_all add: Allow_def go_result_def g(1))
  then obtain r where r: "Allow redis_doc N NoFault now kind mx per ?d = (Inr r, ?w t')" "Allowed r = a" by blast
  obtain s' where "Allow exec N NoFault now kind mx per (wait now s) = (Inr r, s')" "view s' = ?w t'"
    by (rule sim_result [OF redis_server.sim_Allow [OF assms(1)] r(1)])
  then show thesis using that [of a s' t'] r(2) g(2,3) by simp
qed

text \<open>The number of allowed checks in a run and from some check on.\<close>

lemma allow_run_bound:
  assumes "redis_server exec view" "lua_numbers N" "others_wait view wait (bucketKey kind)"
    and "1 \<le> mx" "mx \<le> 2 ^ 53" "0 < milliseconds per" "milliseconds per \<le> 2 ^ 53"
    and "bucket_left N mx (milliseconds per) (view s) (bucketKey kind) t l" "0 \<le> l" "sorted (l # ts)" "\<forall>x\<in>set ts. x \<le> 2 ^ 53"
  shows "of_nat (length (filter (\<lambda>b. b) (allow_run exec N wait kind mx per ts s))) \<le>
     t + of_int (last (l # ts) - l) * (refill_rate N mx (milliseconds per) * (1 + eps)) + of_nat (length ts) * slack mx"
  using assms(8-11)
proof (induction ts arbitrary: s t l)
  case (Cons now ts)
  define r where "r = refill_rate N mx (milliseconds per) * (1 + eps)"
  have ln: "l \<le> now" "now \<le> 2 ^ 53" and srt: "0 \<le> now" "sorted (now # ts)" "\<forall>x\<in>set ts. x \<le> 2 ^ 53" using Cons.prems(2-4) by auto
  obtain a s' t' where s': "allow_run exec N wait kind mx per (now # ts) s = a # allow_run exec N wait kind mx per ts s'"
    "gain_ok N mx (milliseconds per) t l now a t'" "bucket_left N mx (milliseconds per) (view s') (bucketKey kind) t' now"
    by (rule allow_run_step [OF assms(1-7) Cons.prems(1,2) ln, of ts])
  have "of_nat (length (filter (\<lambda>b. b) (allow_run exec N wait kind mx per (now # ts) s))) =
      (if a then 1 else 0) + (of_nat (length (filter (\<lambda>b. b) (allow_run exec N wait kind mx per ts s'))) :: rat)" unfolding s'(1) by simp
  also have "\<dots> \<le> (if a then 1 else 0) + (t' + of_int (last (now # ts) - now) * r + of_nat (length ts) * slack mx)"
    using Cons.IH [OF s'(3) srt] by (simp add: r_def)
  also have "\<dots> \<le> t + of_int (now - l) * r + slack mx + (of_int (last (now # ts) - now) * r + of_nat (length ts) * slack mx)"
    using s'(2) unfolding gain_ok_def r_def by linarith
  also have "\<dots> = t + of_int (last (now # ts) - l) * r + of_nat (length (now # ts)) * slack mx" by (simp add: algebra_simps)
  finally show ?case by (simp add: r_def)
qed (simp add: bucket_left_def)

lemma allow_window:
  assumes "redis_server exec view" "lua_numbers N" "others_wait view wait (bucketKey kind)"
    and "1 \<le> mx" "mx \<le> 2 ^ 53" "0 < milliseconds per" "milliseconds per \<le> 2 ^ 53"
    and "bucket_left N mx (milliseconds per) (view s) (bucketKey kind) t l" "0 \<le> l" "sorted (l # ts1 @ now # ts2)"
    and "\<forall>x\<in>set (ts1 @ now # ts2). x \<le> 2 ^ 53"
  shows "of_nat (length (filter (\<lambda>b. b) (drop (length ts1) (allow_run exec N wait kind mx per (ts1 @ now # ts2) s)))) \<le>
     of_int mx + of_int (last (now # ts2) - now) * (refill_rate N mx (milliseconds per) * (1 + eps)) + of_nat (Suc (length ts2)) * slack mx"
  using assms(8-11)
proof (induction ts1 arbitrary: s t l)
  case Nil
  have ln: "l \<le> now" "now \<le> 2 ^ 53" and srt: "0 \<le> now" "sorted (now # ts2)" "\<forall>x\<in>set ts2. x \<le> 2 ^ 53" using Nil.prems(2-4) by auto
  obtain a s' t' where s': "allow_run exec N wait kind mx per (now # ts2) s = a # allow_run exec N wait kind mx per ts2 s'"
    "gain_ok N mx (milliseconds per) t l now a t'" "bucket_left N mx (milliseconds per) (view s') (bucketKey kind) t' now"
    by (rule allow_run_step [OF assms(1-7) Nil.prems(1,2) ln, of ts2])
  have "of_nat (length (filter (\<lambda>b. b) (allow_run exec N wait kind mx per (now # ts2) s))) =
      (if a then 1 else 0) + (of_nat (length (filter (\<lambda>b. b) (allow_run exec N wait kind mx per ts2 s'))) :: rat)" unfolding s'(1) by simp
  moreover have "(if a then 1 else 0) + t' \<le> of_int mx + slack mx" using s'(2) by (simp add: gain_ok_def)
  moreover have "of_nat (Suc (length ts2)) * slack mx = slack mx + of_nat (length ts2) * slack mx" by (simp add: algebra_simps)
  ultimately show ?case using allow_run_bound [OF assms(1-7) s'(3) srt] by (simp del: allow_run.simps)
next
  case (Cons x ts1)
  have ln: "l \<le> x" "x \<le> 2 ^ 53" "0 \<le> x" using Cons.prems(2-4) by auto
  obtain a s' t' where "allow_run exec N wait kind mx per (x # ts1 @ now # ts2) s = a # allow_run exec N wait kind mx per (ts1 @ now # ts2) s'"
    "bucket_left N mx (milliseconds per) (view s') (bucketKey kind) t' x"
    by (rule allow_run_step [OF assms(1-7) Cons.prems(1,2) ln(1,2), of "ts1 @ now # ts2"])
  with Cons.IH [of s' t' x] Cons.prems(3,4) ln(3) show ?case by simp
qed

text \<open>
  C21: The limit holds over every period: however the checks of a kind before it went, the number of checks
  that the limiter allows from time t to time t' is at most the maximum plus the refill of that
  time at the rate the script computes, up to the relative error \<open>eps\<close> of one rounding and what the rounding of each
  check can add; also when the bucket expires in Redis in between and other clients use the server.
  Milliseconds, interval and maximum are below \<open>2 ^ 53\<close>.
\<close>

theorem rate_limit_holds:
  assumes "redis_server exec view" "lua_numbers N" "db (view s) (bucketKey kind) = None" "others_wait view wait (bucketKey kind)"
    and "1 \<le> mx" "mx \<le> 2 ^ 53" "1 \<le> milliseconds per" "milliseconds per \<le> 2 ^ 53"
    and "sorted (ts1 @ t # ts2)" "\<forall>x\<in>set (ts1 @ t # ts2). 0 \<le> x \<and> x \<le> 2 ^ 53"
  shows "of_nat (length (filter (\<lambda>b. b) (drop (length ts1) (allow_run exec N wait kind mx per (ts1 @ t # ts2) s)))) \<le>
     of_int mx + of_int (last (t # ts2) - t) * (refill_rate N mx (milliseconds per) * (1 + eps)) + of_nat (Suc (length ts2)) * slack mx"
proof -
  let ?l = "hd (ts1 @ [t])"
  have "bucket_left N mx (milliseconds per) (view s) (bucketKey kind) (of_int mx) ?l"
    using assms(3,5,6) lua_numbers.fl_int [OF assms(2), of mx] by (simp add: bucket_left_def)
  moreover have "sorted (?l # ts1 @ t # ts2)" "0 \<le> ?l" using assms(9,10) by (cases ts1; auto)+
  moreover have "\<forall>x\<in>set (ts1 @ t # ts2). x \<le> 2 ^ 53" using assms(10) by simp
  ultimately show ?thesis using assms(7,8) by (intro allow_window [OF assms(1,2,4-6)]) auto
qed

theorem rate_limit_holds_witness:
  "of_nat (length (filter (\<lambda>b. b) (drop 1 (allow_run redis_doc doubles tick ''mail'' 2 1000000000 [0, 500, 500, 3000] store0)))) \<le>
     2 + 2500 * (refill_rate doubles 2 1000 * (1 + eps)) + 3 * slack 2"
proof -
  have "others_wait id tick (bucketKey ''mail'')" by (simp add: others_wait_def tick_def)
  moreover have "db (id store0) (bucketKey ''mail'') = None" by (simp add: store0_def)
  ultimately show ?thesis
    using rate_limit_holds [OF logical.redis_server_axioms doubles.lua_numbers_axioms, of store0 "''mail''" tick 2 1000000000 "[0]" 500 "[500, 3000]"]
    by (simp add: milliseconds_def del: allow_run.simps)
qed

section \<open>Waiting as told\<close>

lemma bucket_step_exact:
  "bucket_step exact mx iv now t l =
     (let tokens = min (of_int mx) (t + (of_int now - l) * (of_int mx / of_int iv))
      in if tokens \<ge> 1 then ((True, \<lfloor>tokens - 1\<rfloor>), tokens - 1)
         else ((False, \<lceil>(1 - tokens) / (of_int mx / of_int iv)\<rceil>), tokens))"
  by (simp add: bucket_step_def exact_def Let_def)

text \<open>
  The retry hint is right and tight: a check denied with retry in r milliseconds succeeds r
  milliseconds later and would still be denied one millisecond earlier (in exact arithmetic, no
  other check in between).
\<close>

lemma retry_hint_is_exact:
  assumes "bucket_step exact mx iv now t l = ((False, r), t')" "1 \<le> mx" "0 < iv"
  shows "0 < r \<and> fst (fst (bucket_step exact mx iv (now + r) t' (of_int now))) \<and>
     \<not> fst (fst (bucket_step exact mx iv (now + r - 1) t' (of_int now)))"
proof -
  define rate :: rat where "rate = of_int mx / of_int iv"
  have rate: "0 < rate" using assms(2,3) by (simp add: rate_def)
  have t': "t' < 1" and r: "r = \<lceil>(1 - t') / rate\<rceil>"
    using assms(1) by (auto simp: bucket_step_exact Let_def rate_def split: if_splits)
  have "0 < (1 - t') / rate" using t' rate by simp
  then have r0: "0 < r" unfolding r by simp
  have "(1 - t') / rate \<le> of_int r" "of_int r - 1 < (1 - t') / rate"
    unfolding r using le_of_int_ceiling ceiling_correct [of "(1 - t') / rate"] by auto
  then have ge: "1 \<le> t' + of_int r * rate" and lt: "t' + (of_int r - 1) * rate < 1"
    using rate by (simp_all add: field_simps)
  have "fst (fst (bucket_step exact mx iv (now + r) t' (of_int now)))"
    using ge assms(2) by (simp add: bucket_step_exact Let_def rate_def)
  moreover have "\<not> fst (fst (bucket_step exact mx iv (now + r - 1) t' (of_int now)))"
    using lt by (simp add: bucket_step_exact Let_def rate_def algebra_simps)
  ultimately show ?thesis using r0 by simp
qed

end
