(* ===== verification/Go_Json.thy ===== *)
theory Go_Json
  imports Winter_Prelude
begin

text \<open>
  What the program uses of Go's \<open>encoding/json\<close>: the text of strings, integers, arrays and objects that
  \<open>Marshal\<close> writes (with its escapes, and base64 for byte slices), and a reader of JSON values for
  \<open>Unmarshal\<close>. Strings are byte strings; a string that is valid UTF-8 is written so that it reads
  back, an invalid byte becomes the replacement character. The nesting limit of Go's reader (10000)
  is not modelled, and its errors are one value.
\<close>

section \<open>UTF-8\<close>

abbreviation byte :: "char \<Rightarrow> nat" where
  "byte c \<equiv> of_char c"

definition rune_size :: "nat \<Rightarrow> nat" where
  "rune_size b =
     (if b < 0x80 then 1 else if 0xC2 \<le> b \<and> b \<le> 0xDF then 2 else if 0xE0 \<le> b \<and> b \<le> 0xEF then 3
      else if 0xF0 \<le> b \<and> b \<le> 0xF4 then 4 else 0)"

definition second_ok :: "nat \<Rightarrow> nat \<Rightarrow> bool" where
  "second_ok b c =
     (if b = 0xE0 then 0xA0 \<le> c \<and> c \<le> 0xBF else if b = 0xED then 0x80 \<le> c \<and> c \<le> 0x9F
      else if b = 0xF0 then 0x90 \<le> c \<and> c \<le> 0xBF else if b = 0xF4 then 0x80 \<le> c \<and> c \<le> 0x8F
      else 0x80 \<le> c \<and> c \<le> 0xBF)"

text \<open>The size of the first rune of a string (\<open>utf8.DecodeRune\<close>), 0 where it is not valid.\<close>

definition rune_len :: "string \<Rightarrow> nat" where
  "rune_len s =
     (case s of
        [] \<Rightarrow> 0
      | c # cs \<Rightarrow>
          (let n = rune_size (byte c)
           in if n \<le> 1 then n
              else if n \<le> length s \<and> second_ok (byte c) (byte (hd cs)) \<and>
                      list_all (\<lambda>d. 0x80 \<le> byte d \<and> byte d \<le> 0xBF) (take (n - 2) (tl cs))
                   then n else 0))"

fun utf8_ok :: "string \<Rightarrow> bool" where
  "utf8_ok [] = True"
| "utf8_ok (c # cs) = (0 < rune_len (c # cs) \<and> utf8_ok (drop (rune_len (c # cs) - 1) cs))"

text \<open>The bytes of a rune.\<close>

definition utf8_enc :: "nat \<Rightarrow> string" where
  "utf8_enc u =
     map char_of
       (if u < 0x80 then [u]
        else if u < 0x800 then [0xC0 + u div 64, 0x80 + u mod 64]
        else if u < 0x10000 then [0xE0 + u div 4096, 0x80 + u div 64 mod 64, 0x80 + u mod 64]
        else [0xF0 + u div 262144, 0x80 + u div 4096 mod 64, 0x80 + u div 64 mod 64, 0x80 + u mod 64])"

definition replacement :: string where
  "replacement = utf8_enc 0xFFFD"

section \<open>Strings\<close>

definition hex_chr :: "nat \<Rightarrow> char" where
  "hex_chr d = ''0123456789abcdef'' ! d"

definition hex_val :: "char \<Rightarrow> nat option" where
  "hex_val c =
     (let v = byte c
      in if 48 \<le> v \<and> v \<le> 57 then Some (v - 48) else if 97 \<le> v \<and> v \<le> 102 then Some (v - 87)
         else if 65 \<le> v \<and> v \<le> 70 then Some (v - 55) else None)"

definition quote_chr :: char where "quote_chr = CHR 0x22"
definition backslash :: char where "backslash = CHR 0x5C"

text \<open>An ASCII character inside a string: the escapes of \<open>appendString\<close> with HTML escaping.\<close>

definition esc_char :: "char \<Rightarrow> string" where
  "esc_char c =
     (if c = quote_chr \<or> c = backslash then [backslash, c]
      else if c = CHR 0x08 then [backslash, CHR ''b''] else if c = CHR 0x0C then [backslash, CHR ''f'']
      else if c = CHR 0x0A then [backslash, CHR ''n''] else if c = CHR 0x0D then [backslash, CHR ''r'']
      else if c = CHR 0x09 then [backslash, CHR ''t'']
      else if byte c < 32 \<or> c = CHR ''<'' \<or> c = CHR ''>'' \<or> c = CHR ''&''
        then [backslash, CHR ''u'', CHR ''0'', CHR ''0'', hex_chr (byte c div 16), hex_chr (byte c mod 16)]
      else [c])"

text \<open>The line separators U+2028 and U+2029 are escaped too.\<close>

definition esc_rune :: "string \<Rightarrow> string" where
  "esc_rune r =
     (if r = utf8_enc 0x2028 then backslash # ''u2028''
      else if r = utf8_enc 0x2029 then backslash # ''u2029'' else r)"

fun json_chars :: "string \<Rightarrow> string" where
  "json_chars [] = []"
| "json_chars (c # cs) =
     (let n = rune_len (c # cs)
      in if byte c < 0x80 then esc_char c @ json_chars cs
         else if n = 0 then (backslash # ''ufffd'') @ json_chars cs
         else esc_rune (c # take (n - 1) cs) @ json_chars (drop (n - 1) cs))"

definition json_string :: "string \<Rightarrow> string" where
  "json_string s = quote_chr # json_chars s @ [quote_chr]"

definition hex4 :: "string \<Rightarrow> nat option" where
  "hex4 s =
     (case map hex_val s of
        [Some a, Some b, Some c, Some d] \<Rightarrow> Some (((a * 16 + b) * 16 + c) * 16 + d)
      | _ \<Rightarrow> None)"

definition simple_escape :: "char \<Rightarrow> char option" where
  "simple_escape e =
     map_of [(quote_chr, quote_chr), (backslash, backslash), (CHR ''/'', CHR ''/''), (CHR ''b'', CHR 0x08), (CHR ''f'', CHR 0x0C),
       (CHR ''n'', CHR 0x0A), (CHR ''r'', CHR 0x0D), (CHR ''t'', CHR 0x09)] e"

text \<open>A surrogate that the next escape completes gives one rune; alone it is replaced.\<close>

definition low_surrogate :: "nat \<Rightarrow> string \<Rightarrow> nat option" where
  "low_surrogate u s =
     (if 0xD800 \<le> u \<and> u \<le> 0xDBFF \<and> take 2 s = [backslash, CHR ''u''] then
        (case hex4 (take 4 (drop 2 s)) of
           Some lo \<Rightarrow> if 0xDC00 \<le> lo \<and> lo \<le> 0xDFFF then Some (0x10000 + (u - 0xD800) * 0x400 + (lo - 0xDC00)) else None
         | None \<Rightarrow> None)
      else None)"

definition prepend :: "string \<Rightarrow> (string \<times> 'a) option \<Rightarrow> (string \<times> 'a) option" where
  "prepend p r = map_option (\<lambda>(s, rest). (p @ s, rest)) r"

text \<open>Reading a string after its opening quote: its value and what follows the closing quote.\<close>

function unquote :: "string \<Rightarrow> (string \<times> string) option" where
  "unquote s =
     (case s of
        [] \<Rightarrow> None
      | c # cs \<Rightarrow>
          if c = quote_chr then Some ([], cs)
          else if c = backslash then
            (case cs of
               [] \<Rightarrow> None
             | e # ds \<Rightarrow>
                 if e = CHR ''u'' then
                   (case hex4 (take 4 ds) of
                      None \<Rightarrow> None
                    | Some u \<Rightarrow>
                        if 0xD800 \<le> u \<and> u \<le> 0xDFFF then
                          (case low_surrogate u (drop 4 ds) of
                             Some v \<Rightarrow> prepend (utf8_enc v) (unquote (drop 10 ds))
                           | None \<Rightarrow> prepend replacement (unquote (drop 4 ds)))
                        else prepend (utf8_enc u) (unquote (drop 4 ds)))
                 else (case simple_escape e of None \<Rightarrow> None | Some x \<Rightarrow> prepend [x] (unquote ds)))
          else if byte c < 32 then None
          else if byte c < 0x80 then prepend [c] (unquote cs)
          else if rune_len s = 0 then prepend replacement (unquote cs)
          else prepend (take (rune_len s) s) (unquote (drop (rune_len s) s)))"
  by pat_completeness auto
termination by (relation "measure length") auto

declare unquote.simps [simp del]

section \<open>Reading back a string\<close>

lemma hex_val_chr: "d < 16 \<Longrightarrow> hex_val (hex_chr d) = Some d"
  by (auto simp: numeral_eq_Suc less_Suc_eq hex_val_def hex_chr_def)

lemma rune_len_le: "rune_len s \<le> length s"
  by (auto simp: rune_len_def rune_size_def Let_def split: list.splits)

lemma rune_len_ascii [simp]: "byte c < 0x80 \<Longrightarrow> rune_len (c # cs) = 1"
  by (simp add: rune_len_def rune_size_def)

lemma rune_len_wide: "0 < rune_len (c # cs) \<Longrightarrow> \<not> byte c < 0x80 \<Longrightarrow> 2 \<le> rune_len (c # cs)"
  by (auto simp: rune_len_def rune_size_def Let_def split: if_splits)

lemma rune_len_prefix:
  assumes "0 < rune_len s"
  shows "rune_len (take (rune_len s) s @ r) = rune_len s"
proof (cases s)
  case (Cons c cs)
  show ?thesis
  proof (cases "rune_size (byte c) \<le> 1")
    case True
    then have "rune_size (byte c) = 1" using assms Cons by (auto simp: rune_len_def Let_def)
    then show ?thesis by (simp add: rune_len_def Cons)
  next
    case False
    let ?n = "rune_size (byte c)"
    have n: "rune_len s = ?n" "?n \<le> Suc (length cs)" "second_ok (byte c) (byte (hd cs))"
      "list_all (\<lambda>d. 0x80 \<le> byte d \<and> byte d \<le> 0xBF) (take (?n - 2) (tl cs))"
      using assms False Cons by (auto simp: rune_len_def Let_def split: if_splits)
    obtain d ds where cs: "cs = d # ds" using n(2) False by (cases cs) auto
    obtain k where k: "?n = Suc (Suc k)" using False that [of "?n - 2"] by simp
    show ?thesis using n False by (simp add: n(1)) (simp add: rune_len_def Let_def Cons cs k)
  qed
qed (use assms in \<open>simp add: rune_len_def\<close>)

lemma prepend_simps [simp]: "prepend p None = None" "prepend p (Some (s, rest)) = Some (p @ s, rest)"
  by (simp_all add: prepend_def)

lemma utf8_enc_ascii [simp]: "byte c < 0x80 \<Longrightarrow> utf8_enc (byte c) = [c]"
  by (simp add: utf8_enc_def)

lemma marks [simp]: "quote_chr \<noteq> backslash" "backslash \<noteq> quote_chr" "byte quote_chr = 34" "byte backslash = 92"
  by (simp_all add: quote_chr_def backslash_def)

text \<open>One escape at a time.\<close>

lemma unquote_u:
  assumes "hex4 [a, b, c, d] = Some u" "u < 0xD800"
  shows "unquote (backslash # CHR ''u'' # a # b # c # d # R) = prepend (utf8_enc u) (unquote R)"
  using assms by (subst unquote.simps) simp

lemma unquote_simple: "simple_escape e = Some x \<Longrightarrow> e \<noteq> CHR ''u'' \<Longrightarrow> unquote (backslash # e # R) = prepend [x] (unquote R)"
  by (subst unquote.simps) simp

lemma unquote_plain:
  "c \<noteq> quote_chr \<Longrightarrow> c \<noteq> backslash \<Longrightarrow> 32 \<le> byte c \<Longrightarrow> byte c < 0x80 \<Longrightarrow> unquote (c # R) = prepend [c] (unquote R)"
  by (subst unquote.simps) simp

lemma unquote_esc_char:
  assumes "byte c < 0x80"
  shows "unquote (esc_char c @ R) = prepend [c] (unquote R)"
proof -
  have h: "hex4 [CHR ''0'', CHR ''0'', hex_chr (byte c div 16), hex_chr (byte c mod 16)] = Some (byte c)"
    using assms by (simp add: hex4_def hex_val_chr) (simp add: hex_val_def)
  consider (mark) "c = quote_chr \<or> c = backslash" | (short) "c \<in> {CHR 0x08, CHR 0x09, CHR 0x0A, CHR 0x0C, CHR 0x0D}"
    | (hex) "c \<noteq> quote_chr" "c \<noteq> backslash" "c \<notin> {CHR 0x08, CHR 0x09, CHR 0x0A, CHR 0x0C, CHR 0x0D}" "byte c < 32 \<or> c \<in> {CHR ''<'', CHR ''>'', CHR ''&''}"
    | (plain) "c \<noteq> quote_chr" "c \<noteq> backslash" "32 \<le> byte c" "c \<notin> {CHR ''<'', CHR ''>'', CHR ''&''}"
    by fastforce
  then show ?thesis
  proof cases
    case mark
    then have "esc_char c = [backslash, c]" "simple_escape c = Some c" "c \<noteq> CHR ''u''"
      by (auto simp: esc_char_def simple_escape_def quote_chr_def backslash_def)
    then show ?thesis by (simp add: unquote_simple)
  next
    case short
    then have "\<exists>e. esc_char c = [backslash, e] \<and> simple_escape e = Some c \<and> e \<noteq> CHR ''u''"
      by (elim insertE emptyE) (simp_all add: esc_char_def simple_escape_def quote_chr_def backslash_def)
    with unquote_simple show ?thesis by fastforce
  next
    case hex
    then have "esc_char c = [backslash, CHR ''u'', CHR ''0'', CHR ''0'', hex_chr (byte c div 16), hex_chr (byte c mod 16)]"
      by (auto simp: esc_char_def)
    with unquote_u [OF h] assms show ?thesis by simp
  next
    case plain
    then have "esc_char c = [c]" by (auto simp: esc_char_def)
    with plain unquote_plain assms show ?thesis by simp
  qed
qed

lemma unquote_esc_rune:
  assumes "0 < rune_len s" "s = c # cs" "\<not> byte c < 0x80"
  shows "unquote (esc_rune (take (rune_len s) s) @ R) = prepend (take (rune_len s) s) (unquote R)"
proof -
  let ?r = "take (rune_len s) s"
  have h: "hex4 ''2028'' = Some 0x2028" "hex4 ''2029'' = Some 0x2029" by (simp_all add: hex4_def hex_val_def)
  have r: "?r = c # take (rune_len s - 1) cs" using assms by (cases "rune_len s") simp_all
  have copy: "unquote (?r @ R) = prepend ?r (unquote R)"
  proof -
    have len: "rune_len (?r @ R) = rune_len s" "length ?r = rune_len s"
      using rune_len_prefix [OF assms(1)] rune_len_le [of s] by simp_all
    have "c \<noteq> quote_chr" "c \<noteq> backslash" using assms(3) by auto
    then have "unquote (?r @ R) = prepend (take (rune_len s) (?r @ R)) (unquote (drop (rune_len s) (?r @ R)))"
      using assms(1,3) len(1) r by (subst unquote.simps) simp
    also have "\<dots> = prepend ?r (unquote R)" using len(2) by simp
    finally show ?thesis .
  qed
  show ?thesis
    using copy unquote_u [OF h(1), of R] unquote_u [OF h(2), of R] by (simp add: esc_rune_def)
qed

lemma unquote_json_chars: "utf8_ok s \<Longrightarrow> unquote (json_chars s @ quote_chr # rest) = Some (s, rest)"
proof (induction s rule: utf8_ok.induct)
  case 1
  show ?case by (subst unquote.simps) simp
next
  case (2 c cs)
  show ?case
  proof (cases "byte c < 0x80")
    case True
    with 2 show ?thesis by (simp add: unquote_esc_char)
  next
    case False
    let ?n = "rune_len (c # cs)"
    have n: "0 < ?n" "take ?n (c # cs) = c # take (?n - 1) cs" using 2 by (cases ?n, simp_all)+
    from unquote_esc_rune [OF n(1) refl False] 2 False n show ?thesis by (simp add: Let_def)
  qed
qed

section \<open>Values\<close>

datatype jvalue = JNull | JBool bool | JNum string | JStr string | JArr "jvalue list" | JObj "(string \<times> jvalue) list"

fun print_json :: "jvalue \<Rightarrow> string" and print_elems :: "jvalue list \<Rightarrow> string" and print_members :: "(string \<times> jvalue) list \<Rightarrow> string" where
  "print_json JNull = ''null''"
| "print_json (JBool b) = (if b then ''true'' else ''false'')"
| "print_json (JNum l) = l"
| "print_json (JStr s) = json_string s"
| "print_json (JArr vs) = CHR ''['' # print_elems vs @ '']''"
| "print_json (JObj kvs) = CHR ''{'' # print_members kvs @ ''}''"
| "print_elems [] = []"
| "print_elems (v # vs) = print_json v @ (if vs = [] then [] else CHR '','' # print_elems vs)"
| "print_members [] = []"
| "print_members ((k, v) # kvs) = json_string k @ CHR '':'' # print_json v @ (if kvs = [] then [] else CHR '','' # print_members kvs)"

definition is_space :: "char \<Rightarrow> bool" where
  "is_space c \<longleftrightarrow> c = CHR 0x20 \<or> c = CHR 0x09 \<or> c = CHR 0x0A \<or> c = CHR 0x0D"

definition is_digit :: "char \<Rightarrow> bool" where
  "is_digit c \<longleftrightarrow> digit_val c \<noteq> None"

abbreviation ws :: "string \<Rightarrow> string" where
  "ws s \<equiv> dropWhile is_space s"

text \<open>
  The literal of a number at the front of a string: a minus sign, digits without a leading zero, a
  fraction and an exponent, all but the digits optional.
\<close>

definition frac_part :: "string \<Rightarrow> (string \<times> string) option" where
  "frac_part s =
     (if s \<noteq> [] \<and> hd s = CHR ''.'' then
        (let ds = takeWhile is_digit (tl s) in if ds = [] then None else Some (CHR ''.'' # ds, dropWhile is_digit (tl s)))
      else Some ([], s))"

definition exp_part :: "string \<Rightarrow> (string \<times> string) option" where
  "exp_part s =
     (if s \<noteq> [] \<and> (hd s = CHR ''e'' \<or> hd s = CHR ''E'') then
        (let sg = (if tl s \<noteq> [] \<and> (hd (tl s) = CHR ''+'' \<or> hd (tl s) = CHR ''-'') then [hd (tl s)] else []);
             r = drop (length sg) (tl s); ds = takeWhile is_digit r
         in if ds = [] then None else Some (hd s # sg @ ds, dropWhile is_digit r))
      else Some ([], s))"

definition parse_num :: "string \<Rightarrow> (string \<times> string) option" where
  "parse_num s =
     (let sg = (if s \<noteq> [] \<and> hd s = CHR ''-'' then ''-'' else []); r = drop (length sg) s;
          ip = takeWhile is_digit r
      in if ip = [] \<or> (hd ip = CHR ''0'' \<and> tl ip \<noteq> []) then None
         else case frac_part (dropWhile is_digit r) of
                None \<Rightarrow> None
              | Some (fp, r1) \<Rightarrow>
                  (case exp_part r1 of None \<Rightarrow> None | Some (ep, r2) \<Rightarrow> Some (sg @ ip @ fp @ ep, r2)))"

definition parse_literal :: "string \<Rightarrow> (jvalue \<times> string) option" where
  "parse_literal s =
     (if take 4 s = ''null'' then Some (JNull, drop 4 s)
      else if take 4 s = ''true'' then Some (JBool True, drop 4 s)
      else if take 5 s = ''false'' then Some (JBool False, drop 5 s)
      else map_option (\<lambda>(l, r). (JNum l, r)) (parse_num s))"

definition starts :: "char \<Rightarrow> string \<Rightarrow> bool" where
  "starts c s \<longleftrightarrow> s \<noteq> [] \<and> hd s = c"

text \<open>
  The reader; the first argument bounds the depth of the recursion, and the length of the text is
  always enough (\<open>parse_print\<close>).
\<close>

fun parse_value :: "nat \<Rightarrow> string \<Rightarrow> (jvalue \<times> string) option"
  and parse_elems :: "nat \<Rightarrow> string \<Rightarrow> (jvalue list \<times> string) option"
  and parse_members :: "nat \<Rightarrow> string \<Rightarrow> ((string \<times> jvalue) list \<times> string) option" where
  "parse_value 0 s = None"
| "parse_value (Suc n) s =
     (let t = ws s; u = ws (tl t)
      in if t = [] then None
         else if hd t = CHR ''{'' then
           (if starts (CHR ''}'') u then Some (JObj [], tl u) else map_option (\<lambda>(kvs, r). (JObj kvs, r)) (parse_members n u))
         else if hd t = CHR ''['' then
           (if starts (CHR '']'') u then Some (JArr [], tl u) else map_option (\<lambda>(vs, r). (JArr vs, r)) (parse_elems n u))
         else if hd t = quote_chr then map_option (\<lambda>(x, r). (JStr x, r)) (unquote (tl t))
         else parse_literal t)"
| "parse_elems 0 s = None"
| "parse_elems (Suc n) s =
     (case parse_value n s of
        None \<Rightarrow> None
      | Some (v, r) \<Rightarrow>
          (let t = ws r
           in if starts (CHR '']'') t then Some ([v], tl t)
              else if starts (CHR '','') t then map_option (\<lambda>(vs, r'). (v # vs, r')) (parse_elems n (tl t))
              else None))"
| "parse_members 0 s = None"
| "parse_members (Suc n) s =
     (let t = ws s
      in if starts quote_chr t then
           (case unquote (tl t) of
              None \<Rightarrow> None
            | Some (k, r) \<Rightarrow>
                (let r1 = ws r
                 in if starts (CHR '':'') r1 then
                      (case parse_value n (tl r1) of
                         None \<Rightarrow> None
                       | Some (v, r2) \<Rightarrow>
                           (let r3 = ws r2
                            in if starts (CHR ''}'') r3 then Some ([(k, v)], tl r3)
                               else if starts (CHR '','') r3 then map_option (\<lambda>(kvs, r'). ((k, v) # kvs, r')) (parse_members n (tl r3))
                               else None))
                    else None))
         else None)"

definition parse_json :: "string \<Rightarrow> jvalue option" where
  "parse_json s =
     (case parse_value (length s) s of Some (v, r) \<Rightarrow> if ws r = [] then Some v else None | None \<Rightarrow> None)"

section \<open>Reading back a value\<close>

fun json_ok :: "jvalue \<Rightarrow> bool" where
  "json_ok (JNum l) \<longleftrightarrow> l \<in> range itoa"
| "json_ok (JStr s) \<longleftrightarrow> utf8_ok s"
| "json_ok (JArr vs) \<longleftrightarrow> (\<forall>v\<in>set vs. json_ok v)"
| "json_ok (JObj kvs) \<longleftrightarrow> (\<forall>(k, v)\<in>set kvs. utf8_ok k \<and> json_ok v)"
| "json_ok _ \<longleftrightarrow> True"

fun need :: "jvalue \<Rightarrow> nat" and need_elems :: "jvalue list \<Rightarrow> nat" and need_members :: "(string \<times> jvalue) list \<Rightarrow> nat" where
  "need (JArr vs) = Suc (need_elems vs)"
| "need (JObj kvs) = Suc (need_members kvs)"
| "need _ = 1"
| "need_elems [] = 0"
| "need_elems (v # vs) = Suc (need v + need_elems vs)"
| "need_members [] = 0"
| "need_members ((k, v) # kvs) = Suc (need v + need_members kvs)"

definition stops :: "string \<Rightarrow> bool" where
  "stops s \<longleftrightarrow> s = [] \<or> hd s \<in> {CHR '','', CHR '']'', CHR ''}''}"

lemma digits_nat_str: "c \<in> set (nat_str n) \<Longrightarrow> is_digit c"
proof (induction n rule: nat_str.induct)
  case (1 n)
  have "is_digit (digit_chr d)" if "d < 10" for d using that by (simp add: is_digit_def)
  with 1 show ?case by (cases "n < 10") (auto simp: nat_str.simps [of n])
qed

lemma hd_nat_str_pos: "0 < n \<Longrightarrow> hd (nat_str n) \<noteq> CHR ''0''"
proof (induction n rule: nat_str.induct)
  case (1 n)
  show ?case
  proof (cases "n < 10")
    case True
    with \<open>0 < n\<close> show ?thesis by (auto simp: nat_str.simps [of n] numeral_eq_Suc less_Suc_eq digit_chr_def)
  next
    case False
    with 1 show ?thesis by (simp add: nat_str.simps [of n])
  qed
qed

lemma tl_nat_str_0 [simp]: "nat_str 0 = ''0''"
  by (simp add: nat_str.simps [of 0] digit_chr_def)

lemma take_digits:
  assumes "stops r"
  shows "takeWhile is_digit (nat_str n @ r) = nat_str n" "dropWhile is_digit (nat_str n @ r) = r"
proof -
  have all: "\<forall>c\<in>set (nat_str n). is_digit c" using digits_nat_str by blast
  have "takeWhile is_digit r = []" "dropWhile is_digit r = r"
    using assms by (cases r; auto simp: stops_def is_digit_def digit_val_def)+
  then show "takeWhile is_digit (nat_str n @ r) = nat_str n" "dropWhile is_digit (nat_str n @ r) = r"
    using all by simp_all
qed

lemma stops_parts: "stops r \<Longrightarrow> frac_part r = Some ([], r)" "stops r \<Longrightarrow> exp_part r = Some ([], r)"
  by (auto simp: stops_def frac_part_def exp_part_def)

lemma parse_num_itoa: "stops r \<Longrightarrow> parse_num (itoa n @ r) = Some (itoa n, r)"
proof -
  assume r: "stops r"
  have z: "\<not> (hd (nat_str k) = CHR ''0'' \<and> tl (nat_str k) \<noteq> [])" for k
    using hd_nat_str_pos [of k] by (cases "k = 0") auto
  show ?thesis
  proof (cases "n < 0")
    case True
    then show ?thesis using z by (simp add: parse_num_def Let_def itoa_def take_digits [OF r] stops_parts [OF r])
  next
    case False
    then show ?thesis using z by (simp add: parse_num_def Let_def itoa_def take_digits [OF r] stops_parts [OF r])
  qed
qed

lemma hd_itoa: "hd (itoa n) = CHR ''-'' \<or> is_digit (hd (itoa n))"
  using digits_nat_str [OF hd_in_set [OF nat_str_not_Nil]] by (simp add: itoa_def)

text \<open>The first character tells the kinds of values apart.\<close>

lemma itoa_Cons: "\<exists>c cs. itoa n = c # cs \<and> (c = CHR ''-'' \<or> is_digit c)"
  using hd_itoa [of n] by (cases "itoa n") auto

lemma num_front:
  assumes "c = CHR ''-'' \<or> is_digit c"
  shows "\<not> is_space c" "c \<noteq> CHR ''{''" "c \<noteq> CHR ''[''" "c \<noteq> CHR '']''" "c \<noteq> CHR ''}''" "c \<noteq> quote_chr"
    "c \<noteq> CHR ''n''" "c \<noteq> CHR ''t''" "c \<noteq> CHR ''f''"
  using assms by (auto simp: is_digit_def digit_val_def is_space_def quote_chr_def)

lemma print_front:
  assumes "json_ok v"
  shows "\<exists>c cs. print_json v = c # cs \<and> \<not> is_space c \<and> c \<noteq> CHR '']''"
proof (cases v)
  case (JNum l)
  with assms obtain n where "l = itoa n" by auto
  then show ?thesis using itoa_Cons [of n] num_front JNum by fastforce
qed (simp_all add: is_space_def json_string_def quote_chr_def)

lemma ws_front [simp]: "\<not> is_space c \<Longrightarrow> ws (c # s) = c # s"
  by simp

lemma spaces [simp]: "\<not> is_space CHR '',''" "\<not> is_space CHR '':''" "\<not> is_space CHR '']''" "\<not> is_space CHR ''}''"
  "\<not> is_space CHR ''{''" "\<not> is_space CHR ''[''" "\<not> is_space quote_chr"
  by (simp_all add: is_space_def quote_chr_def)

lemma starts_Cons [simp]: "starts c (d # s) \<longleftrightarrow> d = c"
  by (simp add: starts_def)

lemma parse_number: "stops r \<Longrightarrow> parse_value (Suc k) (itoa n @ r) = Some (JNum (itoa n), r)"
proof -
  assume r: "stops r"
  obtain c cs where c: "itoa n = c # cs" "c = CHR ''-'' \<or> is_digit c" using itoa_Cons by blast
  note f = num_front [OF c(2)]
  have "parse_literal (c # cs @ r) = Some (JNum (itoa n), r)"
    using parse_num_itoa [OF r, of n] c(1) f by (simp add: parse_literal_def)
  then show ?thesis using f c(1) by (simp add: Let_def)
qed

lemma parse_text: "utf8_ok s \<Longrightarrow> parse_value (Suc k) (json_string s @ r) = Some (JStr s, r)"
  by (simp add: Let_def json_string_def unquote_json_chars) (simp add: quote_chr_def)

lemma stops_simps [simp]: "stops []" "stops (CHR '','' # s)" "stops (CHR '']'' # s)" "stops (CHR ''}'' # s)"
  by (simp_all add: stops_def)

lemma parse_print:
  "json_ok v \<Longrightarrow> need v \<le> n \<Longrightarrow> stops r \<Longrightarrow> parse_value n (print_json v @ r) = Some (v, r)"
  "\<forall>v\<in>set vs. json_ok v \<Longrightarrow> vs \<noteq> [] \<Longrightarrow> need_elems vs \<le> n \<Longrightarrow> parse_elems n (print_elems vs @ CHR '']'' # r) = Some (vs, r)"
  "\<forall>(k, v)\<in>set kvs. utf8_ok k \<and> json_ok v \<Longrightarrow> kvs \<noteq> [] \<Longrightarrow> need_members kvs \<le> n \<Longrightarrow>
     parse_members n (print_members kvs @ CHR ''}'' # r) = Some (kvs, r)"
proof (induction v and vs and kvs arbitrary: n r and n r and n r rule: print_json_print_elems_print_members.induct)
  case 1
  then show ?case by (cases n) (simp_all add: parse_literal_def is_space_def quote_chr_def Let_def)
next
  case (2 b)
  then show ?case by (cases n; cases b) (simp_all add: parse_literal_def is_space_def quote_chr_def Let_def)
next
  case (3 l)
  then show ?case using parse_number by (cases n) auto
next
  case (4 s)
  then show ?case using parse_text by (cases n) auto
next
  case (5 vs)
  then obtain k where n: "n = Suc k" by (cases n) auto
  show ?case
  proof (cases vs)
    case Nil
    then show ?thesis by (simp add: n Let_def)
  next
    case (Cons v ws')
    obtain c cs where c: "print_json v = c # cs" "\<not> is_space c" "c \<noteq> CHR '']''"
      using print_front [of v] 5(2) Cons by auto
    have "parse_elems k (print_elems vs @ CHR '']'' # r) = Some (vs, r)" using 5 Cons n by auto
    then show ?thesis using c by (simp add: n Let_def Cons)
  qed
next
  case (6 kvs)
  then obtain k where n: "n = Suc k" by (cases n) auto
  show ?case
  proof (cases kvs)
    case Nil
    then show ?thesis by (simp add: n Let_def)
  next
    case (Cons p ps)
    obtain i v where p: "p = (i, v)" by (cases p)
    have "parse_members k (print_members kvs @ CHR ''}'' # r) = Some (kvs, r)" using 6 Cons n by auto
    then show ?thesis by (simp add: n Let_def Cons p json_string_def) (simp add: quote_chr_def)
  qed
next
  case 7
  then show ?case by simp
next
  case (8 v vs)
  then obtain k where n: "n = Suc k" by (cases n) auto
  have v: "json_ok v" "need v \<le> k" using 8 n by simp_all
  show ?case
  proof (cases "vs = []")
    case True
    then show ?thesis using "8.IH"(1) [OF v, of "CHR '']'' # r"] n by simp
  next
    case False
    then have "parse_elems k (print_elems vs @ CHR '']'' # r) = Some (vs, r)" using 8 n by auto
    then show ?thesis using "8.IH"(1) [OF v, of "CHR '','' # print_elems vs @ CHR '']'' # r"] n False by simp
  qed
next
  case 9
  then show ?case by simp
next
  case (10 i v kvs)
  then obtain k where n: "n = Suc k" by (cases n) auto
  have v: "json_ok v" "need v \<le> k" "utf8_ok i" using 10 n by auto
  note front = unquote_json_chars [OF v(3)]
  show ?case
  proof (cases "kvs = []")
    case True
    then show ?thesis using "10.IH"(1) [OF v(1,2), of "CHR ''}'' # r"] n by (simp add: json_string_def front Let_def)
  next
    case False
    then have "parse_members k (print_members kvs @ CHR ''}'' # r) = Some (kvs, r)" using 10 n by auto
    then show ?thesis
      using "10.IH"(1) [OF v(1,2), of "CHR '','' # print_members kvs @ CHR ''}'' # r"] n False by (simp add: json_string_def front Let_def)
  qed
qed

lemma need_le_length:
  "json_ok v \<Longrightarrow> need v \<le> length (print_json v)"
  "\<forall>v\<in>set vs. json_ok v \<Longrightarrow> need_elems vs \<le> Suc (length (print_elems vs))"
  "\<forall>(k, v)\<in>set kvs. utf8_ok k \<and> json_ok v \<Longrightarrow> need_members kvs \<le> Suc (length (print_members kvs))"
proof (induction v and vs and kvs rule: print_json_print_elems_print_members.induct)
  case (3 l)
  then obtain n where "l = itoa n" by auto
  then show ?case using itoa_Cons [of n] by auto
qed (auto simp: json_string_def)

lemma parse_json_print: "json_ok v \<Longrightarrow> parse_json (print_json v) = Some v"
  using parse_print(1) [of v "length (print_json v)" "[]"] need_le_length(1) [of v] by (simp add: parse_json_def)

section \<open>Byte slices\<close>

text \<open>\<open>base64.StdEncoding\<close>: the encoding of a byte slice.\<close>

definition b64_chr :: "nat \<Rightarrow> char" where
  "b64_chr d = char_of (if d < 26 then d + 65 else if d < 52 then d + 71 else if d < 62 then d - 4 else if d = 62 then 43 else 47)"

definition b64_val :: "char \<Rightarrow> nat option" where
  "b64_val c =
     (let v = byte c
      in if 65 \<le> v \<and> v \<le> 90 then Some (v - 65) else if 97 \<le> v \<and> v \<le> 122 then Some (v - 71)
         else if 48 \<le> v \<and> v \<le> 57 then Some (v + 4) else if v = 43 then Some 62 else if v = 47 then Some 63 else None)"

fun b64 :: "string \<Rightarrow> string" where
  "b64 [] = []"
| "b64 [a] = [b64_chr (byte a div 4), b64_chr (byte a mod 4 * 16), CHR ''='', CHR ''='']"
| "b64 [a, b] = [b64_chr (byte a div 4), b64_chr (byte a mod 4 * 16 + byte b div 16), b64_chr (byte b mod 16 * 4), CHR ''='']"
| "b64 (a # b # c # s) =
     [b64_chr (byte a div 4), b64_chr (byte a mod 4 * 16 + byte b div 16), b64_chr (byte b mod 16 * 4 + byte c div 64), b64_chr (byte c mod 64)]
       @ b64 s"

text \<open>Decoding, group by group; padding ends the text. Line breaks are skipped before.\<close>

fun unb64 :: "string \<Rightarrow> string option" where
  "unb64 [] = Some []"
| "unb64 (p # q # r # t # s) =
     (case (b64_val p, b64_val q) of
        (Some w, Some x) \<Rightarrow>
          (if t = CHR ''='' \<and> s = [] then
             (if r = CHR ''='' then Some [char_of (w * 4 + x div 16)]
              else case b64_val r of
                     Some y \<Rightarrow> Some [char_of (w * 4 + x div 16), char_of (x mod 16 * 16 + y div 4)]
                   | None \<Rightarrow> None)
           else case (b64_val r, b64_val t) of
                  (Some y, Some z) \<Rightarrow>
                    map_option (\<lambda>u. char_of (w * 4 + x div 16) # char_of (x mod 16 * 16 + y div 4) # char_of (y mod 4 * 64 + z) # u) (unb64 s)
                | _ \<Rightarrow> None)
      | _ \<Rightarrow> None)"
| "unb64 _ = None"

definition b64_decode :: "string \<Rightarrow> string option" where
  "b64_decode s = unb64 (filter (\<lambda>c. c \<noteq> CHR 0x0A \<and> c \<noteq> CHR 0x0D) s)"

lemma byte_b64_chr:
  "d < 64 \<Longrightarrow> byte (b64_chr d) = (if d < 26 then d + 65 else if d < 52 then d + 71 else if d < 62 then d - 4 else if d = 62 then 43 else 47)"
  by (simp add: b64_chr_def)

lemma b64_val_chr [simp]: "d < 64 \<Longrightarrow> b64_val (b64_chr d) = Some d"
  by (auto simp: b64_val_def byte_b64_chr Let_def)

lemma b64_chr_plain:
  assumes "d < 64"
  shows "b64_chr d \<noteq> CHR ''=''" "b64_chr d \<noteq> CHR 0x0A" "b64_chr d \<noteq> CHR 0x0D" "byte (b64_chr d) < 0x80"
  using byte_b64_chr [OF assms] assms by (auto split: if_splits)

lemma byte_parts [simp]:
  "byte c div 4 < 64" "byte c div 16 < 16" "byte c div 64 < 4" "byte c div 16 div 16 = 0" "byte c div 64 div 4 = 0"
  using nat_of_char_less_256 [of c] by (auto simp: div_mult2_eq [symmetric] intro: less_mult_imp_div_less)

lemma b64_digits [simp]:
  "byte a mod 4 * 16 + byte b div 16 < 64" "byte b mod 16 * 4 + byte c div 64 < 64" "byte c mod 64 < 64"
  "byte a mod 4 * 16 < 64" "byte b mod 16 * 4 < 64"
  using byte_parts(2) [of b] byte_parts(3) [of c] mod_less_divisor [of 4 "byte a"] mod_less_divisor [of 16 "byte b"]
    mod_less_divisor [of 64 "byte c"] by linarith+

lemma unb64_b64: "unb64 (b64 s) = Some s"
proof (induction s rule: b64.induct)
  case (4 a b c s)
  have join: "byte b div 16 * 16 + byte b mod 16 = byte b" "byte c div 64 * 64 + byte c mod 64 = byte c" by simp_all
  from 4 show ?case using b64_chr_plain(1) [OF b64_digits(3)] join by simp
qed (use b64_chr_plain(1) in simp_all)

lemma b64_no_breaks: "filter (\<lambda>c. c \<noteq> CHR 0x0A \<and> c \<noteq> CHR 0x0D) (b64 s) = b64 s"
  by (induction s rule: b64.induct) (simp_all add: b64_chr_plain)

lemma b64_decode_b64 [simp]: "b64_decode (b64 s) = Some s"
  by (simp add: b64_decode_def b64_no_breaks unb64_b64)

lemma utf8_ok_ascii: "\<forall>c\<in>set s. byte c < 0x80 \<Longrightarrow> utf8_ok s"
  by (induction s) simp_all

lemma utf8_ok_itoa [simp]: "utf8_ok (itoa n)"
proof (rule utf8_ok_ascii)
  have "byte c < 0x80" if "is_digit c" for c using that by (auto simp: is_digit_def digit_val_def Let_def split: if_splits)
  then show "\<forall>c\<in>set (itoa n). byte c < 0x80" using digits_nat_str by (auto simp: itoa_def)
qed

lemma utf8_ok_b64 [simp]: "utf8_ok (b64 s)"
proof (rule utf8_ok_ascii)
  show "\<forall>c\<in>set (b64 s). byte c < 0x80"
    by (induction s rule: b64.induct) (simp_all add: b64_chr_plain)
qed

section \<open>Reading into a field\<close>

text \<open>A value read into a field that holds \<open>old\<close>; \<open>null\<close> leaves it, but sets a byte slice to nil.\<close>

definition as_string :: "jvalue \<Rightarrow> string \<Rightarrow> string option" where
  "as_string v old = (case v of JStr s \<Rightarrow> Some s | JNull \<Rightarrow> Some old | _ \<Rightarrow> None)"

definition as_bytes :: "jvalue \<Rightarrow> string option" where
  "as_bytes v = (case v of JStr s \<Rightarrow> b64_decode s | JNull \<Rightarrow> Some [] | _ \<Rightarrow> None)"

definition as_int :: "jvalue \<Rightarrow> int \<Rightarrow> int option" where
  "as_int v old = (case v of JNum l \<Rightarrow> parse_dec l | JNull \<Rightarrow> Some old | _ \<Rightarrow> None)"

end
