(* ===== verification/Cron.thy ===== *)
theory Cron
  imports Frames Go_Json
begin

text \<open>
  \<^verbatim>\<open>internal/scheduler/cron.go\<close>: the cron scheduler. The parser of cron expressions belongs to a
  third-party package: a schedule is the function from a time to its next activation, in
  nanoseconds, and \<open>parse\<close> is an argument of \<open>NewCron\<close>, like \<open>quote\<close>, the format \<open>%q\<close>. The stored
  state is JSON.
\<close>

record CronEntry =
  ce_name :: string
  ce_schedule :: string
  ce_queue :: string
  ce_kind :: string
  ce_payload :: string

record parsedEntry =
  pe_entry :: CronEntry
  pe_next :: "int \<Rightarrow> int"

definition parse_entry :: "(string \<Rightarrow> string) \<Rightarrow> (string \<Rightarrow> string + (int \<Rightarrow> int)) \<Rightarrow> CronEntry \<Rightarrow> qerr + parsedEntry" where
  "parse_entry quote parse e =
     (case parse (ce_schedule e) of
        Inl err \<Rightarrow> Inl (Wrapped (''winter: invalid cron schedule '' @ quote (ce_schedule e) @ '' for '' @ quote (ce_name e)) err)
      | Inr sched \<Rightarrow>
          Inr \<lparr>pe_entry = e\<lparr>ce_queue := (if ce_queue e = '''' then ''default'' else ce_queue e)\<rparr>, pe_next = sched\<rparr>)"

fun NewCron :: "(string \<Rightarrow> string) \<Rightarrow> (string \<Rightarrow> string + (int \<Rightarrow> int)) \<Rightarrow> CronEntry list \<Rightarrow> qerr + parsedEntry list" where
  "NewCron quote parse [] = Inr []"
| "NewCron quote parse (e # es) =
     (case parse_entry quote parse e of
        Inl err \<Rightarrow> Inl err
      | Inr p \<Rightarrow> (case NewCron quote parse es of Inl err \<Rightarrow> Inl err | Inr ps \<Rightarrow> Inr (p # ps)))"

text \<open>The JSON of \<open>cronState{NextRun: n}\<close>.\<close>

definition marshal_state :: "int \<Rightarrow> string" where
  "marshal_state n = ''{\"next_run\":'' @ itoa n @ ''}''"

text \<open>Reading it back: unknown members are skipped, and \<open>null\<close> leaves the zero value.\<close>

fun state_members :: "(string \<times> jvalue) list \<Rightarrow> int \<Rightarrow> int option" where
  "state_members [] n = Some n"
| "state_members ((k, v) # kvs) n = Option.bind (if k = ''next_run'' then as_int v n else Some n) (state_members kvs)"

definition unmarshal_state :: "string \<Rightarrow> int option" where
  "unmarshal_state s =
     (case parse_json s of Some (JObj kvs) \<Rightarrow> state_members kvs 0 | Some JNull \<Rightarrow> Some 0 | _ \<Rightarrow> None)"

lemma unmarshal_marshal [simp]: "unmarshal_state (marshal_state n) = Some n"
proof -
  have "marshal_state n = print_json (JObj [(''next_run'', JNum (itoa n))])"
    by (simp add: marshal_state_def json_string_def quote_chr_def esc_char_def backslash_def)
  moreover have "json_ok (JObj [(''next_run'', JNum (itoa n))])" by simp
  ultimately show ?thesis by (simp only: unmarshal_state_def parse_json_print) (simp add: as_int_def)
qed

definition seed_entry :: "'s server \<Rightarrow> fault \<Rightarrow> int \<Rightarrow> parsedEntry \<Rightarrow> 's \<Rightarrow> (string + reply) \<times> 's" where
  "seed_entry exec flt now e =
     run flt (lcall exec (HSETNX cronKey (ce_name (pe_entry e)) (marshal_state (unixMilli (pe_next e now)))))"

fun seedNextRuns :: "'s server \<Rightarrow> (nat \<Rightarrow> fault) \<Rightarrow> nat \<Rightarrow> int \<Rightarrow> parsedEntry list \<Rightarrow> 's \<Rightarrow> 's" where
  "seedNextRuns exec flts i now [] s = s"
| "seedNextRuns exec flts i now (e # es) s =
     seedNextRuns exec flts (Suc i) now es (snd (seed_entry exec (flts i) now e s))"

definition compareAndSwapScript :: "'s server \<Rightarrow> key \<Rightarrow> string \<Rightarrow> string \<Rightarrow> string \<Rightarrow> ('s, reply) lua" where
  "compareAndSwapScript exec key field expected newVal =
     call exec (HGET key field) (\<lambda>current.
       if current = RBulk expected then call exec (HSET key [(field, newVal)]) (\<lambda>_. ret (RInt 1))
       else ret (RInt 0))"

definition compareAndSwap :: "'s server \<Rightarrow> fault \<Rightarrow> string \<Rightarrow> string \<Rightarrow> string \<Rightarrow> 's \<Rightarrow> (qerr + bool) \<times> 's" where
  "compareAndSwap exec flt field expected newVal =
     go_result (run flt (compareAndSwapScript exec cronKey field expected newVal)) Plain
       (\<lambda>r. case r of RInt n \<Rightarrow> Inr (n = 1) | _ \<Rightarrow> Inl (Wrapped ''winter: cron cas'' unexpected))"

definition cron_id :: "string \<Rightarrow> int \<Rightarrow> string" where
  "cron_id name nextRun = ''cron:'' @ name @ '':'' @ itoa nextRun"

definition cron_job :: "CronEntry \<Rightarrow> int \<Rightarrow> int \<Rightarrow> JobRecord" where
  "cron_job e nextRun now =
     \<lparr>ID = cron_id (ce_name e) nextRun, Kind = ce_kind e, Queue = ce_queue e, Priority = 5, State = ''pending'',
      Payload = ce_payload e, Attempt = 0, MaxRetries = 3, CreatedAt = unixMilli now, ScheduledAt = 0,
      StartedAt = 0, CompletedAt = 0, LastError = '''', UniqueKey = '''', WorkflowID = ''''\<rparr>"

text \<open>How the loop body of \<open>tick\<close> ends for one entry: which log line, or which \<open>continue\<close>.\<close>

datatype tick_outcome =
    ReadFailed string
  | NotSeeded
  | BadState
  | NotDue
  | CasFailed qerr
  | LostRace
  | EnqueueFailed qerr
  | CronEnqueued string

record tick_faults =
  tf_read :: fault
  tf_cas :: fault
  tf_enqueue :: fault

text \<open>From the comparison with the state that was read, to the enqueue.\<close>

definition tick_commit :: "'s server \<Rightarrow> tick_faults \<Rightarrow> int \<Rightarrow> parsedEntry \<Rightarrow> string \<Rightarrow> int \<Rightarrow> 's \<Rightarrow> tick_outcome \<times> 's" where
  "tick_commit exec F now p raw nextRun s =
     (let e = pe_entry p; following = pe_next p now in
      case compareAndSwap exec (tf_cas F) (ce_name e) raw (marshal_state (unixMilli following)) s of
        (Inl err, s2) \<Rightarrow> (CasFailed err, s2)
      | (Inr swapped, s2) \<Rightarrow>
          if \<not> swapped then (LostRace, s2)
          else (case Enqueue exec (tf_enqueue F) (cron_job e nextRun now) '''' 0 s2 of
                  (Inl err, s3) \<Rightarrow> (EnqueueFailed err, s3)
                | (Inr _, s3) \<Rightarrow> (CronEnqueued (cron_id (ce_name e) nextRun), s3)))"

definition tick_entry :: "'s server \<Rightarrow> tick_faults \<Rightarrow> int \<Rightarrow> parsedEntry \<Rightarrow>
    's \<Rightarrow> tick_outcome \<times> 's" where
  "tick_entry exec F now p s =
     (case run (tf_read F) (lcall exec (HGET cronKey (ce_name (pe_entry p)))) s of
        (Inl err, s1) \<Rightarrow> (ReadFailed err, s1)
      | (Inr (RBulk raw), s1) \<Rightarrow>
          (case unmarshal_state raw of
             None \<Rightarrow> (BadState, s1)
           | Some nextRun \<Rightarrow>
               if now < nextRun * 1000000 then (NotDue, s1) else tick_commit exec F now p raw nextRun s1)
      | (Inr _, s1) \<Rightarrow> (NotSeeded, s1))"

fun cron_tick :: "'s server \<Rightarrow> (nat \<Rightarrow> tick_faults) \<Rightarrow> nat \<Rightarrow> int \<Rightarrow> parsedEntry list \<Rightarrow>
    's \<Rightarrow> tick_outcome list \<times> 's" where
  "cron_tick exec F i now [] s = ([], s)"
| "cron_tick exec F i now (p # ps) s =
     (case tick_entry exec (F i) now p s of
        (out, s1) \<Rightarrow> (case cron_tick exec F (Suc i) now ps s1 of (outs, s2) \<Rightarrow> (out # outs, s2)))"

section \<open>The compare-and-swap\<close>

definition cron_state :: "dataset \<Rightarrow> string \<Rightarrow> string option" where
  "cron_state d name = map_of (hash_at d cronKey) name"

definition set_cron :: "string \<Rightarrow> string \<Rightarrow> dataset \<Rightarrow> dataset" where
  "set_cron name v d = store_hash d cronKey (hash_set [(name, v)] (hash_at d cronKey))"

lemma run_cas:
  assumes "has_type THash d cronKey"
  shows "compareAndSwap redis_doc NoFault name raw new d =
     (Inr (cron_state d name = Some raw), if cron_state d name = Some raw then set_cron name new d else d)"
  using assms
  by (auto simp: compareAndSwap_def go_result_def compareAndSwapScript_def call_HGET call_HSET ret_def
      cron_state_def set_cron_def split: option.splits)

lemma set_cron_simps [simp]:
  "cron_state (set_cron name v d) name' = (if name' = name then Some v else cron_state d name')"
  "has_type THash (set_cron name v d) cronKey"
  by (auto simp: cron_state_def set_cron_def has_type_def map_add_def)

lemma agree_set_cron [simp]: "agree d (set_cron name v d)"
  unfolding agree_def set_cron_def by (auto simp: foreign_def)

context redis_server
begin

lemma sim_compareAndSwap:
  "sim view (compareAndSwap exec flt f e n) (compareAndSwap redis_doc flt f e n)"
  unfolding compareAndSwap_def compareAndSwapScript_def by (intro sim_intros sim_call)

lemma sim_tick_commit: "sim view (tick_commit exec F now p raw nr) (tick_commit redis_doc F now p raw nr)"
proof (rule simI)
  fix s
  let ?e = "pe_entry p"
  obtain r s1 where c: "compareAndSwap exec (tf_cas F) (ce_name ?e) raw (marshal_state (unixMilli (pe_next p now))) s = (r, s1)"
    by fastforce
  then have c': "compareAndSwap redis_doc (tf_cas F) (ce_name ?e) raw (marshal_state (unixMilli (pe_next p now))) (view s) = (r, view s1)"
    using sim_compareAndSwap unfolding sim_def by (metis map_prod_simp id_apply)
  obtain r2 s2 where n: "Enqueue exec (tf_enqueue F) (cron_job ?e nr now) '''' 0 s1 = (r2, s2)" by fastforce
  then have n': "Enqueue redis_doc (tf_enqueue F) (cron_job ?e nr now) '''' 0 (view s1) = (r2, view s2)"
    using sim_Enqueue unfolding sim_def by (metis map_prod_simp id_apply)
  show "map_prod id view (tick_commit exec F now p raw nr s) = tick_commit redis_doc F now p raw nr (view s)"
    by (cases r; cases r2) (simp_all add: tick_commit_def Let_def c c' n n')
qed

lemma sim_tick_entry: "sim view (tick_entry exec F now p) (tick_entry redis_doc F now p)"
proof (rule simI)
  fix s
  obtain r s1 where c: "run (tf_read F) (lcall exec (HGET cronKey (ce_name (pe_entry p)))) s = (r, s1)" by fastforce
  then have c': "run (tf_read F) (lcall redis_doc (HGET cronKey (ce_name (pe_entry p)))) (view s) = (r, view s1)"
    using sim_run [OF sim_lcall] unfolding sim_def by (metis map_prod_simp id_apply)
  have t: "map_prod id view (tick_commit exec F now p raw nr s1) = tick_commit redis_doc F now p raw nr (view s1)" for raw nr
    using sim_tick_commit by (simp add: sim_def)
  show "map_prod id view (tick_entry exec F now p s) = tick_entry redis_doc F now p (view s)"
    by (auto simp: tick_entry_def c c' t split: sum.split reply.split option.split)
qed

end

section \<open>Firing\<close>

lemma wf_id_cron [simp]: "wf_id (cron_id name n)"
  using wf_id_itoa [of "''cron:'' @ name @ '':''" n] by (simp add: cron_id_def)

text \<open>What the scheduler relies on: a schedule gives a later whole second.\<close>

definition advances :: "(int \<Rightarrow> int) \<Rightarrow> bool" where
  "advances nxt \<longleftrightarrow> (\<forall>t. t < nxt t \<and> nxt t mod 1000000000 = 0)"

definition no_faults :: tick_faults where
  "no_faults = \<lparr>tf_read = NoFault, tf_cas = NoFault, tf_enqueue = NoFault\<rparr>"

lemma marshal_inject [simp]: "marshal_state a = marshal_state b \<longleftrightarrow> a = b"
  by (simp add: marshal_state_def)

lemma advances_ms: "advances nxt \<Longrightarrow> unixMilli (nxt t) * 1000000 = nxt t"
proof -
  assume "advances nxt"
  then have "1000000000 dvd nxt t" by (simp add: advances_def mod_eq_0_iff_dvd)
  then have "1000000 dvd nxt t" by (rule dvd_trans [rotated]) simp
  then show ?thesis by (simp add: unixMilli_def)
qed

lemma run_read:
  assumes "has_type THash d cronKey" "cron_state d name = Some raw"
  shows "run NoFault (lcall redis_doc (HGET cronKey name)) d = (Inr (RBulk raw), d)"
  using assms by (simp add: lcall_def redis_doc.simps typed_def cron_state_def)

lemma run_commit:
  assumes "refines d m" "has_type THash d cronKey" "cron_state d (ce_name (pe_entry p)) = Some raw"
    and "wf_queue (ce_queue (pe_entry p))" "m (cron_id (ce_name (pe_entry p)) nr) = None"
    and "tf_cas F = NoFault" "tf_enqueue F = NoFault"
  shows "\<exists>d'. tick_commit redis_doc F now p raw nr d = (CronEnqueued (cron_id (ce_name (pe_entry p)) nr), d') \<and>
     refines d' (m(cron_id (ce_name (pe_entry p)) nr \<mapsto> new_job (cron_job (pe_entry p) nr now) '''')) \<and>
     (\<forall>n. cron_state d' n = (if n = ce_name (pe_entry p) then Some (marshal_state (unixMilli (pe_next p now))) else cron_state d n)) \<and>
     has_type THash d' cronKey"
proof -
  let ?e = "pe_entry p" and ?v = "marshal_state (unixMilli (pe_next p now))"
  let ?d = "set_cron (ce_name ?e) ?v d" and ?job = "cron_job (pe_entry p) nr now"
  have ref: "refines ?d m" using refines_agree [OF assms(1)] by simp
  have sel: "ID ?job = cron_id (ce_name ?e) nr" "Queue ?job = ce_queue ?e" "State ?job = ''pending''"
    by (simp_all add: cron_job_def)
  have run: "Enqueue redis_doc NoFault ?job '''' 0 ?d = (Inr (), after_enqueue ?job '''' 0 ?d)"
    using ref assms(4) by (intro run_Enqueue) (simp_all add: sel)
  have ref': "refines (after_enqueue ?job '''' 0 ?d) (m(cron_id (ce_name ?e) nr \<mapsto> new_job ?job ''''))"
    using Enqueue_refines [OF ref, of ?job "''''" 0] run assms(4,5) by (auto simp: sel)
  have "hash_at (after_enqueue ?job '''' 0 ?d) cronKey = hash_at ?d cronKey"
    "has_type THash (after_enqueue ?job '''' 0 ?d) cronKey"
    using assms(4) by (simp_all add: after_enqueue_def insert_job_def move_defs sel key_simps)
  then have "cron_state (after_enqueue ?job '''' 0 ?d) n = (if n = ce_name ?e then Some ?v else cron_state d n)" for n
    using set_cron_simps(1) [of "ce_name ?e" ?v d n] unfolding cron_state_def by simp
  with run ref' assms(2,3,6,7) \<open>has_type THash (after_enqueue ?job '''' 0 ?d) cronKey\<close> show ?thesis
    by (simp add: tick_commit_def Let_def run_cas)
qed

text \<open>A sample entry and scheduler state.\<close>

definition minutely :: "int \<Rightarrow> int" where
  "minutely t = (t div 60000000000 + 1) * 60000000000"

definition report_entry :: parsedEntry where
  "report_entry = \<lparr>pe_entry = \<lparr>ce_name = ''report'', ce_schedule = ''* * * * *'', ce_queue = ''default'', ce_kind = ''report'',
     ce_payload = ''{}''\<rparr>, pe_next = minutely\<rparr>"

definition cron_store :: dataset where
  "cron_store = set_cron ''report'' (marshal_state 60000) store0"

lemma advances_minutely: "advances minutely"
proof -
  have "t < (t div 60000000000 + 1) * 60000000000" for t :: int
    using pos_mod_bound [of 60000000000 t] div_mult_mod_eq [of t 60000000000] by (simp add: distrib_right)
  moreover have "((t div 60000000000 + 1) * 60000000000) mod 1000000000 = 0" for t :: int
    unfolding mod_eq_0_iff_dvd by (rule dvd_mult) simp
  ultimately show ?thesis by (simp only: advances_def minutely_def simp_thms)
qed

lemma cron_store_ok: "refines cron_store Map.empty" "has_type THash cron_store cronKey"
  "cron_state cron_store ''report'' = Some (marshal_state 60000)"
  using refines_agree [OF refines_store0] by (simp_all add: cron_store_def)

text \<open>
  C20: Two scheduler instances that have both read the same state of a due entry, and then commit in
  any order and at different times, enqueue its job exactly once: the second one loses the
  compare-and-swap and does nothing.
\<close>

theorem cron_exactly_one_instance_wins:
  assumes "redis_server exec view" "refines (view s) m" "has_type THash (view s) cronKey" "advances (pe_next p)"
    and "cron_state (view s) (ce_name (pe_entry p)) = Some (marshal_state nextRun)"
    and "nextRun * 1000000 \<le> now1" "nextRun * 1000000 \<le> now2"
    and "wf_queue (ce_queue (pe_entry p))" "m (cron_id (ce_name (pe_entry p)) nextRun) = None"
  shows "\<exists>s1 s2. tick_commit exec no_faults now1 p (marshal_state nextRun) nextRun s =
       (CronEnqueued (cron_id (ce_name (pe_entry p)) nextRun), s1) \<and>
     tick_commit exec no_faults now2 p (marshal_state nextRun) nextRun s1 = (LostRace, s2) \<and> view s2 = view s1"
proof -
  let ?n = "ce_name (pe_entry p)" and ?raw = "marshal_state nextRun"
  obtain d' where d': "tick_commit redis_doc no_faults now1 p ?raw nextRun (view s) = (CronEnqueued (cron_id ?n nextRun), d')"
    "cron_state d' ?n = Some (marshal_state (unixMilli (pe_next p now1)))" "has_type THash d' cronKey"
    using run_commit [OF assms(2,3,5,8,9), of no_faults now1] by (auto simp: no_faults_def)
  then obtain s1 where s1: "tick_commit exec no_faults now1 p ?raw nextRun s = (CronEnqueued (cron_id ?n nextRun), s1)" "view s1 = d'"
    using sim_result [OF redis_server.sim_tick_commit [OF assms(1)]] by metis
  have "now1 < pe_next p now1" using assms(4) by (simp add: advances_def)
  then have "unixMilli (pe_next p now1) \<noteq> nextRun" using assms(6) advances_ms [OF assms(4), of now1] by auto
  then have "tick_commit redis_doc no_faults now2 p ?raw nextRun d' = (LostRace, d')"
    using d'(2,3) by (simp add: tick_commit_def Let_def no_faults_def run_cas)
  then obtain s2 where "tick_commit exec no_faults now2 p ?raw nextRun s1 = (LostRace, s2)" "view s2 = d'"
    using sim_result [OF redis_server.sim_tick_commit [OF assms(1)]] s1(2) by metis
  with s1 show ?thesis by blast
qed

theorem cron_exactly_one_instance_wins_witness:
  "\<exists>s1 s2. tick_commit redis_doc no_faults 61000000000 report_entry (marshal_state 60000) 60000 cron_store =
       (CronEnqueued (cron_id ''report'' 60000), s1) \<and>
     tick_commit redis_doc no_faults 62000000000 report_entry (marshal_state 60000) 60000 s1 = (LostRace, s2)"
  using cron_exactly_one_instance_wins [OF logical.redis_server_axioms, of cron_store Map.empty report_entry 60000 61000000000 62000000000]
    cron_store_ok advances_minutely by (auto simp: report_entry_def)

text \<open>
  The guarantee is at most once, not exactly once: when the enqueue that follows a successful
  compare-and-swap meets a connection error, the stored state has moved on, no job was enqueued,
  and no tick before the next activation makes up for it.
\<close>

lemma cron_run_can_be_lost:
  assumes "redis_server exec view" "has_type THash (view s) cronKey" "advances (pe_next p)"
    and "cron_state (view s) (ce_name (pe_entry p)) = Some (marshal_state nextRun)"
    and "nextRun * 1000000 \<le> now" "\<not> is_duplicate e"
    and "tick_entry exec (no_faults\<lparr>tf_enqueue := ConnError e\<rparr>) now p s = (out, s')"
  shows "out = EnqueueFailed (Wrapped ''winter: enqueue'' e) \<and>
     view s' = set_cron (ce_name (pe_entry p)) (marshal_state (unixMilli (pe_next p now))) (view s) \<and>
     (\<forall>later. later < pe_next p now \<longrightarrow> fst (tick_entry exec no_faults later p s') = NotDue)"
proof -
  let ?n = "ce_name (pe_entry p)" and ?F = "no_faults\<lparr>tf_enqueue := ConnError e\<rparr>"
  let ?d = "set_cron ?n (marshal_state (unixMilli (pe_next p now))) (view s)"
  have "Enqueue redis_doc (ConnError e) job '''' 0 ?d = (Inl (Wrapped ''winter: enqueue'' e), ?d)" for job
    using assms(6) by (simp add: Enqueue_def go_result_def)
  then have "tick_entry redis_doc ?F now p (view s) = (EnqueueFailed (Wrapped ''winter: enqueue'' e), ?d)"
    using run_read [OF assms(2,4)] assms(2,4,5)
    by (simp add: tick_entry_def tick_commit_def Let_def no_faults_def run_cas)
  then have out: "out = EnqueueFailed (Wrapped ''winter: enqueue'' e)" and v: "view s' = ?d"
    using assms(7) sim_fst [OF redis_server.sim_tick_entry [OF assms(1)], of ?F now p s]
      sim_snd [OF redis_server.sim_tick_entry [OF assms(1)], of ?F now p s] by simp_all
  have "tick_entry redis_doc no_faults later p ?d = (NotDue, ?d)" if "later < pe_next p now" for later
    using run_read [of ?d ?n "marshal_state (unixMilli (pe_next p now))"] that advances_ms [OF assms(3), of now]
    by (simp add: tick_entry_def) (simp add: no_faults_def)
  then have "fst (tick_entry exec no_faults later p s') = NotDue" if "later < pe_next p now" for later
    using that v sim_fst [OF redis_server.sim_tick_entry [OF assms(1)]] by simp
  with out v show ?thesis by blast
qed

end
