(* ===== verification/Cron_Run.thy ===== *)
theory Cron_Run
  imports Cron
begin

text \<open>
  \<open>Run\<close> of \<^verbatim>\<open>internal/scheduler/cron.go\<close>: the first activations are seeded, then the entries are looked at
  once per tick until the context is cancelled, and what a whole run puts into the queue.
\<close>

text \<open>The list has the times of the ticks before the context is cancelled.\<close>

fun cron_ticks :: "'s server \<Rightarrow> (nat \<Rightarrow> nat \<Rightarrow> tick_faults) \<Rightarrow> nat \<Rightarrow> parsedEntry list \<Rightarrow> int list \<Rightarrow> 's \<Rightarrow> 's" where
  "cron_ticks exec F n ps [] s = s"
| "cron_ticks exec F n ps (t # ts) s = cron_ticks exec F (Suc n) ps ts (snd (cron_tick exec (F n) 0 t ps s))"

definition cron_Run :: "'s server \<Rightarrow> (nat \<Rightarrow> fault) \<Rightarrow> (nat \<Rightarrow> nat \<Rightarrow> tick_faults) \<Rightarrow> int \<Rightarrow> int list \<Rightarrow> parsedEntry list \<Rightarrow> 's \<Rightarrow> 's" where
  "cron_Run exec seedF F t0 ts ps s = cron_ticks exec F 0 ps ts (seedNextRuns exec seedF 0 t0 ps s)"

section \<open>The runs of an entry\<close>

abbreviation pname :: "parsedEntry \<Rightarrow> string" where
  "pname p \<equiv> ce_name (pe_entry p)"

text \<open>
  The runs of one entry, each with the activation it stands for and the time of the tick that
  enqueues it: the first tick at or after the activation; the next activation is the first after
  that tick.
\<close>

fun due_runs :: "(int \<Rightarrow> int) \<Rightarrow> int \<Rightarrow> int list \<Rightarrow> (int \<times> int) list" where
  "due_runs nxt r [] = []"
| "due_runs nxt r (t # ts) = (if r * 1000000 \<le> t then (r, t) # due_runs nxt (unixMilli (nxt t)) ts else due_runs nxt r ts)"

definition following :: "int \<Rightarrow> (parsedEntry \<Rightarrow> int) \<Rightarrow> parsedEntry \<Rightarrow> int" where
  "following t R p = (if R p * 1000000 \<le> t then unixMilli (pe_next p t) else R p)"

lemma due_runs_Cons:
  "due_runs (pe_next p) (R p) (t # ts) = (if R p * 1000000 \<le> t then [(R p, t)] else []) @ due_runs (pe_next p) (following t R p) ts"
  by (simp add: following_def)

lemma advances_after:
  assumes "advances nxt" "r * 1000000 \<le> t"
  shows "r < unixMilli (nxt t)"
proof -
  have "r * 1000000 < unixMilli (nxt t) * 1000000" using advances_ms [OF assms(1), of t] assms(2) \<open>advances nxt\<close> [unfolded advances_def, rule_format, of t]
    by linarith
  then show ?thesis by simp
qed

lemma following_ge: "advances (pe_next p) \<Longrightarrow> R p \<le> following t R p"
  using advances_after [of "pe_next p" "R p" t] by (auto simp: following_def)

lemma due_runs_ge: "advances nxt \<Longrightarrow> (r', t) \<in> set (due_runs nxt r ts) \<Longrightarrow> r \<le> r'"
proof (induction ts arbitrary: r)
  case (Cons t0 ts)
  then show ?case using advances_after [OF Cons.prems(1), of r t0] by (fastforce split: if_splits)
qed simp

lemma due_runs_sorted: "advances nxt \<Longrightarrow> sorted_wrt (<) (map fst (due_runs nxt r ts))"
proof (induction ts arbitrary: r)
  case (Cons t ts)
  then show ?case using advances_after [OF Cons.prems(1), of r t] due_runs_ge [OF Cons.prems(1), of _ _ "unixMilli (nxt t)" ts]
    by fastforce
qed simp

lemma split_at_last:
  assumes "x \<notin> set b" "x \<notin> set b'" "a @ x # b = a' @ x # b'"
  shows "a = a' \<and> b = b'"
proof -
  have "rev b @ x # rev a = rev b' @ x # rev a'" using arg_cong [OF assms(3), of rev] by simp
  moreover have "takeWhile (\<lambda>c. c \<noteq> x) (rev b @ x # rev a) = rev b" "takeWhile (\<lambda>c. c \<noteq> x) (rev b' @ x # rev a') = rev b'"
    using assms(1,2) takeWhile_name [of x "rev b"] takeWhile_name [of x "rev b'"] by simp_all
  ultimately have "b = b'" by (metis rev_rev_ident)
  then show ?thesis using assms(3) by simp
qed

lemma itoa_no_colon: "CHR '':'' \<notin> set (itoa k)"
  by (auto simp: itoa_def is_digit_def digit_val_def dest!: digits_nat_str)

lemma cron_id_inject [simp]: "cron_id n r = cron_id n' r' \<longleftrightarrow> n = n' \<and> r = r'"
  using split_at_last [OF itoa_no_colon itoa_no_colon, of n r n' r'] by (auto simp: cron_id_def)

section \<open>What a run puts into the queue\<close>

definition fire :: "int \<Rightarrow> (parsedEntry \<Rightarrow> int) \<Rightarrow> parsedEntry \<Rightarrow> astate \<Rightarrow> astate" where
  "fire t R p m = (if R p * 1000000 \<le> t then m(cron_id (pname p) (R p) \<mapsto> new_job (cron_job (pe_entry p) (R p) t) '''') else m)"

fun fired :: "parsedEntry list \<Rightarrow> (parsedEntry \<Rightarrow> int) \<Rightarrow> int list \<Rightarrow> astate \<Rightarrow> astate" where
  "fired ps R [] m = m"
| "fired ps R (t # ts) m = fired ps (following t R) ts (fold (fire t R) ps m)"

text \<open>The stored activations are \<open>R\<close>, and no job stands for one of them or a later one yet.\<close>

definition entries_ok :: "parsedEntry list \<Rightarrow> bool" where
  "entries_ok ps \<longleftrightarrow> distinct (map pname ps) \<and> (\<forall>p\<in>set ps. advances (pe_next p) \<and> wf_queue (ce_queue (pe_entry p)))"

definition cron_ready :: "dataset \<Rightarrow> astate \<Rightarrow> parsedEntry list \<Rightarrow> (parsedEntry \<Rightarrow> int) \<Rightarrow> bool" where
  "cron_ready d m ps R \<longleftrightarrow> refines d m \<and> has_type THash d cronKey \<and>
     (\<forall>p\<in>set ps. cron_state d (pname p) = Some (marshal_state (R p)) \<and>
        (\<forall>r \<ge> R p. m (cron_id (pname p) r) = None))"

lemma run_tick_entry:
  assumes "refines d m" "has_type THash d cronKey" "cron_state d (pname p) = Some (marshal_state (R p))"
    and "wf_queue (ce_queue (pe_entry p))" "m (cron_id (pname p) (R p)) = None"
  shows "\<exists>out d'. tick_entry redis_doc no_faults t p d = (out, d') \<and> refines d' (fire t R p m) \<and> has_type THash d' cronKey \<and>
     (\<forall>n. cron_state d' n = (if n = pname p then Some (marshal_state (following t R p)) else cron_state d n))"
proof (cases "R p * 1000000 \<le> t")
  case True
  then show ?thesis using run_read [OF assms(2,3)] run_commit [OF assms(1-5), of no_faults t]
    by (auto simp: tick_entry_def no_faults_def fire_def following_def)
next
  case False
  then show ?thesis using run_read [OF assms(2,3)] assms(1-3) by (auto simp: tick_entry_def no_faults_def fire_def following_def)
qed

lemma entries_okD: "entries_ok ps \<Longrightarrow> p \<in> set ps \<Longrightarrow> advances (pe_next p) \<and> wf_queue (ce_queue (pe_entry p))"
  by (simp add: entries_ok_def)

lemma entries_ok_same: "entries_ok ps \<Longrightarrow> p \<in> set ps \<Longrightarrow> q \<in> set ps \<Longrightarrow> pname p = pname q \<Longrightarrow> p = q"
  by (auto simp: entries_ok_def distinct_map dest: inj_onD)

lemma entries_ok_Cons: "entries_ok (p # ps) \<longleftrightarrow> entries_ok ps \<and> pname p \<notin> pname ` set ps \<and> advances (pe_next p) \<and> wf_queue (ce_queue (pe_entry p))"
  by (auto simp: entries_ok_def)

lemma fire_other: "i \<noteq> cron_id (pname p) (R p) \<or> t < R p * 1000000 \<Longrightarrow> fire t R p m i = m i"
  by (auto simp: fire_def)

lemma fold_fire:
  assumes "entries_ok ps"
  shows "(\<And>p. p \<in> set ps \<Longrightarrow> R p * 1000000 \<le> t \<Longrightarrow> i \<noteq> cron_id (pname p) (R p)) \<Longrightarrow> fold (fire t R) ps m i = m i"
    "p \<in> set ps \<Longrightarrow> R p * 1000000 \<le> t \<Longrightarrow> fold (fire t R) ps m (cron_id (pname p) (R p)) = Some (new_job (cron_job (pe_entry p) (R p) t) '''')"
proof -
  have other: "fold (fire t R) qs m i = m i" if "\<And>p. p \<in> set qs \<Longrightarrow> R p * 1000000 \<le> t \<Longrightarrow> i \<noteq> cron_id (pname p) (R p)" for qs m i
    using that
  proof (induction qs arbitrary: m)
    case (Cons q qs)
    then show ?case using fire_other [of i q R t m] by (metis fold_simps(2) linorder_not_less list.set_intros)
  qed simp
  then show "(\<And>p. p \<in> set ps \<Longrightarrow> R p * 1000000 \<le> t \<Longrightarrow> i \<noteq> cron_id (pname p) (R p)) \<Longrightarrow> fold (fire t R) ps m i = m i" .
  show "p \<in> set ps \<Longrightarrow> R p * 1000000 \<le> t \<Longrightarrow> fold (fire t R) ps m (cron_id (pname p) (R p)) = Some (new_job (cron_job (pe_entry p) (R p) t) '''')"
    using assms
  proof (induction ps arbitrary: m)
    case (Cons q qs)
    show ?case
    proof (cases "p = q")
      case True
      have "fold (fire t R) qs (fire t R q m) (cron_id (pname p) (R p)) = fire t R q m (cron_id (pname p) (R p))"
        using Cons.prems(3) True by (intro other) (auto simp: entries_ok_Cons)
      moreover have "fire t R q m (cron_id (pname p) (R p)) = Some (new_job (cron_job (pe_entry p) (R p) t) '''')"
        using True Cons.prems(2) by (simp add: fire_def)
      ultimately show ?thesis by simp
    qed (use Cons in \<open>simp add: entries_ok_Cons\<close>)
  qed simp
qed

lemma run_tick:
  assumes "entries_ok ps" "cron_ready d m ps R"
  shows "\<exists>outs d'. cron_tick redis_doc (\<lambda>_. no_faults) i t ps d = (outs, d') \<and> refines d' (fold (fire t R) ps m) \<and> has_type THash d' cronKey \<and>
     (\<forall>p\<in>set ps. cron_state d' (pname p) = Some (marshal_state (following t R p))) \<and>
     (\<forall>n. n \<notin> pname ` set ps \<longrightarrow> cron_state d' n = cron_state d n)"
  using assms
proof (induction ps arbitrary: d m i)
  case (Cons p ps)
  have ok: "entries_ok ps" "pname p \<notin> pname ` set ps" "wf_queue (ce_queue (pe_entry p))" using Cons.prems(1) by (simp_all add: entries_ok_Cons)
  obtain out d1 where d1: "tick_entry redis_doc no_faults t p d = (out, d1)" "refines d1 (fire t R p m)" "has_type THash d1 cronKey"
    "\<And>n. cron_state d1 n = (if n = pname p then Some (marshal_state (following t R p)) else cron_state d n)"
    using run_tick_entry [of d m p R t] Cons.prems(2) ok(3) by (auto simp: cron_ready_def)
  have "cron_ready d1 (fire t R p m) ps R"
    unfolding cron_ready_def
  proof (intro conjI ballI allI impI)
    fix q assume q: "q \<in> set ps"
    then have ne: "pname q \<noteq> pname p" using ok(2) by (metis imageI)
    then show "cron_state d1 (pname q) = Some (marshal_state (R q))" using d1(4) [of "pname q"] Cons.prems(2) q by (simp add: cron_ready_def)
    fix r assume "R q \<le> r"
    then show "fire t R p m (cron_id (pname q) r) = None" using fire_other [of "cron_id (pname q) r" p R t m] ne Cons.prems(2) q by (simp add: cron_ready_def)
  qed (use d1 in simp_all)
  from Cons.IH [OF ok(1) this, of "Suc i"] obtain outs d2 where
    "cron_tick redis_doc (\<lambda>_. no_faults) (Suc i) t ps d1 = (outs, d2)" "refines d2 (fold (fire t R) ps (fire t R p m))" "has_type THash d2 cronKey"
    "\<forall>p\<in>set ps. cron_state d2 (pname p) = Some (marshal_state (following t R p))" "\<forall>n. n \<notin> pname ` set ps \<longrightarrow> cron_state d2 n = cron_state d1 n"
    by blast
  then show ?case using d1 ok(2) by auto
qed (simp add: cron_ready_def)

lemma tick_ready:
  assumes "entries_ok ps" "cron_ready d m ps R"
  shows "cron_ready (snd (cron_tick redis_doc (\<lambda>_. no_faults) i t ps d)) (fold (fire t R) ps m) ps (following t R)"
proof -
  have "fold (fire t R) ps m (cron_id (pname p) r) = None" if p: "p \<in> set ps" "following t R p \<le> r" for p r
  proof -
    note adv = entries_okD [OF assms(1) p(1), THEN conjunct1]
    have "cron_id (pname p) r \<noteq> cron_id (pname q) (R q)" if "q \<in> set ps" "R q * 1000000 \<le> t" for q
      using entries_ok_same [OF assms(1) p(1) that(1)] advances_after [OF adv, of "R p" t] p(2) that(2) by (auto simp: following_def)
    then have "fold (fire t R) ps m (cron_id (pname p) r) = m (cron_id (pname p) r)" by (rule fold_fire(1) [OF assms(1)])
    then show ?thesis using assms(2) p following_ge [OF adv, of R t] by (simp add: cron_ready_def)
  qed
  then show ?thesis using run_tick [OF assms, of i t] by (auto simp: cron_ready_def)
qed

lemma fired_other:
  assumes "entries_ok ps" "\<And>p r t. p \<in> set ps \<Longrightarrow> (r, t) \<in> set (due_runs (pe_next p) (R p) ts) \<Longrightarrow> i \<noteq> cron_id (pname p) r"
  shows "fired ps R ts m i = m i"
  using assms(2)
proof (induction ts arbitrary: R m)
  case (Cons t ts)
  have "fired ps (following t R) ts (fold (fire t R) ps m) i = fold (fire t R) ps m i"
    using Cons.prems by (intro Cons.IH) (auto simp: due_runs_Cons simp del: due_runs.simps)
  also have "\<dots> = m i"
  proof (rule fold_fire(1) [OF assms(1)])
    fix p assume "p \<in> set ps" "R p * 1000000 \<le> t"
    then show "i \<noteq> cron_id (pname p) (R p)" using Cons.prems [of p "R p" t] by simp
  qed
  finally show ?case by simp
qed simp

lemma fired_run:
  assumes "entries_ok ps" "p \<in> set ps" "(r, t) \<in> set (due_runs (pe_next p) (R p) ts)"
  shows "fired ps R ts m (cron_id (pname p) r) = Some (new_job (cron_job (pe_entry p) r t) '''')"
  using assms(3)
proof (induction ts arbitrary: R m)
  case (Cons t0 ts)
  note adv = entries_okD [OF assms(1,2), THEN conjunct1]
  show ?case
  proof (cases "(r, t) \<in> set (due_runs (pe_next p) (following t0 R p) ts)")
    case False
    then have due: "R p * 1000000 \<le> t0" "r = R p" "t = t0" using Cons.prems by (auto simp: due_runs_Cons simp del: due_runs.simps split: if_splits)
    have "cron_id (pname p) r \<noteq> cron_id (pname q) r'" if "q \<in> set ps" "(r', t') \<in> set (due_runs (pe_next q) (following t0 R q) ts)" for q r' t'
      using entries_ok_same [OF assms(1,2) that(1)] advances_after [OF adv due(1)] due_runs_ge [OF adv, of r' t'] that(2) due
      by (fastforce simp: following_def)
    then have "fired ps (following t0 R) ts (fold (fire t0 R) ps m) (cron_id (pname p) r) = fold (fire t0 R) ps m (cron_id (pname p) r)"
      by (rule fired_other [OF assms(1)])
    then show ?thesis using fold_fire(2) [OF assms(1,2), of R t0 m] due by simp
  qed (use Cons.IH in simp)
qed simp

lemma ticks_ready:
  assumes "entries_ok ps" "cron_ready d m ps R"
  shows "\<exists>R'. cron_ready (cron_ticks redis_doc (\<lambda>_ _. no_faults) n ps ts d) (fired ps R ts m) ps R'"
  using assms(2)
proof (induction ts arbitrary: n d m R)
  case (Cons t ts)
  from Cons.IH [OF tick_ready [OF assms(1) Cons.prems]] show ?case by simp
qed auto

text \<open>Seeding stores an activation for the entries that have none.\<close>

lemma run_seed:
  assumes "has_type THash d cronKey"
  shows "snd (seed_entry redis_doc NoFault t0 p d) =
     (if cron_state d (pname p) = None then set_cron (pname p) (marshal_state (unixMilli (pe_next p t0))) d else d)"
  using assms by (simp add: seed_entry_def lcall_def redis_doc.simps cron_state_def set_cron_def)

definition seeded :: "dataset \<Rightarrow> int \<Rightarrow> (parsedEntry \<Rightarrow> int) \<Rightarrow> parsedEntry \<Rightarrow> bool" where
  "seeded d t0 R p \<longleftrightarrow> cron_state d (pname p) = Some (marshal_state (R p)) \<or> cron_state d (pname p) = None \<and> R p = unixMilli (pe_next p t0)"

lemma run_seeds:
  assumes "entries_ok ps" "refines d m" "has_type THash d cronKey" "\<forall>p\<in>set ps. seeded d t0 R p"
  shows "refines (seedNextRuns redis_doc (\<lambda>_. NoFault) i t0 ps d) m \<and> has_type THash (seedNextRuns redis_doc (\<lambda>_. NoFault) i t0 ps d) cronKey \<and>
     (\<forall>p\<in>set ps. cron_state (seedNextRuns redis_doc (\<lambda>_. NoFault) i t0 ps d) (pname p) = Some (marshal_state (R p))) \<and>
     (\<forall>n. n \<notin> pname ` set ps \<longrightarrow> cron_state (seedNextRuns redis_doc (\<lambda>_. NoFault) i t0 ps d) n = cron_state d n)"
  using assms
proof (induction ps arbitrary: d i)
  case (Cons p ps)
  let ?d = "snd (seed_entry redis_doc NoFault t0 p d)"
  have ok: "entries_ok ps" "pname p \<notin> pname ` set ps" using Cons.prems(1) by (simp_all add: entries_ok_Cons)
  have st: "cron_state ?d n = (if n = pname p then Some (marshal_state (R p)) else cron_state d n)" for n
    using Cons.prems(4) by (auto simp: run_seed [OF Cons.prems(3)] seeded_def)
  have "refines ?d m" "has_type THash ?d cronKey"
    using Cons.prems(2,3) refines_agree [OF Cons.prems(2)] by (simp_all add: run_seed)
  moreover have "\<forall>q\<in>set ps. seeded ?d t0 R q"
  proof
    fix q assume "q \<in> set ps"
    then have "pname q \<noteq> pname p" using ok(2) by (metis imageI)
    then show "seeded ?d t0 R q" using Cons.prems(4) st [of "pname q"] \<open>q \<in> set ps\<close> by (simp add: seeded_def)
  qed
  ultimately show ?case using Cons.IH [OF ok(1), of ?d "Suc i"] st ok(2) by auto
qed simp

context redis_server
begin

lemma sim_cron_tick: "sim view (cron_tick exec F i t ps) (cron_tick redis_doc F i t ps)"
proof (induction ps arbitrary: i)
  case (Cons p ps)
  show ?case
  proof (rule simI)
    fix s
    obtain o1 s1 where e: "tick_entry exec (F i) t p s = (o1, s1)" by fastforce
    then have d: "tick_entry redis_doc (F i) t p (view s) = (o1, view s1)"
      using sim_tick_entry unfolding sim_def by (metis map_prod_simp id_apply)
    obtain os s2 where e': "cron_tick exec F (Suc i) t ps s1 = (os, s2)" by fastforce
    then have "cron_tick redis_doc F (Suc i) t ps (view s1) = (os, view s2)"
      using Cons.IH [of "Suc i"] unfolding sim_def by (metis map_prod_simp id_apply)
    then show "map_prod id view (cron_tick exec F i t (p # ps) s) = cron_tick redis_doc F i t (p # ps) (view s)" using e d e' by simp
  qed
qed (simp add: sim_def)

lemma view_cron_Run: "view (cron_Run exec seedF F t0 ts ps s) = cron_Run redis_doc seedF F t0 ts ps (view s)"
proof -
  have "view (seedNextRuns exec seedF i t0 ps s) = seedNextRuns redis_doc seedF i t0 ps (view s)" for i s
    by (induction ps arbitrary: i s) (simp_all add: seed_entry_def sim_snd [OF sim_run [OF sim_lcall]])
  moreover have "view (cron_ticks exec F n ps ts s) = cron_ticks redis_doc F n ps ts (view s)" for n s
    by (induction ts arbitrary: n s) (simp_all add: sim_snd [OF sim_cron_tick])
  ultimately show ?thesis by (simp add: cron_Run_def)
qed

end

text \<open>
  C19: What a run of the scheduler enqueues. Whatever the entries, the times of the ticks and how long
  the scheduler was down before, each entry gets exactly one job per run of its schedule as
  \<open>due_runs\<close> lists them: for the activation stored in Redis (or the first one after the start), at the
  first tick that is not before it, and then for the first activation after that tick, so that
  activations missed meanwhile are not caught up with a burst of jobs. The runs stand for different activations, no other
  job is touched, and the entries do not interfere.
\<close>

theorem cron_run_follows_schedule:
  assumes "redis_server exec view" "refines (view s) m" "has_type THash (view s) cronKey" "entries_ok ps"
    and "\<forall>p\<in>set ps. seeded (view s) t0 R p" "\<forall>p\<in>set ps. \<forall>r \<ge> R p. m (cron_id (pname p) r) = None"
  shows "\<exists>m'. refines (view (cron_Run exec (\<lambda>_. NoFault) (\<lambda>_ _. no_faults) t0 ts ps s)) m' \<and>
    (\<forall>p\<in>set ps. sorted_wrt (<) (map fst (due_runs (pe_next p) (R p) ts)) \<and>
       (\<forall>(r, t)\<in>set (due_runs (pe_next p) (R p) ts). m' (cron_id (pname p) r) = Some (new_job (cron_job (pe_entry p) r t) ''''))) \<and>
    (\<forall>i. (\<forall>p\<in>set ps. \<forall>(r, t)\<in>set (due_runs (pe_next p) (R p) ts). i \<noteq> cron_id (pname p) r) \<longrightarrow> m' i = m i)"
proof -
  let ?d = "seedNextRuns redis_doc (\<lambda>_. NoFault) 0 t0 ps (view s)"
  have "cron_ready ?d m ps R" using run_seeds [OF assms(4,2,3,5)] assms(6) by (simp add: cron_ready_def)
  then have "refines (view (cron_Run exec (\<lambda>_. NoFault) (\<lambda>_ _. no_faults) t0 ts ps s)) (fired ps R ts m)"
    using ticks_ready [OF assms(4)] redis_server.view_cron_Run [OF assms(1)] by (auto simp: cron_Run_def cron_ready_def)
  moreover have "sorted_wrt (<) (map fst (due_runs (pe_next p) (R p) ts))" if "p \<in> set ps" for p
    using due_runs_sorted entries_okD [OF assms(4) that] by blast
  moreover have "fired ps R ts m i = m i" if "\<forall>p\<in>set ps. \<forall>(r, t)\<in>set (due_runs (pe_next p) (R p) ts). i \<noteq> cron_id (pname p) r" for i
    using that by (intro fired_other [OF assms(4)]) fast
  ultimately show ?thesis using fired_run [OF assms(4)] by (intro exI [of _ "fired ps R ts m"]) blast
qed

text \<open>
  A report every minute: started at second 1 with ticks at seconds 2, 61, 62, 300 and 301, the run of
  second 60 is enqueued at second 61 and the one of second 120 at second 300; those between are skipped.
\<close>

theorem cron_run_follows_schedule_witness:
  "\<exists>m'. refines (cron_Run redis_doc (\<lambda>_. NoFault) (\<lambda>_ _. no_faults) 1000000000 [2000000000, 61000000000, 62000000000, 300000000000, 301000000000]
        [report_entry] store0) m' \<and>
     m' (cron_id ''report'' 60000) = Some (new_job (cron_job (pe_entry report_entry) 60000 61000000000) '''') \<and>
     m' (cron_id ''report'' 120000) = Some (new_job (cron_job (pe_entry report_entry) 120000 300000000000) '''') \<and>
     m' (cron_id ''report'' 180000) = None"
proof -
  let ?R = "\<lambda>p :: parsedEntry. 60000 :: int" and ?ts = "[2000000000, 61000000000, 62000000000, 300000000000, 301000000000] :: int list"
  have sel: "pname report_entry = ''report''" "pe_next report_entry = minutely" by (simp_all add: report_entry_def)
  have runs: "due_runs minutely 60000 ?ts = [(60000, 61000000000), (120000, 300000000000)]" by (simp add: minutely_def unixMilli_def)
  have "entries_ok [report_entry]" using advances_minutely by (simp add: entries_ok_def report_entry_def)
  moreover have "\<forall>p\<in>set [report_entry]. seeded (id store0) 1000000000 ?R p"
    by (simp add: seeded_def sel minutely_def unixMilli_def cron_state_def hash_at_def store0_lookup)
  moreover have "has_type THash (id store0) cronKey" "refines (id store0) Map.empty"
    using refines_store0 by (simp_all add: has_type_def store0_lookup)
  ultimately show ?thesis
    using cron_run_follows_schedule [OF logical.redis_server_axioms, of store0 Map.empty "[report_entry]" 1000000000 ?R ?ts] by (auto simp: sel runs simp del: due_runs.simps)
qed

end
