(* ===== verification/Workflow.thy ===== *)
theory Workflow
  imports Frames
begin

text \<open>
  \<^verbatim>\<open>internal/workflow\<close>: chains, groups and chords. A workflow record is stored as JSON under its
  key; the encoding (\<open>encoding/json\<close>) is the argument \<open>J\<close>, and what the manager relies on, that a
  record it saved reads back, is the locale \<open>json_codec\<close>, which \<open>Workflow_Props\<close> interprets. Every call to Redis meets its own fault;
  \<open>F n\<close> is the fault of the n-th call of an operation, \<open>ids\<close> are the fresh identifiers.
\<close>

section \<open>Records\<close>

record TaskSpec =
  ts_kind :: string
  ts_payload :: string
  ts_queue :: string
  ts_priority :: int
  ts_maxRetries :: int

record WRecord =
  w_id :: string
  w_type :: string
  w_state :: string
  w_tasks :: "TaskSpec list"
  w_callback :: "TaskSpec option"
  w_current :: int
  w_total :: int
  w_done :: int
  w_queue :: string

definition TypeChain :: string where "TypeChain = ''chain''"
definition TypeGroup :: string where "TypeGroup = ''group''"
definition TypeChord :: string where "TypeChord = ''chord''"

record json =
  marshal :: "WRecord \<Rightarrow> string"
  unmarshal :: "string \<Rightarrow> string + WRecord"

text \<open>An error of the queue passed on, or wrapped once more.\<close>

datatype werr = WErr qerr | WWrap string qerr

definition gbind :: "('s \<Rightarrow> ('e + 'a) \<times> 's) \<Rightarrow> ('a \<Rightarrow> 's \<Rightarrow> ('e + 'b) \<times> 's) \<Rightarrow> 's \<Rightarrow> ('e + 'b) \<times> 's" where
  "gbind m f s = (case m s of (Inl e, s') \<Rightarrow> (Inl e, s') | (Inr a, s') \<Rightarrow> f a s')"

definition wrap_err :: "('e \<Rightarrow> 'f) \<Rightarrow> ('s \<Rightarrow> ('e + 'a) \<times> 's) \<Rightarrow> 's \<Rightarrow> ('f + 'a) \<times> 's" where
  "wrap_err w m s = (case m s of (Inl e, s') \<Rightarrow> (Inl (w e), s') | (Inr a, s') \<Rightarrow> (Inr a, s'))"

definition gret :: "'a \<Rightarrow> 's \<Rightarrow> ('e + 'a) \<times> 's" where
  "gret a s = (Inr a, s)"

definition gfail :: "'e \<Rightarrow> 's \<Rightarrow> ('e + 'a) \<times> 's" where
  "gfail e s = (Inl e, s)"

definition week_ms :: int where
  "week_ms = 7 * 24 * 3600 * 1000"

section \<open>The manager\<close>

definition saveRecord :: "'s server \<Rightarrow> json \<Rightarrow> fault \<Rightarrow> WRecord \<Rightarrow> 's \<Rightarrow> (werr + unit) \<times> 's" where
  "saveRecord exec J flt rec =
     go_result (run flt (lcall exec (SET_PX (workflowKey (w_id rec)) (marshal J rec) week_ms)))
       (\<lambda>e. WErr (Plain e)) (\<lambda>_. Inr ())"

definition loadRecord :: "'s server \<Rightarrow> json \<Rightarrow> fault \<Rightarrow> string \<Rightarrow> 's \<Rightarrow> (werr + WRecord option) \<times> 's" where
  "loadRecord exec J flt workflowID =
     go_result (run flt (lcall exec (GET (workflowKey workflowID))))
       (\<lambda>e. WErr (Wrapped ''winter: load workflow'' e))
       (\<lambda>r. case r of
          RBulk raw \<Rightarrow> (case unmarshal J raw of
             Inl e \<Rightarrow> Inl (WErr (Wrapped ''winter: unmarshal workflow'' e)) | Inr rec \<Rightarrow> Inr (Some rec))
        | _ \<Rightarrow> Inr None)"

definition task_job :: "string \<Rightarrow> int \<Rightarrow> TaskSpec \<Rightarrow> string \<Rightarrow> JobRecord" where
  "task_job uuid nowMs spec workflowID =
     \<lparr>ID = uuid, Kind = ts_kind spec, Queue = (if ts_queue spec = '''' then ''default'' else ts_queue spec),
      Priority = ts_priority spec, State = ''pending'', Payload = ts_payload spec, Attempt = 0,
      MaxRetries = (if ts_maxRetries spec = 0 then 3 else ts_maxRetries spec), CreatedAt = nowMs, ScheduledAt = 0,
      StartedAt = 0, CompletedAt = 0, LastError = '''', UniqueKey = '''', WorkflowID = workflowID\<rparr>"

definition enqueueTask :: "'s server \<Rightarrow> fault \<Rightarrow> string \<Rightarrow> int \<Rightarrow> TaskSpec \<Rightarrow> string \<Rightarrow> 's \<Rightarrow> (qerr + string) \<times> 's" where
  "enqueueTask exec flt uuid nowMs spec workflowID =
     gbind (Enqueue exec flt (task_job uuid nowMs spec workflowID) '''' 0) (\<lambda>_. gret uuid)"

definition default_queue :: "string \<Rightarrow> TaskSpec \<Rightarrow> TaskSpec" where
  "default_queue q t = (if ts_queue t = '''' then t\<lparr>ts_queue := q\<rparr> else t)"

definition CreateChain :: "'s server \<Rightarrow> json \<Rightarrow> (nat \<Rightarrow> fault) \<Rightarrow> (nat \<Rightarrow> string) \<Rightarrow> int \<Rightarrow> TaskSpec list \<Rightarrow> string \<Rightarrow>
    's \<Rightarrow> (werr + string) \<times> 's" where
  "CreateChain exec J F ids nowMs tasks queueName =
     (if tasks = [] then gfail (WErr (Plain ''winter: chain requires at least one task''))
      else let tasks' = map (default_queue queueName) tasks;
               rec = \<lparr>w_id = ids 0, w_type = TypeChain, w_state = ''running'', w_tasks = tasks', w_callback = None,
                 w_current = 0, w_total = int (length tasks'), w_done = 0, w_queue = queueName\<rparr>
           in gbind (saveRecord exec J (F 0) rec) (\<lambda>_.
              gbind (wrap_err (WWrap ''winter: chain enqueue first task'') (enqueueTask exec (F 1) (ids 1) nowMs (hd tasks') (ids 0))) (\<lambda>_.
              gret (ids 0))))"

text \<open>\<open>advanceChainScript\<close> and \<open>advanceGroupScript\<close> are the same script.\<close>

definition advanceScript :: "'s server \<Rightarrow> key \<Rightarrow> ('s, reply) lua" where
  "advanceScript exec counterK = call exec (INCR counterK) ret"

definition incr_counter :: "'s server \<Rightarrow> string \<Rightarrow> fault \<Rightarrow> string \<Rightarrow> 's \<Rightarrow> (werr + int) \<times> 's" where
  "incr_counter exec what flt workflowID =
     go_result (run flt (advanceScript exec (counterKey workflowID))) (\<lambda>e. WErr (Wrapped what e))
       (\<lambda>r. case r of RInt n \<Rightarrow> Inr n | _ \<Rightarrow> Inl (WErr (Wrapped what unexpected)))"

definition advanceChain :: "'s server \<Rightarrow> json \<Rightarrow> (nat \<Rightarrow> fault) \<Rightarrow> string \<Rightarrow> int \<Rightarrow> WRecord \<Rightarrow> 's \<Rightarrow> (werr + unit) \<times> 's" where
  "advanceChain exec J F uuid nowMs rec =
     gbind (incr_counter exec ''winter: chain advance'' (F 1) (w_id rec)) (\<lambda>current.
       let rec' = rec\<lparr>w_current := current\<rparr>
       in if w_current rec' \<ge> w_total rec' then saveRecord exec J (F 2) (rec'\<lparr>w_state := ''completed''\<rparr>)
          else gbind (saveRecord exec J (F 2) rec') (\<lambda>_.
               gbind (wrap_err (WWrap (''winter: chain enqueue step '' @ itoa (w_current rec')))
                 (enqueueTask exec (F 3) uuid nowMs (w_tasks rec' ! nat (w_current rec')) (w_id rec'))) (\<lambda>_.
               gret ())))"

fun enqueue_group :: "'s server \<Rightarrow> (nat \<Rightarrow> fault) \<Rightarrow> (nat \<Rightarrow> string) \<Rightarrow> int \<Rightarrow> string \<Rightarrow> nat \<Rightarrow> TaskSpec list \<Rightarrow>
    's \<Rightarrow> (werr + unit) \<times> 's" where
  "enqueue_group exec F ids nowMs wid i [] = gret ()"
| "enqueue_group exec F ids nowMs wid i (spec # specs) =
     gbind (wrap_err (WWrap (''winter: group enqueue task '' @ itoa (int i)))
       (enqueueTask exec (F (Suc i)) (ids (Suc i)) nowMs spec wid)) (\<lambda>_.
     enqueue_group exec F ids nowMs wid (Suc i) specs)"

definition CreateGroup :: "'s server \<Rightarrow> json \<Rightarrow> (nat \<Rightarrow> fault) \<Rightarrow> (nat \<Rightarrow> string) \<Rightarrow> int \<Rightarrow> TaskSpec list \<Rightarrow> string \<Rightarrow>
    's \<Rightarrow> (werr + string) \<times> 's" where
  "CreateGroup exec J F ids nowMs tasks queueName =
     (if tasks = [] then gfail (WErr (Plain ''winter: group requires at least one task''))
      else let tasks' = map (default_queue queueName) tasks;
               rec = \<lparr>w_id = ids 0, w_type = TypeGroup, w_state = ''running'', w_tasks = tasks', w_callback = None,
                 w_current = 0, w_total = int (length tasks'), w_done = 0, w_queue = queueName\<rparr>
           in gbind (saveRecord exec J (F 0) rec) (\<lambda>_.
              gbind (enqueue_group exec F ids nowMs (ids 0) 0 tasks') (\<lambda>_.
              gret (ids 0))))"

definition advanceGroup :: "'s server \<Rightarrow> json \<Rightarrow> (nat \<Rightarrow> fault) \<Rightarrow> WRecord \<Rightarrow> 's \<Rightarrow> (werr + unit) \<times> 's" where
  "advanceGroup exec J F rec =
     gbind (incr_counter exec ''winter: group advance'' (F 1) (w_id rec)) (\<lambda>done.
       let rec' = rec\<lparr>w_done := done\<rparr>
       in saveRecord exec J (F 2) (if w_done rec' \<ge> w_total rec' then rec'\<lparr>w_state := ''completed''\<rparr> else rec'))"

fun enqueue_headers :: "'s server \<Rightarrow> (nat \<Rightarrow> fault) \<Rightarrow> (nat \<Rightarrow> string) \<Rightarrow> int \<Rightarrow> string \<Rightarrow> nat \<Rightarrow> TaskSpec list \<Rightarrow>
    's \<Rightarrow> (werr + unit) \<times> 's" where
  "enqueue_headers exec F ids nowMs wid i [] = gret ()"
| "enqueue_headers exec F ids nowMs wid i (spec # specs) =
     gbind (wrap_err (WWrap (''winter: chord enqueue header '' @ itoa (int i)))
       (enqueueTask exec (F (2 * i + 1)) (ids (Suc i)) nowMs spec wid)) (\<lambda>jobID.
     gbind (go_result (run (F (2 * i + 2)) (lcall exec (SADD (depsKey wid) jobID)))
       (\<lambda>e. WErr (Wrapped ''winter: chord add dep'' e)) (\<lambda>_. Inr ())) (\<lambda>_.
     enqueue_headers exec F ids nowMs wid (Suc i) specs))"

definition CreateChord :: "'s server \<Rightarrow> json \<Rightarrow> (nat \<Rightarrow> fault) \<Rightarrow> (nat \<Rightarrow> string) \<Rightarrow> int \<Rightarrow> TaskSpec list \<Rightarrow> TaskSpec \<Rightarrow>
    string \<Rightarrow> 's \<Rightarrow> (werr + string) \<times> 's" where
  "CreateChord exec J F ids nowMs headers callback queueName =
     (if headers = [] then gfail (WErr (Plain ''winter: chord requires at least one header task''))
      else let headers' = map (default_queue queueName) headers;
               rec = \<lparr>w_id = ids 0, w_type = TypeChord, w_state = ''running'', w_tasks = headers',
                 w_callback = Some (default_queue queueName callback),
                 w_current = 0, w_total = int (length headers'), w_done = 0, w_queue = queueName\<rparr>
           in gbind (saveRecord exec J (F 0) rec) (\<lambda>_.
              gbind (enqueue_headers exec F ids nowMs (ids 0) 0 headers') (\<lambda>_.
              gret (ids 0))))"

definition advanceChordScript :: "'s server \<Rightarrow> key \<Rightarrow> string \<Rightarrow> ('s, reply) lua" where
  "advanceChordScript exec depsK jobID =
     call exec (SREM depsK jobID) (\<lambda>_. call exec (SCARD depsK) ret)"

definition advanceChord :: "'s server \<Rightarrow> json \<Rightarrow> (nat \<Rightarrow> fault) \<Rightarrow> string \<Rightarrow> int \<Rightarrow> WRecord \<Rightarrow> string \<Rightarrow>
    's \<Rightarrow> (werr + unit) \<times> 's" where
  "advanceChord exec J F uuid nowMs rec jobID =
     gbind (go_result (run (F 1) (advanceChordScript exec (depsKey (w_id rec)) jobID))
         (\<lambda>e. WErr (Wrapped ''winter: chord advance'' e))
         (\<lambda>r. case r of RInt n \<Rightarrow> Inr n | _ \<Rightarrow> Inl (WErr (Wrapped ''winter: chord advance'' unexpected)))) (\<lambda>remaining.
       let rec' = rec\<lparr>w_done := w_total rec - remaining\<rparr>
       in if remaining = 0
          then gbind (saveRecord exec J (F 2) (rec'\<lparr>w_state := ''completed''\<rparr>)) (\<lambda>_.
                 case w_callback rec of
                   None \<Rightarrow> gret ()
                 | Some cb \<Rightarrow>
                     gbind (wrap_err (WWrap ''winter: chord enqueue callback'')
                       (enqueueTask exec (F 3) uuid nowMs cb (w_id rec))) (\<lambda>_. gret ()))
          else saveRecord exec J (F 2) rec')"

definition OnJobCompleted :: "'s server \<Rightarrow> json \<Rightarrow> (nat \<Rightarrow> fault) \<Rightarrow> string \<Rightarrow> int \<Rightarrow> string \<Rightarrow> string \<Rightarrow>
    's \<Rightarrow> (werr + unit) \<times> 's" where
  "OnJobCompleted exec J F uuid nowMs workflowID jobID =
     gbind (loadRecord exec J (F 0) workflowID) (\<lambda>r.
       case r of
         None \<Rightarrow> gret ()
       | Some rec \<Rightarrow>
           if w_state rec = ''completed'' \<or> w_state rec = ''failed'' then gret ()
           else if w_type rec = TypeChain then advanceChain exec J F uuid nowMs rec
           else if w_type rec = TypeGroup then advanceGroup exec J F rec
           else if w_type rec = TypeChord then advanceChord exec J F uuid nowMs rec jobID
           else gfail (WErr (Wrapped ''winter: unknown workflow type'' (w_type rec))))"

definition OnJobFailed :: "'s server \<Rightarrow> json \<Rightarrow> (nat \<Rightarrow> fault) \<Rightarrow> string \<Rightarrow> 's \<Rightarrow> (werr + unit) \<times> 's" where
  "OnJobFailed exec J F workflowID =
     gbind (loadRecord exec J (F 0) workflowID) (\<lambda>r.
       case r of
         None \<Rightarrow> gret ()
       | Some rec \<Rightarrow> saveRecord exec J (F 1) (rec\<lparr>w_state := ''failed''\<rparr>))"

end
