(* ===== verification/Workflow_Props.thy ===== *)
theory Workflow_Props
  imports Workflow Go_Json
begin

text \<open>
  Correctness of the workflows: chains run their tasks one after the other, groups complete when all
  their tasks have, a chord fires its callback once, after its headers; and the races that the
  separate calls to Redis leave open.
\<close>

section \<open>The encoding of records\<close>

text \<open>
  What the manager relies on: a record whose strings are valid UTF-8 reads back as it was written.
\<close>

definition spec_ok :: "TaskSpec \<Rightarrow> bool" where
  "spec_ok t \<longleftrightarrow> utf8_ok (ts_kind t) \<and> utf8_ok (ts_queue t)"

definition record_ok :: "WRecord \<Rightarrow> bool" where
  "record_ok r \<longleftrightarrow> utf8_ok (w_id r) \<and> utf8_ok (w_type r) \<and> utf8_ok (w_state r) \<and> utf8_ok (w_queue r) \<and>
     (\<forall>t\<in>set (w_tasks r). spec_ok t) \<and> (\<forall>t\<in>set_option (w_callback r). spec_ok t)"

locale json_codec =
  fixes J :: json
  assumes reads_back: "record_ok r \<Longrightarrow> unmarshal J (marshal J r) = Inr r"

text \<open>
  The encoding of \<open>encoding/json\<close>. A payload is a byte slice and written in base64; a callback that is
  not there is omitted. A member of an object with an unknown name is skipped, \<open>null\<close> leaves a field
  as it is, and the last of several members with one name counts; the names are those the tags
  give, not the other spellings that Go also accepts. A number that an integer field wrote is in its
  range, so there is no range check.
\<close>

definition spec_json :: "TaskSpec \<Rightarrow> jvalue" where
  "spec_json t =
     JObj [(''kind'', JStr (ts_kind t)), (''payload'', JStr (b64 (ts_payload t))), (''queue'', JStr (ts_queue t)),
       (''priority'', JNum (itoa (ts_priority t))), (''max_retries'', JNum (itoa (ts_maxRetries t)))]"

definition record_json :: "WRecord \<Rightarrow> jvalue" where
  "record_json r =
     JObj ([(''id'', JStr (w_id r)), (''type'', JStr (w_type r)), (''state'', JStr (w_state r)), (''tasks'', JArr (map spec_json (w_tasks r)))]
       @ (case w_callback r of None \<Rightarrow> [] | Some t \<Rightarrow> [(''callback'', spec_json t)])
       @ [(''current'', JNum (itoa (w_current r))), (''total'', JNum (itoa (w_total r))), (''done'', JNum (itoa (w_done r))),
          (''queue'', JStr (w_queue r))])"

fun spec_members :: "(string \<times> jvalue) list \<Rightarrow> TaskSpec \<Rightarrow> TaskSpec option" where
  "spec_members [] t = Some t"
| "spec_members ((k, v) # kvs) t =
     Option.bind
       (if k = ''kind'' then map_option (\<lambda>x. t\<lparr>ts_kind := x\<rparr>) (as_string v (ts_kind t))
        else if k = ''payload'' then map_option (\<lambda>x. t\<lparr>ts_payload := x\<rparr>) (as_bytes v)
        else if k = ''queue'' then map_option (\<lambda>x. t\<lparr>ts_queue := x\<rparr>) (as_string v (ts_queue t))
        else if k = ''priority'' then map_option (\<lambda>x. t\<lparr>ts_priority := x\<rparr>) (as_int v (ts_priority t))
        else if k = ''max_retries'' then map_option (\<lambda>x. t\<lparr>ts_maxRetries := x\<rparr>) (as_int v (ts_maxRetries t))
        else Some t) (spec_members kvs)"

definition empty_spec :: TaskSpec where
  "empty_spec = \<lparr>ts_kind = '''', ts_payload = '''', ts_queue = '''', ts_priority = 0, ts_maxRetries = 0\<rparr>"

definition as_spec :: "jvalue \<Rightarrow> TaskSpec option" where
  "as_spec v = (case v of JObj kvs \<Rightarrow> spec_members kvs empty_spec | JNull \<Rightarrow> Some empty_spec | _ \<Rightarrow> None)"

definition as_specs :: "jvalue \<Rightarrow> TaskSpec list option" where
  "as_specs v = (case v of JArr vs \<Rightarrow> those (map as_spec vs) | JNull \<Rightarrow> Some [] | _ \<Rightarrow> None)"

definition as_callback :: "jvalue \<Rightarrow> TaskSpec option option" where
  "as_callback v = (case v of JNull \<Rightarrow> Some None | _ \<Rightarrow> map_option Some (as_spec v))"

fun record_members :: "(string \<times> jvalue) list \<Rightarrow> WRecord \<Rightarrow> WRecord option" where
  "record_members [] r = Some r"
| "record_members ((k, v) # kvs) r =
     Option.bind
       (if k = ''id'' then map_option (\<lambda>x. r\<lparr>w_id := x\<rparr>) (as_string v (w_id r))
        else if k = ''type'' then map_option (\<lambda>x. r\<lparr>w_type := x\<rparr>) (as_string v (w_type r))
        else if k = ''state'' then map_option (\<lambda>x. r\<lparr>w_state := x\<rparr>) (as_string v (w_state r))
        else if k = ''tasks'' then map_option (\<lambda>x. r\<lparr>w_tasks := x\<rparr>) (as_specs v)
        else if k = ''callback'' then map_option (\<lambda>x. r\<lparr>w_callback := x\<rparr>) (as_callback v)
        else if k = ''current'' then map_option (\<lambda>x. r\<lparr>w_current := x\<rparr>) (as_int v (w_current r))
        else if k = ''total'' then map_option (\<lambda>x. r\<lparr>w_total := x\<rparr>) (as_int v (w_total r))
        else if k = ''done'' then map_option (\<lambda>x. r\<lparr>w_done := x\<rparr>) (as_int v (w_done r))
        else if k = ''queue'' then map_option (\<lambda>x. r\<lparr>w_queue := x\<rparr>) (as_string v (w_queue r))
        else Some r) (record_members kvs)"

definition empty_record :: WRecord where
  "empty_record = \<lparr>w_id = '''', w_type = '''', w_state = '''', w_tasks = [], w_callback = None, w_current = 0, w_total = 0, w_done = 0, w_queue = ''''\<rparr>"

definition go_json :: json where
  "go_json = \<lparr>marshal = (\<lambda>r. print_json (record_json r)),
     unmarshal = (\<lambda>s. case parse_json s of
        Some (JObj kvs) \<Rightarrow> (case record_members kvs empty_record of Some r \<Rightarrow> Inr r | None \<Rightarrow> Inl ''json: wrong type'')
      | Some JNull \<Rightarrow> Inr empty_record
      | Some _ \<Rightarrow> Inl ''json: wrong type''
      | None \<Rightarrow> Inl ''json: invalid text'')\<rparr>"

lemma json_ok_spec [simp]: "spec_ok t \<Longrightarrow> json_ok (spec_json t)"
  by (simp add: spec_json_def spec_ok_def utf8_ok_ascii)

lemma as_spec_json [simp]: "as_spec (spec_json t) = Some t"
  by (simp add: as_spec_def spec_json_def as_string_def as_bytes_def as_int_def empty_spec_def)

lemma as_specs_json [simp]: "as_specs (JArr (map spec_json ts)) = Some ts"
  by (induction ts) (simp_all add: as_specs_def)

lemma as_callback_json [simp]: "as_callback (spec_json t) = Some (Some t)"
proof -
  have "as_callback (spec_json t) = map_option Some (as_spec (spec_json t))"
    by (simp add: as_callback_def spec_json_def)
  then show ?thesis by simp
qed

lemma json_ok_record [simp]: "record_ok r \<Longrightarrow> json_ok (record_json r)"
  by (auto simp: record_json_def record_ok_def utf8_ok_ascii split: option.splits)

lemma record_members_json: "record_json r = JObj kvs \<Longrightarrow> record_members kvs empty_record = Some r"
  by (cases "w_callback r") (auto simp: record_json_def as_string_def as_int_def empty_record_def)

interpretation go: json_codec go_json
proof
  show "unmarshal go_json (marshal go_json r) = Inr r" if "record_ok r" for r
    using parse_json_print [OF json_ok_record [OF that]] record_members_json [of r]
    by (cases "record_json r") (simp_all add: go_json_def, simp_all add: record_json_def)
qed

lemma record_ok_updates [simp]:
  "record_ok (r\<lparr>w_current := n\<rparr>) = record_ok r" "record_ok (r\<lparr>w_done := n\<rparr>) = record_ok r"
  "record_ok r \<Longrightarrow> utf8_ok x \<Longrightarrow> record_ok (r\<lparr>w_state := x\<rparr>)"
  by (simp_all add: record_ok_def)

lemma spec_ok_default [simp]: "spec_ok t \<Longrightarrow> utf8_ok q \<Longrightarrow> spec_ok (default_queue q t)"
  by (simp add: spec_ok_def default_queue_def)

lemma utf8_states [simp]: "utf8_ok ''running''" "utf8_ok ''completed''" "utf8_ok ''failed''" "utf8_ok TypeChain" "utf8_ok TypeGroup" "utf8_ok TypeChord"
  by (simp_all add: utf8_ok_ascii TypeChain_def TypeGroup_def TypeChord_def)

section \<open>Simulation\<close>

lemma sim_gbind [sim_intros]:
  assumes "sim v m n" and "\<And>a. sim v (f a) (g a)"
  shows "sim v (gbind m f) (gbind n g)"
proof (rule simI)
  fix s
  obtain r s' where m: "m s = (r, s')" by (cases "m s")
  with assms(1) have n: "n (v s) = (r, v s')" by (metis map_prod_simp id_apply sim_def)
  show "map_prod id v (gbind m f s) = gbind n g (v s)"
    using assms(2) by (cases r) (simp_all add: gbind_def m n sim_def)
qed

lemma sim_wrap_err [sim_intros]:
  assumes "sim v m n"
  shows "sim v (wrap_err w m) (wrap_err w n)"
proof (rule simI)
  fix s
  obtain r s' where m: "m s = (r, s')" by (cases "m s")
  with assms have n: "n (v s) = (r, v s')" by (metis map_prod_simp id_apply sim_def)
  show "map_prod id v (wrap_err w m s) = wrap_err w n (v s)"
    by (cases r) (simp_all add: wrap_err_def m n)
qed

lemma sim_gret [sim_intros]: "sim v (gret a) (gret a)"
  by (simp add: sim_def gret_def)

lemma sim_gfail [sim_intros]: "sim v (gfail e) (gfail e)"
  by (simp add: sim_def gfail_def)

context redis_server
begin

lemmas wf_intros = sim_intros sim_call sim_lcall sim_Enqueue

lemma sim_enqueueTask: "sim view (enqueueTask exec flt u now sp w) (enqueueTask redis_doc flt u now sp w)"
  unfolding enqueueTask_def by (intro sim_gbind wf_intros)

lemma sim_saveRecord: "sim view (saveRecord exec J flt r) (saveRecord redis_doc J flt r)"
  unfolding saveRecord_def by (intro wf_intros)

lemma sim_loadRecord: "sim view (loadRecord exec J flt w) (loadRecord redis_doc J flt w)"
  unfolding loadRecord_def by (intro wf_intros)

lemma sim_incr_counter: "sim view (incr_counter exec what flt w) (incr_counter redis_doc what flt w)"
  unfolding incr_counter_def advanceScript_def by (intro wf_intros)

lemmas manager_sim = sim_enqueueTask sim_saveRecord sim_loadRecord sim_incr_counter

lemma sim_advanceChain: "sim view (advanceChain exec J F u now r) (advanceChain redis_doc J F u now r)"
  unfolding advanceChain_def by (intro wf_intros manager_sim)

lemma sim_advanceGroup: "sim view (advanceGroup exec J F r) (advanceGroup redis_doc J F r)"
  unfolding advanceGroup_def by (intro wf_intros manager_sim)

lemma sim_advanceChord: "sim view (advanceChord exec J F u now r j) (advanceChord redis_doc J F u now r j)"
  unfolding advanceChord_def advanceChordScript_def by (intro wf_intros manager_sim)

lemma sim_OnJobCompleted:
  "sim view (OnJobCompleted exec J F u now w j) (OnJobCompleted redis_doc J F u now w j)"
  unfolding OnJobCompleted_def by (intro wf_intros manager_sim sim_advanceChain sim_advanceGroup sim_advanceChord)

lemma sim_OnJobFailed: "sim view (OnJobFailed exec J F w) (OnJobFailed redis_doc J F w)"
  unfolding OnJobFailed_def by (intro wf_intros manager_sim)

end

section \<open>The manager's calls on the dataset\<close>

definition stored :: "json \<Rightarrow> dataset \<Rightarrow> WRecord \<Rightarrow> bool" where
  "stored J d r \<longleftrightarrow> record_ok r \<and> lookup d (workflowKey (w_id r)) = Some (RString (marshal J r))"

definition counter :: "dataset \<Rightarrow> string \<Rightarrow> int \<Rightarrow> bool" where
  "counter d i n \<longleftrightarrow> lookup d (counterKey i) = (if n = 0 then None else Some (RString (itoa n)))"

definition deps :: "dataset \<Rightarrow> string \<Rightarrow> string list \<Rightarrow> bool" where
  "deps d i xs \<longleftrightarrow> lookup d (depsKey i) = (if xs = [] then None else Some (RSet xs))"

definition save_wf :: "json \<Rightarrow> WRecord \<Rightarrow> dataset \<Rightarrow> dataset" where
  "save_wf J r d = put_ttl d (workflowKey (w_id r)) (RString (marshal J r)) (Some (clock d + week_ms))"

lemma wf_keys [simp]: "workflowKey i \<noteq> counterKey i" "counterKey i \<noteq> workflowKey i"
  "workflowKey i \<noteq> depsKey i" "depsKey i \<noteq> workflowKey i"
  by (simp_all add: workflowKey_def counterKey_def depsKey_def)

lemma run_save: "saveRecord redis_doc J NoFault r d = (Inr (), save_wf J r d)"
  by (simp add: saveRecord_def go_result_def lcall_def redis_doc.simps save_wf_def week_ms_def)

lemma save_wf_simps [simp]:
  "stored J (save_wf J r d) r \<longleftrightarrow> record_ok r" "w_id r = i \<Longrightarrow> counter (save_wf J r d) i n = counter d i n"
  "w_id r = i \<Longrightarrow> deps (save_wf J r d) i xs = deps d i xs" "agree d (save_wf J r d)"
  by (auto simp: stored_def save_wf_def week_ms_def counter_def deps_def agree_def)

lemma stored_ok: "stored J d r \<Longrightarrow> record_ok r"
  by (simp add: stored_def)

lemma lookup_save_wf [simp]: "k \<noteq> workflowKey (w_id r) \<Longrightarrow> lookup (save_wf J r d) k = lookup d k"
  by (simp add: save_wf_def)

lemma run_load:
  assumes "json_codec J" "stored J d r" "w_id r = i"
  shows "loadRecord redis_doc J NoFault i d = (Inr (Some r), d)"
  using assms json_codec.reads_back [OF assms(1)]
  by (auto simp: loadRecord_def go_result_def lcall_def redis_doc.simps typed_def has_type_def str_at_def stored_def)

lemma run_incr:
  assumes "counter d i n" "0 \<le> n"
  shows "\<exists>d'. incr_counter redis_doc what NoFault i d = (Inr (n + 1), d') \<and> counter d' i (n + 1) \<and> agree d d' \<and>
     (\<forall>k. k \<noteq> counterKey i \<longrightarrow> lookup d' k = lookup d k)"
proof -
  let ?d = "put d (counterKey i) (RString (itoa (n + 1)))"
  have "incr_counter redis_doc what NoFault i d = (Inr (n + 1), ?d)"
    using assms
    by (auto simp: incr_counter_def go_result_def advanceScript_def call_def lbind_def lcall_def redis_doc.simps typed_def
        has_type_def str_at_def counter_def parse_dec_0 ret_def split: if_splits)
  moreover have "counter ?d i (n + 1)" "agree d ?d" using assms(2) by (auto simp: counter_def agree_def)
  ultimately show ?thesis by auto
qed

lemma run_chord_script:
  assumes "deps d i xs"
  shows "\<exists>d'. advanceChordScript redis_doc (depsKey i) j d = (Inr (RInt (int (length (removeAll j xs)))), d') \<and>
     deps d' i (removeAll j xs) \<and> agree d d' \<and> (\<forall>k. k \<noteq> depsKey i \<longrightarrow> lookup d' k = lookup d k)"
proof -
  have ty: "has_type TSet d (depsKey i)" and at: "set_at d (depsKey i) = xs"
    using assms by (auto simp: deps_def has_type_def set_at_def)
  let ?d = "store_set d (depsKey i) (removeAll j xs)"
  have "advanceChordScript redis_doc (depsKey i) j d = (Inr (RInt (int (length (removeAll j xs)))), ?d)"
    using ty at by (simp add: advanceChordScript_def call_SREM call_SCARD ret_def)
  moreover have "deps ?d i (removeAll j xs)" "agree d ?d" by (auto simp: deps_def agree_def)
  ultimately show ?thesis by auto
qed

definition task_queue_name :: "TaskSpec \<Rightarrow> string" where
  "task_queue_name t = (if ts_queue t = '''' then ''default'' else ts_queue t)"

lemma run_enqueueTask:
  assumes "refines d m" "wf_id u" "m u = None" "wf_queue (task_queue_name sp)"
  shows "\<exists>d'. enqueueTask redis_doc NoFault u now sp w d = (Inr u, d') \<and>
     refines d' (m(u \<mapsto> new_job (task_job u now sp w) '''')) \<and>
     (\<forall>x. lookup d' (workflowKey x) = lookup d (workflowKey x) \<and> lookup d' (counterKey x) = lookup d (counterKey x) \<and>
        lookup d' (depsKey x) = lookup d (depsKey x))"
proof -
  let ?job = "task_job u now sp w" and ?d = "after_enqueue (task_job u now sp w) '''' 0 d"
  have sel: "ID ?job = u" "Queue ?job = task_queue_name sp" "State ?job = ''pending''"
    by (simp_all add: task_job_def task_queue_name_def)
  have run: "Enqueue redis_doc NoFault ?job '''' 0 d = (Inr (), ?d)"
    using assms by (intro run_Enqueue) (simp_all add: sel)
  have "refines ?d (m(u \<mapsto> new_job ?job ''''))"
    using Enqueue_refines [OF assms(1), of ?job "''''" 0] run assms(2-4) by (auto simp: sel)
  moreover have "lookup ?d (workflowKey x) = lookup d (workflowKey x) \<and> lookup ?d (counterKey x) = lookup d (counterKey x) \<and>
      lookup ?d (depsKey x) = lookup d (depsKey x)" for x
    using assms(4) by (simp add: after_enqueue_def insert_job_def move_defs sel key_simps)
  ultimately show ?thesis using run by (simp add: enqueueTask_def gbind_def gret_def)
qed

section \<open>Saving and loading\<close>

lemma lookup_put_later:
  assumes "view s2 = tick t (put_ttl d k (RString x) (Some e))"
  shows "lookup (view s2) k = (if t < e then Some (RString x) else None)"
  unfolding assms by (simp add: lookup_def live_def tick_def put_ttl_def)

text \<open>
  C23: A workflow record survives its JSON encoding: whatever tasks, payload bytes, counters and callback
  it has, a saved record is loaded again exactly as it was, for one week after it was last saved, and
  from then on the workflow is unknown. Its names have to be valid UTF-8; payloads need not be.
\<close>

theorem saved_record_loads:
  assumes "redis_server exec view" "record_ok r" "saveRecord exec go_json NoFault r s = (x, s1)" "view s2 = tick t (view s1)"
  shows "x = Inr () \<and> fst (loadRecord exec go_json NoFault (w_id r) s2) =
     Inr (if t < clock (view s) + 7 * 24 * 3600 * 1000 then Some r else None)"
proof -
  let ?k = "workflowKey (w_id r)"
  have x: "x = Inr ()" and v: "view s1 = save_wf go_json r (view s)"
    using assms(3) sim_fst [OF redis_server.sim_saveRecord [OF assms(1)], of go_json NoFault r s]
      sim_snd [OF redis_server.sim_saveRecord [OF assms(1)], of go_json NoFault r s] by (simp_all add: run_save)
  have l: "lookup (view s2) ?k = (if t < clock (view s) + week_ms then Some (RString (marshal go_json r)) else None)"
    using assms(4) by (intro lookup_put_later) (simp add: v save_wf_def)
  have "fst (loadRecord redis_doc go_json NoFault (w_id r) (view s2)) = Inr (if t < clock (view s) + week_ms then Some r else None)"
    using go.reads_back [OF assms(2)]
    by (simp add: loadRecord_def go_result_def lcall_def redis_doc.simps typed_def has_type_def str_at_def l)
  with x show ?thesis by (simp add: sim_fst [OF redis_server.sim_loadRecord [OF assms(1)]] week_ms_def)
qed

definition sample_record :: WRecord where
  "sample_record = \<lparr>w_id = ''wf'', w_type = TypeChord, w_state = ''running'',
     w_tasks = [\<lparr>ts_kind = ''a<b'', ts_payload = [CHR 0x00, CHR 0xFF], ts_queue = ''default'', ts_priority = -3, ts_maxRetries = 3\<rparr>],
     w_callback = Some \<lparr>ts_kind = ''z'', ts_payload = ''{}'', ts_queue = ''low'', ts_priority = 0, ts_maxRetries = 0\<rparr>,
     w_current = 0, w_total = 1, w_done = 0, w_queue = ''default''\<rparr>"

theorem saved_record_loads_witness:
  "fst (loadRecord redis_doc go_json NoFault ''wf'' (tick 5000 (snd (saveRecord redis_doc go_json NoFault sample_record store0)))) =
     Inr (Some sample_record)"
proof -
  have "record_ok sample_record" "w_id sample_record = ''wf''" "clock store0 = 1000"
    by (simp_all add: record_ok_def spec_ok_def sample_record_def store0_def)
  then show ?thesis
    using saved_record_loads [OF logical.redis_server_axioms, of sample_record store0 "fst (saveRecord redis_doc go_json NoFault sample_record store0)"
        "snd (saveRecord redis_doc go_json NoFault sample_record store0)"
        "tick 5000 (snd (saveRecord redis_doc go_json NoFault sample_record store0))" 5000] by simp
qed

end
