(* ===== verification/Workflow_Chain.thy ===== *)
theory Workflow_Chain
  imports Workflow_Props
begin

text \<open>Chains: every completed step enqueues the next task, in order, and the last one completes the chain.\<close>

abbreviation calm :: "nat \<Rightarrow> fault" where
  "calm \<equiv> \<lambda>_. NoFault"

definition chain_at :: "json \<Rightarrow> dataset \<Rightarrow> WRecord \<Rightarrow> nat \<Rightarrow> bool" where
  "chain_at J d r k \<longleftrightarrow> stored J d r \<and> counter d (w_id r) (int k) \<and> w_type r = TypeChain \<and> w_state r = ''running'' \<and>
     w_total r = int (length (w_tasks r)) \<and> k < length (w_tasks r) \<and> w_current r = int k"

lemma type_names [simp]: "TypeChain \<noteq> TypeGroup" "TypeGroup \<noteq> TypeChain" "TypeChain \<noteq> TypeChord" "TypeChord \<noteq> TypeChain"
  "TypeGroup \<noteq> TypeChord" "TypeChord \<noteq> TypeGroup"
  by (simp_all add: TypeChain_def TypeGroup_def TypeChord_def)

lemma run_completed:
  assumes "json_codec J" "stored J d r" "w_state r \<noteq> ''completed''" "w_state r \<noteq> ''failed''"
  shows "OnJobCompleted redis_doc J calm u now (w_id r) j d =
     (if w_type r = TypeChain then advanceChain redis_doc J calm u now r
      else if w_type r = TypeGroup then advanceGroup redis_doc J calm r
      else if w_type r = TypeChord then advanceChord redis_doc J calm u now r j
      else gfail (WErr (Wrapped ''winter: unknown workflow type'' (w_type r)))) d"
  using run_load [OF assms(1,2) refl] assms(3,4) by (simp add: OnJobCompleted_def gbind_def)

lemma run_finished:
  assumes "json_codec J" "stored J d r" "w_state r = ''completed'' \<or> w_state r = ''failed''"
  shows "OnJobCompleted redis_doc J calm u now (w_id r) j d = (Inr (), d)"
  using run_load [OF assms(1,2) refl] assms(3) by (auto simp: OnJobCompleted_def gbind_def gret_def)

lemma run_chain_step:
  assumes "json_codec J" "refines d m" "chain_at J d r k" "wf_id u" "m u = None"
    and "Suc k < length (w_tasks r) \<Longrightarrow> wf_queue (task_queue_name (w_tasks r ! Suc k))"
  shows "\<exists>d'. OnJobCompleted redis_doc J calm u now (w_id r) j d = (Inr (), d') \<and>
     (if Suc k < length (w_tasks r)
      then chain_at J d' (r\<lparr>w_current := int (Suc k)\<rparr>) (Suc k) \<and>
        refines d' (m(u \<mapsto> new_job (task_job u now (w_tasks r ! Suc k) (w_id r)) ''''))
      else stored J d' (r\<lparr>w_current := int (Suc k), w_state := ''completed''\<rparr>) \<and> refines d' m)"
proof -
  have r: "stored J d r" "counter d (w_id r) (int k)" "w_type r = TypeChain" "w_state r = ''running''"
    "w_total r = int (length (w_tasks r))" "k < length (w_tasks r)" "w_current r = int k" "record_ok r"
    using assms(3) by (simp_all add: chain_at_def stored_def)
  obtain d1 where d1: "incr_counter redis_doc ''winter: chain advance'' NoFault (w_id r) d = (Inr (int k + 1), d1)"
    "counter d1 (w_id r) (int k + 1)" "agree d d1"
    using run_incr [OF r(2)] by (metis of_nat_0_le_iff)
  let ?r = "r\<lparr>w_current := int k + 1\<rparr>"
  show ?thesis
  proof (cases "Suc k < length (w_tasks r)")
    case True
    let ?d2 = "save_wf J ?r d1"
    have ref: "refines ?d2 m" using refines_agree [OF assms(2)] agree_trans [OF d1(3)] by simp
    obtain d3 where d3: "enqueueTask redis_doc NoFault u now (w_tasks r ! Suc k) (w_id r) ?d2 = (Inr u, d3)"
      "refines d3 (m(u \<mapsto> new_job (task_job u now (w_tasks r ! Suc k) (w_id r)) ''''))"
      "\<And>x. lookup d3 (workflowKey x) = lookup ?d2 (workflowKey x)" "\<And>x. lookup d3 (counterKey x) = lookup ?d2 (counterKey x)"
      using run_enqueueTask [OF ref assms(4,5) assms(6) [OF True], of now "w_id r"] by blast
    have "advanceChain redis_doc J calm u now r d = (Inr (), d3)"
      using True r(5) d1(1) d3(1) by (simp add: advanceChain_def gbind_def Let_def run_save wrap_err_def gret_def nat_add_distrib)
    moreover have "stored J d3 ?r" "counter d3 (w_id r) (int k + 1)"
      using save_wf_simps(1) [of J ?r d1] r(8) d1(2) by (simp_all add: stored_def counter_def d3(3,4))
    ultimately show ?thesis
      using True r d3(2) run_completed [OF assms(1) r(1)] by (simp add: chain_at_def add.commute)
  next
    case False
    let ?d2 = "save_wf J (?r\<lparr>w_state := ''completed''\<rparr>) d1"
    have "advanceChain redis_doc J calm u now r d = (Inr (), ?d2)"
      using False r(5) d1(1) by (simp add: advanceChain_def gbind_def Let_def run_save)
    moreover have "refines ?d2 m" using refines_agree [OF assms(2)] agree_trans [OF d1(3)] by simp
    ultimately show ?thesis
      using False r run_completed [OF assms(1) r(1)] save_wf_simps(1) [of J "?r\<lparr>w_state := ''completed''\<rparr>" d1]
      by (simp add: add.commute)
  qed
qed

section \<open>A whole chain\<close>

fun complete_steps :: "'s server \<Rightarrow> json \<Rightarrow> (nat \<Rightarrow> string) \<Rightarrow> int \<Rightarrow> string \<Rightarrow> nat \<Rightarrow> 's \<Rightarrow> 's" where
  "complete_steps exec J ids now wid 0 s = s"
| "complete_steps exec J ids now wid (Suc n) s =
     snd (OnJobCompleted exec J calm (ids (Suc (Suc n))) now wid (ids (Suc n)) (complete_steps exec J ids now wid n s))"

fun chain_jobs :: "(nat \<Rightarrow> string) \<Rightarrow> int \<Rightarrow> TaskSpec list \<Rightarrow> nat \<Rightarrow> astate \<Rightarrow> astate" where
  "chain_jobs ids now tasks 0 m = m(ids 1 \<mapsto> new_job (task_job (ids 1) now (tasks ! 0) (ids 0)) '''')"
| "chain_jobs ids now tasks (Suc k) m =
     (chain_jobs ids now tasks k m)(ids (Suc (Suc k)) \<mapsto> new_job (task_job (ids (Suc (Suc k))) now (tasks ! Suc k) (ids 0)) '''')"

definition fresh_ids :: "(nat \<Rightarrow> string) \<Rightarrow> nat \<Rightarrow> astate \<Rightarrow> bool" where
  "fresh_ids ids n m \<longleftrightarrow> inj_on ids {..n} \<and> (\<forall>k\<le>n. wf_id (ids k) \<and> utf8_ok (ids k) \<and> m (ids k) = None)"

lemma chain_jobs_fresh:
  assumes "fresh_ids ids n m" "Suc k < j" "j \<le> n"
  shows "chain_jobs ids now tasks k m (ids j) = None"
  using assms(2)
proof (induction k)
  case 0
  then show ?case using assms(1,3) inj_onD [of ids "{..n}" j 1] by (auto simp: fresh_ids_def)
next
  case (Suc k)
  then show ?case using assms(1,3) inj_onD [of ids "{..n}" j "Suc (Suc k)"] by (auto simp: fresh_ids_def)
qed

lemma run_CreateChain:
  assumes "refines d m" "fresh_ids ids n m" "1 \<le> n" "tasks \<noteq> []" "counter d (ids 0) 0"
    and "\<And>t. t \<in> set tasks \<Longrightarrow> ts_queue t \<noteq> '''' \<and> wf_queue (ts_queue t) \<and> spec_ok t"
    and "r = \<lparr>w_id = ids 0, w_type = TypeChain, w_state = ''running'', w_tasks = tasks, w_callback = None,
       w_current = 0, w_total = int (length tasks), w_done = 0, w_queue = q\<rparr>"
    and "utf8_ok q"
  shows "\<exists>d'. CreateChain redis_doc J calm ids now tasks q d = (Inr (ids 0), d') \<and> chain_at J d' r 0 \<and>
     refines d' (chain_jobs ids now tasks 0 m)"
proof -
  have dq: "map (default_queue q) tasks = tasks" using assms(6) by (simp add: default_queue_def map_idI)
  have ref: "refines (save_wf J r d) m" using refines_agree [OF assms(1)] by simp
  have hd: "hd tasks \<in> set tasks" "hd tasks = tasks ! 0" using assms(4) by (simp_all add: hd_conv_nth)
  obtain d' where d': "enqueueTask redis_doc NoFault (ids 1) now (hd tasks) (ids 0) (save_wf J r d) = (Inr (ids 1), d')"
    "refines d' (m(ids 1 \<mapsto> new_job (task_job (ids 1) now (hd tasks) (ids 0)) ''''))"
    "\<And>x. lookup d' (workflowKey x) = lookup (save_wf J r d) (workflowKey x)"
    "\<And>x. lookup d' (counterKey x) = lookup (save_wf J r d) (counterKey x)"
    using run_enqueueTask [OF ref, of "ids 1" "hd tasks" now "ids 0"] assms(2,3,6) hd(1)
    by (auto simp: fresh_ids_def task_queue_name_def)
  have "CreateChain redis_doc J calm ids now tasks q d = (Inr (ids 0), d')"
    using assms(4) d'(1) by (simp add: CreateChain_def Let_def dq gbind_def assms(7) [symmetric] run_save wrap_err_def gret_def)
  moreover have "record_ok r" using assms(2,6,8) by (simp add: record_ok_def assms(7) fresh_ids_def)
  then have "stored J d' r" "counter d' (w_id r) 0"
    using save_wf_simps(1) [of J r d] assms(5) by (simp_all add: stored_def counter_def d'(3,4) assms(7))
  ultimately show ?thesis
    using d'(2) assms(4) hd(2) by (auto simp: chain_at_def assms(7))
qed

lemma run_chain:
  assumes "json_codec J" "fresh_ids ids (length tasks) m" "\<And>t. t \<in> set tasks \<Longrightarrow> ts_queue t \<noteq> '''' \<and> wf_queue (ts_queue t) \<and> spec_ok t"
    and "chain_at J d r 0" "w_tasks r = tasks" "w_id r = ids 0" "refines d (chain_jobs ids now tasks 0 m)"
  shows "k < length tasks \<Longrightarrow> chain_at J (complete_steps redis_doc J ids now (ids 0) k d) (r\<lparr>w_current := int k\<rparr>) k \<and>
     refines (complete_steps redis_doc J ids now (ids 0) k d) (chain_jobs ids now tasks k m)"
proof (induction k)
  case 0
  have "r\<lparr>w_current := int 0\<rparr> = r" using assms(4) by (simp add: chain_at_def)
  then show ?case using assms(4,7) by (simp del: fun_upd_apply)
next
  case (Suc k)
  let ?d = "complete_steps redis_doc J ids now (ids 0) k d" and ?r = "r\<lparr>w_current := int k\<rparr>"
  have IH: "chain_at J ?d ?r k" "refines ?d (chain_jobs ids now tasks k m)" using Suc by simp_all
  have u: "wf_id (ids (Suc (Suc k)))" "chain_jobs ids now tasks k m (ids (Suc (Suc k))) = None"
    using assms(2) chain_jobs_fresh [OF assms(2), of k "Suc (Suc k)"] Suc.prems by (auto simp: fresh_ids_def)
  have q: "wf_queue (task_queue_name (w_tasks ?r ! Suc k))"
    using assms(3) [of "tasks ! Suc k"] Suc.prems by (simp add: assms(5) task_queue_name_def)
  obtain d' where "OnJobCompleted redis_doc J calm (ids (Suc (Suc k))) now (ids 0) (ids (Suc k)) ?d = (Inr (), d')"
    "chain_at J d' (?r\<lparr>w_current := int (Suc k)\<rparr>) (Suc k)"
    "refines d' ((chain_jobs ids now tasks k m)(ids (Suc (Suc k)) \<mapsto>
       new_job (task_job (ids (Suc (Suc k))) now (tasks ! Suc k) (ids 0)) ''''))"
    using run_chain_step [OF assms(1) IH(2,1) u q, of now "ids (Suc k)"] Suc.prems by (auto simp: assms(5,6))
  then show ?case by (simp del: fun_upd_apply)
qed

context redis_server
begin

lemma sim_complete_steps:
  "view (complete_steps exec J ids now wid n s) = complete_steps redis_doc J ids now wid n (view s)"
  by (induction n) (simp_all add: sim_snd [OF sim_OnJobCompleted])

lemma sim_CreateChain: "sim view (CreateChain exec J F ids now tasks q) (CreateChain redis_doc J F ids now tasks q)"
  unfolding CreateChain_def by (intro wf_intros manager_sim)

end

text \<open>
  C22: A chain runs its tasks one after the other: after creation exactly the first task is enqueued, after
  the k-th completion exactly the next one, each with the workflow's identifier, and never two at
  once; the completion of the last task marks the workflow completed and enqueues nothing.
\<close>

theorem chain_runs_in_order:
  assumes "redis_server exec view" "json_codec J" "refines (view s) m" "fresh_ids ids (Suc (length tasks)) m"
    and "tasks \<noteq> []" "counter (view s) (ids 0) 0" "utf8_ok q"
    and "\<And>t. t \<in> set tasks \<Longrightarrow> ts_queue t \<noteq> '''' \<and> wf_queue (ts_queue t) \<and> spec_ok t"
  shows "\<exists>s0 r. CreateChain exec J calm ids now tasks q s = (Inr (ids 0), s0) \<and>
     (\<forall>k<length tasks. refines (view (complete_steps exec J ids now (ids 0) k s0)) (chain_jobs ids now tasks k m)) \<and>
     refines (view (complete_steps exec J ids now (ids 0) (length tasks) s0)) (chain_jobs ids now tasks (length tasks - 1) m) \<and>
     stored J (view (complete_steps exec J ids now (ids 0) (length tasks) s0)) r \<and> w_id r = ids 0 \<and> w_state r = ''completed''"
proof -
  let ?r = "\<lparr>w_id = ids 0, w_type = TypeChain, w_state = ''running'', w_tasks = tasks, w_callback = None,
       w_current = 0, w_total = int (length tasks), w_done = 0, w_queue = q\<rparr>"
  obtain d0 where d0: "CreateChain redis_doc J calm ids now tasks q (view s) = (Inr (ids 0), d0)" "chain_at J d0 ?r 0"
    "refines d0 (chain_jobs ids now tasks 0 m)"
    using run_CreateChain [OF assms(3,4) _ assms(5,6,8) refl assms(7), of J now] by auto
  then obtain s0 where s0: "CreateChain exec J calm ids now tasks q s = (Inr (ids 0), s0)" "view s0 = d0"
    using sim_result [OF redis_server.sim_CreateChain [OF assms(1)]] by metis
  have f: "fresh_ids ids (length tasks) m" using assms(4) by (auto simp: fresh_ids_def intro: inj_on_subset)
  note steps = run_chain [OF assms(2) f assms(8) d0(2) _ _ d0(3)]
  note sim = redis_server.sim_complete_steps [OF assms(1)]
  obtain n where n: "length tasks = Suc n" using assms(5) by (cases tasks) auto
  have last: "chain_at J (complete_steps redis_doc J ids now (ids 0) n d0) (?r\<lparr>w_current := int n\<rparr>) n"
    "refines (complete_steps redis_doc J ids now (ids 0) n d0) (chain_jobs ids now tasks n m)"
    using steps [of n] n by simp_all
  have "wf_id (ids (Suc (Suc n)))" "chain_jobs ids now tasks n m (ids (Suc (Suc n))) = None"
    using assms(4) chain_jobs_fresh [OF assms(4), of n "Suc (Suc n)"] n by (auto simp: fresh_ids_def)
  from run_chain_step [OF assms(2) last(2,1) this, of now "ids (Suc n)"] n
  obtain d' where "OnJobCompleted redis_doc J calm (ids (Suc (Suc n))) now (ids 0) (ids (Suc n))
      (complete_steps redis_doc J ids now (ids 0) n d0) = (Inr (), d')"
    "stored J d' (?r\<lparr>w_current := int (Suc n), w_state := ''completed''\<rparr>)" "refines d' (chain_jobs ids now tasks n m)"
    by auto
  then have fin: "stored J (complete_steps redis_doc J ids now (ids 0) (length tasks) d0) (?r\<lparr>w_current := int (Suc n), w_state := ''completed''\<rparr>)"
    "refines (complete_steps redis_doc J ids now (ids 0) (length tasks) d0) (chain_jobs ids now tasks (length tasks - 1) m)"
    unfolding n by simp_all
  have all: "\<forall>k<length tasks. refines (view (complete_steps exec J ids now (ids 0) k s0)) (chain_jobs ids now tasks k m)"
    using steps by (simp add: sim s0(2))
  show ?thesis
    using s0(1) all fin
    by (intro exI [of _ s0] exI [of _ "?r\<lparr>w_current := int (Suc n), w_state := ''completed''\<rparr>"]) (simp add: sim s0(2))
qed

definition sample_task :: "string \<Rightarrow> TaskSpec" where
  "sample_task kind = \<lparr>ts_kind = kind, ts_payload = ''{}'', ts_queue = ''default'', ts_priority = 5, ts_maxRetries = 3\<rparr>"

definition sample_ids :: "nat \<Rightarrow> string" where
  "sample_ids k = ''c'' @ itoa (int k)"

lemma fresh_sample_ids: "fresh_ids sample_ids n Map.empty"
proof -
  have "wf_id (sample_ids k)" "utf8_ok (sample_ids k)" for k
    unfolding sample_ids_def by (rule wf_id_itoa) (simp add: utf8_ok_itoa)
  then show ?thesis by (simp add: fresh_ids_def inj_on_def sample_ids_def)
qed

theorem chain_runs_in_order_witness:
  "\<exists>s0 r. CreateChain redis_doc go_json calm sample_ids 1000 [sample_task ''a'', sample_task ''b''] ''default'' store0 = (Inr (sample_ids 0), s0) \<and>
     refines (complete_steps redis_doc go_json sample_ids 1000 (sample_ids 0) 1 s0)
       (chain_jobs sample_ids 1000 [sample_task ''a'', sample_task ''b''] 1 Map.empty) \<and>
     stored go_json (complete_steps redis_doc go_json sample_ids 1000 (sample_ids 0) 2 s0) r \<and> w_state r = ''completed''"
proof -
  let ?t = "[sample_task ''a'', sample_task ''b'']"
  have "counter store0 (sample_ids 0) 0" by (simp add: counter_def)
  moreover have "ts_queue t \<noteq> '''' \<and> wf_queue (ts_queue t) \<and> spec_ok t" if "t \<in> set ?t" for t
    using that by (auto simp: sample_task_def spec_ok_def)
  moreover have "utf8_ok ''default''" by simp
  ultimately obtain s0 r where "CreateChain redis_doc go_json calm sample_ids 1000 ?t ''default'' store0 = (Inr (sample_ids 0), s0)"
    "\<forall>k<length ?t. refines (id (complete_steps redis_doc go_json sample_ids 1000 (sample_ids 0) k s0)) (chain_jobs sample_ids 1000 ?t k Map.empty)"
    "stored go_json (id (complete_steps redis_doc go_json sample_ids 1000 (sample_ids 0) (length ?t) s0)) r" "w_state r = ''completed''"
    using chain_runs_in_order [OF logical.redis_server_axioms go.json_codec_axioms _ fresh_sample_ids, of store0 ?t "''default''" 1000]
      refines_store0 by auto
  moreover have "(1::nat) < length ?t" "length ?t = 2" by simp_all
  ultimately show ?thesis by (metis id_apply)
qed

end
