(* ===== verification/Workflow_Group.thy ===== *)
theory Workflow_Group
  imports Workflow_Chain
begin

text \<open>
  Groups and chords: all tasks are enqueued at once; a group is complete when as many completions
  arrived as it has tasks, a chord enqueues its callback when the last of its headers is done. The
  last section shows what the separate calls to Redis leave open.
\<close>

section \<open>Creating the tasks\<close>

fun task_jobs :: "(nat \<Rightarrow> string) \<Rightarrow> int \<Rightarrow> string \<Rightarrow> nat \<Rightarrow> TaskSpec list \<Rightarrow> astate \<Rightarrow> astate" where
  "task_jobs ids now wid i [] m = m"
| "task_jobs ids now wid i (t # ts) m =
     task_jobs ids now wid (Suc i) ts (m(ids (Suc i) \<mapsto> new_job (task_job (ids (Suc i)) now t wid) ''''))"

definition fresh_from :: "(nat \<Rightarrow> string) \<Rightarrow> nat \<Rightarrow> nat \<Rightarrow> astate \<Rightarrow> bool" where
  "fresh_from ids i n m \<longleftrightarrow> inj_on ids {..n} \<and> (\<forall>k. i < k \<and> k \<le> n \<longrightarrow> wf_id (ids k) \<and> m (ids k) = None)"

lemma fresh_fromD:
  assumes "fresh_from ids i n m" "i < k" "k \<le> n"
  shows "wf_id (ids k)" "m (ids k) = None"
  using assms by (auto simp: fresh_from_def)

lemma fresh_from_upd:
  assumes "fresh_from ids i n m" "i < k" "k \<le> n"
  shows "fresh_from ids k n (m(ids k \<mapsto> j))"
proof -
  have "ids l \<noteq> ids k" if "k < l" "l \<le> n" for l
    using assms(1,3) that inj_onD [of ids "{..n}" l k] by (auto simp: fresh_from_def)
  then show ?thesis using assms by (auto simp: fresh_from_def)
qed

lemma fresh_task_jobs:
  "fresh_from ids i n m \<Longrightarrow> i + length ts \<le> n \<Longrightarrow> fresh_from ids (i + length ts) n (task_jobs ids now w i ts m)"
proof (induction ts arbitrary: i m)
  case (Cons t ts)
  then show ?case using Cons.IH [OF fresh_from_upd [OF Cons.prems(1), of "Suc i"]] by (simp del: fun_upd_apply)
qed simp

lemma fresh_ids_from: "fresh_ids ids n m \<Longrightarrow> fresh_from ids 0 n m"
  by (auto simp: fresh_ids_def fresh_from_def)

lemma task_jobs_outside: "(\<And>k. i < k \<Longrightarrow> k \<le> i + length ts \<Longrightarrow> ids k \<noteq> x) \<Longrightarrow> task_jobs ids now w i ts m x = m x"
proof (induction ts arbitrary: i m)
  case (Cons t ts)
  have "task_jobs ids now w i (t # ts) m x = (m(ids (Suc i) \<mapsto> new_job (task_job (ids (Suc i)) now t w) '''')) x"
    by (simp only: task_jobs.simps) (rule Cons.IH, use Cons.prems in auto)
  also have "\<dots> = m x" using Cons.prems [of "Suc i"] by simp
  finally show ?case .
qed simp

lemma run_enqueue_group:
  assumes "refines d m" "fresh_from ids i n m" "i + length ts \<le> n" "\<And>t. t \<in> set ts \<Longrightarrow> wf_queue (task_queue_name t)"
  shows "\<exists>d'. enqueue_group redis_doc calm ids now w i ts d = (Inr (), d') \<and> refines d' (task_jobs ids now w i ts m) \<and>
     (\<forall>x. lookup d' (workflowKey x) = lookup d (workflowKey x) \<and> lookup d' (counterKey x) = lookup d (counterKey x))"
  using assms
proof (induction ts arbitrary: i m d)
  case (Cons t ts)
  have u: "wf_id (ids (Suc i))" "m (ids (Suc i)) = None" using fresh_fromD [OF Cons.prems(2)] Cons.prems(3) by auto
  obtain d1 where d1: "enqueueTask redis_doc NoFault (ids (Suc i)) now t w d = (Inr (ids (Suc i)), d1)"
    "refines d1 (m(ids (Suc i) \<mapsto> new_job (task_job (ids (Suc i)) now t w) ''''))"
    "\<And>x. lookup d1 (workflowKey x) = lookup d (workflowKey x) \<and> lookup d1 (counterKey x) = lookup d (counterKey x)"
    using run_enqueueTask [OF Cons.prems(1) u, of t now w] Cons.prems(4) by auto
  have "fresh_from ids (Suc i) n (m(ids (Suc i) \<mapsto> new_job (task_job (ids (Suc i)) now t w) ''''))"
    using fresh_from_upd [OF Cons.prems(2), of "Suc i"] Cons.prems(3) by simp
  from Cons.IH [OF d1(2) this] Cons.prems(3,4) d1(1,3) show ?case by (auto simp: gbind_def wrap_err_def simp del: fun_upd_apply)
qed (simp add: gret_def)

section \<open>Groups\<close>

definition group_at :: "json \<Rightarrow> dataset \<Rightarrow> WRecord \<Rightarrow> nat \<Rightarrow> bool" where
  "group_at J d r k \<longleftrightarrow> stored J d r \<and> counter d (w_id r) (int k) \<and> w_type r = TypeGroup \<and> 0 < w_total r \<and> w_done r = int k \<and>
     w_state r = (if int k < w_total r then ''running'' else ''completed'')"

lemma run_group_step:
  assumes "json_codec J" "group_at J d r k" "int k < w_total r"
  shows "\<exists>d' r'. OnJobCompleted redis_doc J calm u now (w_id r) j d = (Inr (), d') \<and> group_at J d' r' (Suc k) \<and>
     w_id r' = w_id r \<and> w_total r' = w_total r \<and> agree d d'"
proof -
  have r: "stored J d r" "counter d (w_id r) (int k)" "w_type r = TypeGroup" "w_state r = ''running''"
    using assms(2,3) by (simp_all add: group_at_def)
  obtain d1 where d1: "incr_counter redis_doc ''winter: group advance'' NoFault (w_id r) d = (Inr (int k + 1), d1)"
    "counter d1 (w_id r) (int k + 1)" "agree d d1"
    using run_incr [OF r(2)] by (metis of_nat_0_le_iff)
  let ?r1 = "r\<lparr>w_done := int k + 1\<rparr>"
  let ?r = "if w_total r \<le> int k + 1 then ?r1\<lparr>w_state := ''completed''\<rparr> else ?r1"
  have sel: "w_id ?r = w_id r" "w_total ?r = w_total r" "w_type ?r = TypeGroup" "w_done ?r = int k + 1"
    "w_state ?r = (if int k + 1 < w_total r then ''running'' else ''completed'')" using r by simp_all
  have "OnJobCompleted redis_doc J calm u now (w_id r) j d = (Inr (), save_wf J ?r d1)"
    using run_completed [OF assms(1) r(1)] r(3,4) d1(1)
    by (simp add: advanceGroup_def gbind_def Let_def run_save)
  moreover have "group_at J (save_wf J ?r d1) ?r (Suc k)"
    unfolding group_at_def using sel d1(2) assms(3) stored_ok [OF r(1)] by (simp add: add.commute)
  moreover have "agree d (save_wf J ?r d1)" using agree_trans [OF d1(3)] by simp
  ultimately show ?thesis using sel by blast
qed

text \<open>The jobs of a workflow that completed, each with the identifier a task enqueued then would get.\<close>

definition complete_jobs :: "'s server \<Rightarrow> json \<Rightarrow> int \<Rightarrow> string \<Rightarrow> (string \<times> string) list \<Rightarrow> 's \<Rightarrow> 's" where
  "complete_jobs exec J now wid js s = fold (\<lambda>(j, u) s. snd (OnJobCompleted exec J calm u now wid j s)) js s"

lemma run_group:
  assumes "json_codec J" "group_at J d r k" "int k + int (length js) \<le> w_total r"
  shows "\<exists>r'. group_at J (complete_jobs redis_doc J now (w_id r) js d) r' (k + length js) \<and> w_id r' = w_id r \<and>
     w_total r' = w_total r \<and> agree d (complete_jobs redis_doc J now (w_id r) js d)"
  using assms(2,3)
proof (induction js arbitrary: d r k)
  case (Cons ju js)
  obtain j u where ju: "ju = (j, u)" by (cases ju)
  obtain d1 r1 where d1: "OnJobCompleted redis_doc J calm u now (w_id r) j d = (Inr (), d1)" "group_at J d1 r1 (Suc k)"
    "w_id r1 = w_id r" "w_total r1 = w_total r" "agree d d1"
    using run_group_step [OF assms(1) Cons.prems(1), of u now j] Cons.prems(2) by auto
  from Cons.IH [OF d1(2)] Cons.prems(2) d1 agree_trans [OF d1(5)] show ?case by (auto simp: complete_jobs_def ju)
qed (auto simp: complete_jobs_def agree_def)

lemma run_CreateGroup:
  assumes "refines d m" "fresh_ids ids (length tasks) m" "tasks \<noteq> []" "counter d (ids 0) 0"
    and "\<And>t. t \<in> set tasks \<Longrightarrow> wf_queue (task_queue_name (default_queue q t)) \<and> spec_ok t" "utf8_ok q"
  shows "\<exists>d' r. CreateGroup redis_doc J calm ids now tasks q d = (Inr (ids 0), d') \<and> group_at J d' r 0 \<and> w_id r = ids 0 \<and>
     w_total r = int (length tasks) \<and> refines d' (task_jobs ids now (ids 0) 0 (map (default_queue q) tasks) m)"
proof -
  let ?r = "\<lparr>w_id = ids 0, w_type = TypeGroup, w_state = ''running'', w_tasks = map (default_queue q) tasks, w_callback = None,
       w_current = 0, w_total = int (length tasks), w_done = 0, w_queue = q\<rparr>"
  have ref: "refines (save_wf J ?r d) m" using refines_agree [OF assms(1)] by simp
  obtain d' where d': "enqueue_group redis_doc calm ids now (ids 0) 0 (map (default_queue q) tasks) (save_wf J ?r d) = (Inr (), d')"
    "refines d' (task_jobs ids now (ids 0) 0 (map (default_queue q) tasks) m)"
    "\<And>x. lookup d' (workflowKey x) = lookup (save_wf J ?r d) (workflowKey x)"
    "\<And>x. lookup d' (counterKey x) = lookup (save_wf J ?r d) (counterKey x)"
    using run_enqueue_group [OF ref fresh_ids_from [OF assms(2)], of "map (default_queue q) tasks" now "ids 0"] assms(5) by auto
  have "CreateGroup redis_doc J calm ids now tasks q d = (Inr (ids 0), d')"
    using assms(3) d'(1) by (simp add: CreateGroup_def Let_def gbind_def run_save gret_def)
  moreover have "record_ok ?r" using assms(2,5,6) by (simp add: record_ok_def fresh_ids_def)
  then have "stored J d' ?r" "counter d' (w_id ?r) 0"
    using save_wf_simps(1) [of J ?r d] assms(4) by (simp_all add: stored_def counter_def d'(3,4))
  then have "group_at J d' ?r 0" using assms(3) by (simp add: group_at_def)
  ultimately show ?thesis using d'(2) by (intro exI [of _ d'] exI [of _ ?r]) simp
qed

lemma sim_fold:
  assumes "\<And>x s. view (f x s) = g x (view s)"
  shows "view (fold f xs s) = fold g xs (view s)"
  by (induction xs arbitrary: s) (simp_all add: assms)

context redis_server
begin

lemma sim_enqueue_group: "sim view (enqueue_group exec F ids now w i ts) (enqueue_group redis_doc F ids now w i ts)"
  by (induction ts arbitrary: i) (simp_all, intro wf_intros manager_sim, intro wf_intros manager_sim, assumption)

lemma sim_CreateGroup: "sim view (CreateGroup exec J F ids now tasks q) (CreateGroup redis_doc J F ids now tasks q)"
  unfolding CreateGroup_def by (intro wf_intros manager_sim sim_enqueue_group)

lemma sim_enqueue_headers: "sim view (enqueue_headers exec F ids now w i ts) (enqueue_headers redis_doc F ids now w i ts)"
  by (induction ts arbitrary: i) (simp_all, intro wf_intros manager_sim, intro wf_intros manager_sim, assumption)

lemma sim_CreateChord: "sim view (CreateChord exec J F ids now tasks cb q) (CreateChord redis_doc J F ids now tasks cb q)"
  unfolding CreateChord_def by (intro wf_intros manager_sim sim_enqueue_headers)

lemma sim_complete_jobs: "view (complete_jobs exec J now w js s) = complete_jobs redis_doc J now w js (view s)"
  unfolding complete_jobs_def by (rule sim_fold) (simp add: case_prod_beta sim_snd [OF sim_OnJobCompleted])

end

section \<open>Chords\<close>

definition chord_at :: "json \<Rightarrow> dataset \<Rightarrow> WRecord \<Rightarrow> string list \<Rightarrow> bool" where
  "chord_at J d r xs \<longleftrightarrow> stored J d r \<and> deps d (w_id r) xs \<and> w_type r = TypeChord \<and> w_state r = ''running''"

lemma run_chord_step:
  assumes "json_codec J" "refines d m" "chord_at J d r xs" "w_callback r = Some cb" "wf_id u" "m u = None"
    and "wf_queue (task_queue_name cb)"
  shows "\<exists>d' r'. OnJobCompleted redis_doc J calm u now (w_id r) j d = (Inr (), d') \<and> w_id r' = w_id r \<and> w_callback r' = Some cb \<and>
     w_total r' = w_total r \<and> w_done r' = w_total r - int (length (removeAll j xs)) \<and>
     (if removeAll j xs = []
      then stored J d' r' \<and> w_state r' = ''completed'' \<and> refines d' (m(u \<mapsto> new_job (task_job u now cb (w_id r)) ''''))
      else chord_at J d' r' (removeAll j xs) \<and> refines d' m)"
proof -
  have r: "stored J d r" "deps d (w_id r) xs" "w_type r = TypeChord" "w_state r = ''running''"
    using assms(3) by (simp_all add: chord_at_def)
  let ?xs = "removeAll j xs"
  obtain d1 where d1: "advanceChordScript redis_doc (depsKey (w_id r)) j d = (Inr (RInt (int (length ?xs))), d1)"
    "deps d1 (w_id r) ?xs" "agree d d1" using run_chord_script [OF r(2)] by metis
  let ?r = "r\<lparr>w_done := w_total r - int (length ?xs)\<rparr>"
  have adv: "OnJobCompleted redis_doc J calm u now (w_id r) j d = advanceChord redis_doc J calm u now r j d"
    using run_completed [OF assms(1) r(1)] r(3,4) by simp
  show ?thesis
  proof (cases "?xs = []")
    case True
    let ?r' = "?r\<lparr>w_state := ''completed''\<rparr>"
    let ?d2 = "save_wf J ?r' d1"
    have ref: "refines ?d2 m" using refines_agree [OF assms(2)] agree_trans [OF d1(3)] by simp
    obtain d3 where d3: "enqueueTask redis_doc NoFault u now cb (w_id r) ?d2 = (Inr u, d3)"
      "refines d3 (m(u \<mapsto> new_job (task_job u now cb (w_id r)) ''''))" "\<And>x. lookup d3 (workflowKey x) = lookup ?d2 (workflowKey x)"
      using run_enqueueTask [OF ref assms(5,6,7), of now "w_id r"] by blast
    have "stored J d3 ?r'" using save_wf_simps(1) [of J ?r' d1] stored_ok [OF r(1)] by (simp add: stored_def d3(3))
    moreover have "advanceChord redis_doc J calm u now r j d = (Inr (), d3)"
      using True d1(1) d3(1) assms(4)
      by (simp add: advanceChord_def go_result_def gbind_def Let_def run_save wrap_err_def gret_def)
    ultimately show ?thesis
      using True adv d3(2) assms(4) by (intro exI [of _ d3] exI [of _ ?r']) simp
  next
    case False
    then obtain n where "length ?xs = Suc n" by (cases ?xs) auto
    then have "advanceChord redis_doc J calm u now r j d = (Inr (), save_wf J ?r d1)"
      using d1(1) assms(4) by (simp add: advanceChord_def go_result_def gbind_def Let_def run_save)
    moreover have "chord_at J (save_wf J ?r d1) ?r ?xs" using r d1(2) stored_ok [OF r(1)] by (simp add: chord_at_def)
    moreover have "refines (save_wf J ?r d1) m" using refines_agree [OF assms(2)] agree_trans [OF d1(3)] by simp
    ultimately show ?thesis
      using False adv assms(4) by (intro exI [of _ "save_wf J ?r d1"] exI [of _ ?r]) simp
  qed
qed

lemma run_chord_prefix:
  assumes "json_codec J" "wf_queue (task_queue_name cb)"
    and "refines d m" "chord_at J d r xs" "w_callback r = Some cb"
    and "\<And>j u. (j, u) \<in> set js \<Longrightarrow> wf_id u \<and> m u = None" "\<not> set xs \<subseteq> fst ` set js"
  shows "\<exists>r'. chord_at J (complete_jobs redis_doc J now (w_id r) js d) r' (filter (\<lambda>x. x \<notin> fst ` set js) xs) \<and> w_id r' = w_id r \<and>
     w_callback r' = Some cb \<and> refines (complete_jobs redis_doc J now (w_id r) js d) m"
  using assms(3-7)
proof (induction js arbitrary: d r xs)
  case (Cons ju js)
  obtain j u where ju: "ju = (j, u)" by (cases ju)
  have ne: "removeAll j xs \<noteq> []" using Cons.prems(5) by (auto simp: ju removeAll_filter_not_eq filter_empty_conv)
  obtain d1 r1 where d1: "OnJobCompleted redis_doc J calm u now (w_id r) j d = (Inr (), d1)" "chord_at J d1 r1 (removeAll j xs)"
    "w_id r1 = w_id r" "w_callback r1 = Some cb" "refines d1 m"
    using run_chord_step [OF assms(1) Cons.prems(1-3), of u now j] Cons.prems(4) [of j u] assms(2) ne by (auto simp: ju)
  have "filter (\<lambda>x. x \<notin> fst ` set js) (removeAll j xs) = filter (\<lambda>x. x \<notin> fst ` set (ju # js)) xs"
    by (auto simp: ju removeAll_filter_not_eq intro: filter_cong)
  with Cons.IH [OF d1(5,2,4)] Cons.prems(4,5) d1 show ?case by (auto simp: complete_jobs_def ju)
qed (auto simp: complete_jobs_def)


lemma run_add_dep:
  assumes "deps d i xs" "x \<notin> set xs"
  shows "\<exists>d'. go_result (run NoFault (lcall redis_doc (SADD (depsKey i) x))) e (\<lambda>_. Inr ()) d = (Inr (), d') \<and> deps d' i (xs @ [x]) \<and>
     agree d d' \<and> (\<forall>k. k \<noteq> depsKey i \<longrightarrow> lookup d' k = lookup d k)"
proof -
  let ?d = "store_set d (depsKey i) (xs @ [x])"
  have "go_result (run NoFault (lcall redis_doc (SADD (depsKey i) x))) e (\<lambda>_. Inr ()) d = (Inr (), ?d)"
    using assms by (auto simp: go_result_def lcall_def redis_doc.simps typed_def has_type_def set_at_def deps_def split: if_splits)
  moreover have "deps ?d i (xs @ [x])" "agree d ?d" by (auto simp: deps_def agree_def)
  ultimately show ?thesis by auto
qed

lemma run_enqueue_headers:
  assumes "refines d m" "fresh_from ids i n m" "i + length ts \<le> n" "\<And>t. t \<in> set ts \<Longrightarrow> wf_queue (task_queue_name t)"
    and "deps d w (map ids [1..<Suc i])"
  shows "\<exists>d'. enqueue_headers redis_doc calm ids now w i ts d = (Inr (), d') \<and> refines d' (task_jobs ids now w i ts m) \<and>
     deps d' w (map ids [1..<Suc (i + length ts)]) \<and> lookup d' (workflowKey w) = lookup d (workflowKey w)"
  using assms
proof (induction ts arbitrary: i m d)
  case (Cons t ts)
  let ?u = "ids (Suc i)"
  let ?m = "m(?u \<mapsto> new_job (task_job ?u now t w) '''')"
  have u: "wf_id ?u" "m ?u = None" using fresh_fromD [OF Cons.prems(2)] Cons.prems(3) by auto
  obtain d1 where d1: "enqueueTask redis_doc NoFault ?u now t w d = (Inr ?u, d1)" "refines d1 ?m"
    "\<And>x. lookup d1 (workflowKey x) = lookup d (workflowKey x)" "\<And>x. lookup d1 (depsKey x) = lookup d (depsKey x)"
    using run_enqueueTask [OF Cons.prems(1) u, of t now w] Cons.prems(4) by auto
  have "deps d1 w (map ids [1..<Suc i])" using Cons.prems(5) by (simp add: deps_def d1(4))
  moreover have ne: "ids k \<noteq> ?u" if "k \<le> i" for k
    using that Cons.prems(2,3) inj_onD [of ids "{..n}" "Suc i" k] by (auto simp: fresh_from_def)
  have "?u \<notin> set (map ids [1..<Suc i])"
    unfolding set_map set_upt using ne by (metis atLeastLessThan_iff imageE less_Suc_eq_le)
  ultimately obtain d2 where d2:
    "go_result (run NoFault (lcall redis_doc (SADD (depsKey w) ?u))) (\<lambda>e. WErr (Wrapped ''winter: chord add dep'' e)) (\<lambda>_. Inr ()) d1 = (Inr (), d2)"
    "deps d2 w (map ids [1..<Suc (Suc i)])" "agree d1 d2" "lookup d2 (workflowKey w) = lookup d1 (workflowKey w)"
    using run_add_dep [of d1 w "map ids [1..<Suc i]" ?u "\<lambda>e. WErr (Wrapped ''winter: chord add dep'' e)"] by auto
  have "fresh_from ids (Suc i) n ?m" using fresh_from_upd [OF Cons.prems(2), of "Suc i"] Cons.prems(3) by simp
  from Cons.IH [OF refines_agree [OF d1(2) d2(3)] this _ _ d2(2)] Cons.prems(3,4) d1(1,3) d2(1,4) show ?case
    by (auto simp: gbind_def wrap_err_def simp del: fun_upd_apply upt_Suc)
qed (simp add: gret_def)

lemma run_CreateChord:
  assumes "refines d m" "fresh_ids ids (length headers) m" "headers \<noteq> []" "deps d (ids 0) []"
    and "\<And>t. t \<in> set headers \<Longrightarrow> wf_queue (task_queue_name (default_queue q t)) \<and> spec_ok t" "spec_ok cb" "utf8_ok q"
  shows "\<exists>d' r. CreateChord redis_doc J calm ids now headers cb q d = (Inr (ids 0), d') \<and>
     chord_at J d' r (map ids [1..<Suc (length headers)]) \<and> w_id r = ids 0 \<and> w_callback r = Some (default_queue q cb) \<and>
     w_total r = int (length headers) \<and> refines d' (task_jobs ids now (ids 0) 0 (map (default_queue q) headers) m)"
proof -
  let ?r = "\<lparr>w_id = ids 0, w_type = TypeChord, w_state = ''running'', w_tasks = map (default_queue q) headers,
       w_callback = Some (default_queue q cb), w_current = 0, w_total = int (length headers), w_done = 0, w_queue = q\<rparr>"
  have ref: "refines (save_wf J ?r d) m" using refines_agree [OF assms(1)] by simp
  obtain d' where d': "enqueue_headers redis_doc calm ids now (ids 0) 0 (map (default_queue q) headers) (save_wf J ?r d) = (Inr (), d')"
    "refines d' (task_jobs ids now (ids 0) 0 (map (default_queue q) headers) m)"
    "lookup d' (workflowKey (ids 0)) = lookup (save_wf J ?r d) (workflowKey (ids 0))"
    "deps d' (ids 0) (map ids [1..<Suc (length headers)])"
    using run_enqueue_headers [OF ref fresh_ids_from [OF assms(2)], of "map (default_queue q) headers" "ids 0" now] assms(4,5)
    by (auto simp del: upt_Suc)
  have "CreateChord redis_doc J calm ids now headers cb q d = (Inr (ids 0), d')"
    using assms(3) d'(1) by (simp add: CreateChord_def Let_def gbind_def run_save gret_def)
  moreover have "record_ok ?r" using assms(2,5-7) by (simp add: record_ok_def fresh_ids_def)
  then have "stored J d' ?r" using save_wf_simps(1) [of J ?r d] by (simp add: stored_def d'(3))
  then have "chord_at J d' ?r (map ids [1..<Suc (length headers)])" using d'(4) by (simp add: chord_at_def)
  ultimately show ?thesis using d'(2) by (intro exI [of _ d'] exI [of _ ?r]) simp
qed


section \<open>Properties\<close>

text \<open>
  C25: A group enqueues all its tasks at once and counts their completions. When these are processed one after the
  other, after \<open>CreateGroup\<close> has returned and without faults of the connection, then after k of its n
  tasks have completed its record says k, its state is running for k below n, the n-th completion marks it
  completed, and the completions enqueue nothing more. Two completions that overlap can leave it
  running (\<open>group_completion_can_be_lost\<close>).
\<close>

theorem group_completes_with_last_task:
  assumes "redis_server exec view" "json_codec J" "refines (view s) m" "fresh_ids ids (length tasks) m"
    and "tasks \<noteq> []" "counter (view s) (ids 0) 0" "length js \<le> length tasks"
    and "\<And>t. t \<in> set tasks \<Longrightarrow> wf_queue (task_queue_name (default_queue q t)) \<and> spec_ok t" "utf8_ok q"
  shows "\<exists>s0 r. CreateGroup exec J calm ids now tasks q s = (Inr (ids 0), s0) \<and>
     stored J (view (complete_jobs exec J now (ids 0) js s0)) r \<and> w_id r = ids 0 \<and> w_done r = int (length js) \<and>
     w_state r = (if length js < length tasks then ''running'' else ''completed'') \<and>
     refines (view (complete_jobs exec J now (ids 0) js s0)) (task_jobs ids now (ids 0) 0 (map (default_queue q) tasks) m)"
proof -
  let ?m = "task_jobs ids now (ids 0) 0 (map (default_queue q) tasks) m"
  obtain d0 r0 where d0: "CreateGroup redis_doc J calm ids now tasks q (view s) = (Inr (ids 0), d0)" "group_at J d0 r0 0"
    "w_id r0 = ids 0" "w_total r0 = int (length tasks)" "refines d0 ?m"
    using run_CreateGroup [OF assms(3-6,8,9)] by metis
  then obtain s0 where s0: "CreateGroup exec J calm ids now tasks q s = (Inr (ids 0), s0)" "view s0 = d0"
    using sim_result [OF redis_server.sim_CreateGroup [OF assms(1)]] by metis
  obtain r where r: "group_at J (complete_jobs redis_doc J now (ids 0) js d0) r (length js)" "w_id r = ids 0"
    "w_total r = int (length tasks)" "agree d0 (complete_jobs redis_doc J now (ids 0) js d0)"
    using run_group [OF assms(2) d0(2), of js now] d0(3,4) assms(7) by auto
  have "refines (complete_jobs redis_doc J now (ids 0) js d0) ?m" by (rule refines_agree [OF d0(5) r(4)])
  then show ?thesis
    using s0 r(1-3) unfolding redis_server.sim_complete_jobs [OF assms(1)]
    by (intro exI [of _ s0] exI [of _ r]) (simp add: group_at_def)
qed

theorem group_completes_with_last_task_witness:
  "\<exists>s0 r. CreateGroup redis_doc go_json calm sample_ids 1000 [sample_task ''a'', sample_task ''b''] ''default'' store0 = (Inr (sample_ids 0), s0) \<and>
     stored go_json (complete_jobs redis_doc go_json 1000 (sample_ids 0) [(''c2'', ''u1''), (''c1'', ''u2'')] s0) r \<and>
     w_done r = 2 \<and> w_state r = ''completed''"
proof -
  let ?t = "[sample_task ''a'', sample_task ''b'']" and ?js = "[(''c2'', ''u1''), (''c1'', ''u2'')]"
  have "counter store0 (sample_ids 0) 0" by (simp add: counter_def)
  moreover have "wf_queue (task_queue_name (default_queue ''default'' t)) \<and> spec_ok t" if "t \<in> set ?t" for t
    using that by (auto simp: sample_task_def default_queue_def task_queue_name_def spec_ok_def)
  moreover have "utf8_ok ''default''" by simp
  ultimately obtain s0 r where "CreateGroup redis_doc go_json calm sample_ids 1000 ?t ''default'' store0 = (Inr (sample_ids 0), s0)"
    "stored go_json (id (complete_jobs redis_doc go_json 1000 (sample_ids 0) ?js s0)) r" "w_done r = int (length ?js)"
    "w_state r = (if length ?js < length ?t then ''running'' else ''completed'')"
    using group_completes_with_last_task [OF logical.redis_server_axioms go.json_codec_axioms _ fresh_sample_ids,
        of store0 ?t ?js "''default''" 1000] refines_store0 by auto
  then show ?thesis by auto
qed


lemma run_chord_last:
  assumes "json_codec J" "wf_queue (task_queue_name cb)" "refines d m" "chord_at J d r xs" "w_callback r = Some cb"
    and "\<And>j u. (j, u) \<in> set (js @ [(j', u')]) \<Longrightarrow> wf_id u \<and> m u = None" "\<not> set xs \<subseteq> fst ` set js" "set xs \<subseteq> insert j' (fst ` set js)"
  shows "\<exists>r'. stored J (complete_jobs redis_doc J now (w_id r) (js @ [(j', u')]) d) r' \<and> w_id r' = w_id r \<and> w_state r' = ''completed'' \<and>
     refines (complete_jobs redis_doc J now (w_id r) (js @ [(j', u')]) d) (m(u' \<mapsto> new_job (task_job u' now cb (w_id r)) ''''))"
proof -
  let ?d = "complete_jobs redis_doc J now (w_id r) js d"
  obtain r1 where r1: "chord_at J ?d r1 (filter (\<lambda>x. x \<notin> fst ` set js) xs)" "w_id r1 = w_id r" "w_callback r1 = Some cb" "refines ?d m"
    using run_chord_prefix [OF assms(1-5) _ assms(7), of now] assms(6) by auto
  have "removeAll j' (filter (\<lambda>x. x \<notin> fst ` set js) xs) = []"
    using assms(8) by (auto simp: removeAll_filter_not_eq filter_empty_conv)
  moreover have "wf_id u' \<and> m u' = None" using assms(6) [of j' u'] by simp
  ultimately obtain d' r' where "OnJobCompleted redis_doc J calm u' now (w_id r) j' ?d = (Inr (), d')" "w_id r' = w_id r"
    "stored J d' r'" "w_state r' = ''completed''" "refines d' (m(u' \<mapsto> new_job (task_job u' now cb (w_id r)) ''''))"
    using run_chord_step [OF assms(1) r1(4,1,3) _ _ assms(2), of u' now j'] r1(2) by auto
  then show ?thesis by (auto simp: complete_jobs_def)
qed

text \<open>The headers of a chord complete in the order \<open>hs\<close>; a task enqueued at the k-th completion gets the k-th next identifier.\<close>

definition completions :: "(nat \<Rightarrow> string) \<Rightarrow> string list \<Rightarrow> (string \<times> string) list" where
  "completions ids hs = zip hs (map ids [Suc (length hs)..<Suc (2 * length hs)])"

lemma completions_simps:
  "length (completions ids hs) = length hs"
  "k < length hs \<Longrightarrow> completions ids hs ! k = (hs ! k, ids (Suc (length hs + k)))"
  "fst ` set (take k (completions ids hs)) = set (take k hs)"
proof -
  have l: "length [Suc (length hs)..<Suc (2 * length hs)] = length hs" by (simp only: length_upt)
  show len: "length (completions ids hs) = length hs" unfolding completions_def length_zip length_map l by simp
  show "k < length hs \<Longrightarrow> completions ids hs ! k = (hs ! k, ids (Suc (length hs + k)))"
    unfolding completions_def using l by (simp del: upt_Suc)
  have "map fst (completions ids hs) = hs" unfolding completions_def using l by (simp del: upt_Suc)
  then show "fst ` set (take k (completions ids hs)) = set (take k hs)" by (metis set_map take_map)
qed

lemma completions_fresh:
  assumes "fresh_from ids (length hs) (2 * length hs) m" "(j, u) \<in> set (completions ids hs)"
  shows "wf_id u \<and> m u = None"
  using assms(2) fresh_fromD [OF assms(1)] by (auto simp: completions_def dest!: set_zip_rightD simp del: upt_Suc)

lemma completions_split:
  assumes "distinct hs" "Suc n = length hs"
  shows "completions ids hs = take n (completions ids hs) @ [(hs ! n, ids (2 * Suc n))]" "hs ! n \<notin> set (take n hs)"
    "set hs = insert (hs ! n) (set (take n hs))"
proof -
  have "Suc (length hs + n) = 2 * Suc n" using assms(2) by simp
  then have "completions ids hs ! n = (hs ! n, ids (2 * Suc n))"
    using completions_simps(2) [of n hs ids] assms(2) by (simp only: lessI)
  then show "completions ids hs = take n (completions ids hs) @ [(hs ! n, ids (2 * Suc n))]"
    using take_Suc_conv_app_nth [of n "completions ids hs"] completions_simps(1) [of ids hs] assms(2) by simp
  have hs: "take n hs @ [hs ! n] = hs" using take_Suc_conv_app_nth [of n hs] assms(2) by simp
  have "distinct (take n hs @ [hs ! n])" "set (take n hs @ [hs ! n]) = set hs" using assms(1) by (simp_all only: hs)
  then show "hs ! n \<notin> set (take n hs)" "set hs = insert (hs ! n) (set (take n hs))" by auto
qed


lemma run_chord_completions:
  assumes "json_codec J" "wf_queue (task_queue_name cb)" "refines d m" "chord_at J d r xs" "w_callback r = Some cb"
    and "fresh_from ids (length hs) (2 * length hs) m" "distinct hs" "set hs = set xs" "Suc n = length hs"
  shows "k \<le> n \<Longrightarrow> refines (complete_jobs redis_doc J now (w_id r) (take k (completions ids hs)) d) m"
    "\<exists>r'. stored J (complete_jobs redis_doc J now (w_id r) (completions ids hs) d) r' \<and> w_id r' = w_id r \<and> w_state r' = ''completed'' \<and>
       refines (complete_jobs redis_doc J now (w_id r) (completions ids hs) d)
         (m(ids (2 * Suc n) \<mapsto> new_job (task_job (ids (2 * Suc n)) now cb (w_id r)) ''''))"
proof -
  note split = completions_split(1) [OF assms(7,9), of ids] completions_split(2,3) [OF assms(7,9)]
  have u: "wf_id u \<and> m u = None" if "(j, u) \<in> set (completions ids hs)" for j u by (rule completions_fresh [OF assms(6) that])
  have open_deps: "\<not> set xs \<subseteq> fst ` set (take k (completions ids hs))" if "k \<le> n" for k
    using split(2,3) that set_take_subset_set_take [of k n hs] unfolding completions_simps(3) assms(8) by auto
  have ut: "wf_id u \<and> m u = None" if "(j, u) \<in> set (take k (completions ids hs))" for j u k using u in_set_takeD [OF that] by blast
  show "refines (complete_jobs redis_doc J now (w_id r) (take k (completions ids hs)) d) m" if "k \<le> n"
    using run_chord_prefix [OF assms(1-5) _ open_deps [OF that], where now = now] ut by blast
  have "set xs \<subseteq> insert (hs ! n) (fst ` set (take n (completions ids hs)))"
    using split(3) unfolding completions_simps(3) assms(8) by simp
  from run_chord_last [OF assms(1-5) _ open_deps [OF order_refl] this, where now = now and u' = "ids (2 * Suc n)"] u
  show "\<exists>r'. stored J (complete_jobs redis_doc J now (w_id r) (completions ids hs) d) r' \<and> w_id r' = w_id r \<and> w_state r' = ''completed'' \<and>
       refines (complete_jobs redis_doc J now (w_id r) (completions ids hs) d)
         (m(ids (2 * Suc n) \<mapsto> new_job (task_job (ids (2 * Suc n)) now cb (w_id r)) ''''))"
    unfolding split(1) [symmetric] by blast
qed

text \<open>
  C24: A chord whose completions are processed one after the other, after \<open>CreateChord\<close> has returned and without
  faults of the connection, enqueues its callback exactly once, after its last header: whatever the order
  \<open>hs\<close> in which the headers complete, before the last completion the jobs are the headers alone, the
  last completion adds the callback as one job and marks the workflow completed, and later
  completions, the callback's own among them, change nothing. A header that completes while
  \<open>CreateChord\<close> is still running can fire it early, as is shown below.
\<close>

theorem chord_fires_callback_once:
  assumes "redis_server exec view" "json_codec J" "refines (view s) m" "fresh_ids ids (2 * length headers) m"
    and "headers \<noteq> []" "deps (view s) (ids 0) []" "distinct hs" "set hs = ids ` {1..length headers}"
    and "\<And>t. t \<in> set headers \<Longrightarrow> wf_queue (task_queue_name (default_queue q t)) \<and> spec_ok t"
    and "wf_queue (task_queue_name (default_queue q cb))" "spec_ok cb" "utf8_ok q"
  shows "\<exists>s0 r. CreateChord exec J calm ids now headers cb q s = (Inr (ids 0), s0) \<and>
     (\<forall>k<length headers. refines (view (complete_jobs exec J now (ids 0) (take k (completions ids hs)) s0))
        (task_jobs ids now (ids 0) 0 (map (default_queue q) headers) m)) \<and>
     refines (view (complete_jobs exec J now (ids 0) (completions ids hs) s0))
       ((task_jobs ids now (ids 0) 0 (map (default_queue q) headers) m)(ids (2 * length headers) \<mapsto>
          new_job (task_job (ids (2 * length headers)) now (default_queue q cb) (ids 0)) '''')) \<and>
     stored J (view (complete_jobs exec J now (ids 0) (completions ids hs) s0)) r \<and> w_id r = ids 0 \<and> w_state r = ''completed'' \<and>
     (\<forall>u j. view (snd (OnJobCompleted exec J calm u now (ids 0) j (complete_jobs exec J now (ids 0) (completions ids hs) s0))) =
        view (complete_jobs exec J now (ids 0) (completions ids hs) s0))"
proof -
  let ?n = "length headers" and ?m = "task_jobs ids now (ids 0) 0 (map (default_queue q) headers) m"
  have "inj_on ids {..?n}" using assms(4) by (auto simp: fresh_ids_def intro: inj_on_subset)
  then have f: "fresh_ids ids ?n m" using assms(4) by (auto simp: fresh_ids_def)
  obtain d0 r0 where d0: "CreateChord redis_doc J calm ids now headers cb q (view s) = (Inr (ids 0), d0)"
    "chord_at J d0 r0 (map ids [1..<Suc ?n])" "w_id r0 = ids 0" "w_callback r0 = Some (default_queue q cb)" "refines d0 ?m"
    using run_CreateChord [OF assms(3) f assms(5,6,9,11,12)] by metis
  obtain s0 where s0: "CreateChord exec J calm ids now headers cb q s = (Inr (ids 0), s0)" "view s0 = d0"
    using d0(1) sim_result [OF redis_server.sim_CreateChord [OF assms(1)]] by metis
  have hs: "set hs = set (map ids [1..<Suc ?n])" unfolding assms(8) by (auto simp del: upt_Suc)
  have "card (ids ` {1..?n}) = ?n" using f by (subst card_image) (auto simp: fresh_ids_def intro: inj_on_subset)
  then have len: "length hs = ?n" using distinct_card [OF assms(7)] assms(8) by simp
  have fresh: "fresh_from ids (length hs) (2 * length hs) ?m"
    using fresh_task_jobs [OF fresh_ids_from [OF assms(4)], of "map (default_queue q) headers" now "ids 0"] len by simp
  obtain n where n: "Suc n = length hs" using assms(5) len by (cases headers) auto
  note run = run_chord_completions [OF assms(2,10) d0(5,2,4) fresh assms(7) hs n, where now = now, unfolded d0(3)]
  obtain r where r: "stored J (complete_jobs redis_doc J now (ids 0) (completions ids hs) d0) r" "w_id r = ids 0" "w_state r = ''completed''"
    "refines (complete_jobs redis_doc J now (ids 0) (completions ids hs) d0)
       (?m(ids (2 * ?n) \<mapsto> new_job (task_job (ids (2 * ?n)) now (default_queue q cb) (ids 0)) ''''))"
    using run(2) n len by auto
  note sim = redis_server.sim_complete_jobs [OF assms(1)] sim_snd [OF redis_server.sim_OnJobCompleted [OF assms(1)]]
  have "\<forall>k<?n. refines (view (complete_jobs exec J now (ids 0) (take k (completions ids hs)) s0)) ?m"
    using run(1) n len by (simp add: sim s0(2))
  then show ?thesis
    using s0(1) r run_finished [OF assms(2) r(1)]
    by (intro exI [of _ s0] exI [of _ r]) (simp add: sim s0(2))
qed


lemma wf_sample_task [simp]:
  "wf_queue (task_queue_name (default_queue ''default'' (sample_task k)))"
  by (simp add: sample_task_def default_queue_def task_queue_name_def)

theorem chord_fires_callback_once_witness:
  "\<exists>s0 r. CreateChord redis_doc go_json calm sample_ids 1000 [sample_task ''a'', sample_task ''b''] (sample_task ''z'') ''default'' store0 =
       (Inr (sample_ids 0), s0) \<and>
     stored go_json (complete_jobs redis_doc go_json 1000 (sample_ids 0) (completions sample_ids [sample_ids 2, sample_ids 1]) s0) r \<and>
     w_state r = ''completed''"
proof -
  let ?t = "[sample_task ''a'', sample_task ''b'']"
  have "{1..length ?t} = {1, 2}" by (auto simp: eval_nat_numeral)
  then have hs: "set [sample_ids 2, sample_ids 1] = sample_ids ` {1..length ?t}" by auto
  have d: "distinct [sample_ids 2, sample_ids 1]" by (simp add: sample_ids_def)
  have st: "refines (id store0) Map.empty" "deps (id store0) (sample_ids 0) []" "?t \<noteq> []"
    using refines_store0 by (simp_all add: deps_def)
  have ok: "spec_ok (sample_task k)" if "utf8_ok k" for k using that by (simp add: spec_ok_def sample_task_def)
  have q: "wf_queue (task_queue_name (default_queue ''default'' t)) \<and> spec_ok t" if "t \<in> set ?t" for t using that ok by auto
  have z: "spec_ok (sample_task ''z'')" "utf8_ok ''default''" using ok [of "''z''"] by simp_all
  from chord_fires_callback_once [OF logical.redis_server_axioms go.json_codec_axioms st(1) fresh_sample_ids st(3,2) d hs q
      wf_sample_task z, of 1000]
  show ?thesis unfolding id_apply by blast
qed

section \<open>Failure\<close>

lemma run_fail:
  assumes "json_codec J" "stored J d r"
  shows "OnJobFailed redis_doc J calm (w_id r) d = (Inr (), save_wf J (r\<lparr>w_state := ''failed''\<rparr>) d)"
  using run_load [OF assms refl] by (simp add: OnJobFailed_def gbind_def run_save)

text \<open>
  C26: A failed task stops its workflow: once a job has exhausted its retries the record says failed, and
  completions of the other tasks neither advance it nor enqueue a job: a chain enqueues no further
  step and a chord never fires its callback.
\<close>

theorem failed_workflow_stops:
  assumes "redis_server exec view" "json_codec J" "refines (view s) m" "stored J (view s) r"
  shows "\<exists>s'. OnJobFailed exec J calm (w_id r) s = (Inr (), s') \<and> stored J (view s') (r\<lparr>w_state := ''failed''\<rparr>) \<and> refines (view s') m \<and>
     view (complete_jobs exec J now (w_id r) js s') = view s'"
proof -
  let ?r = "r\<lparr>w_state := ''failed''\<rparr>"
  obtain s' where s': "OnJobFailed exec J calm (w_id r) s = (Inr (), s')" "view s' = save_wf J ?r (view s)"
    using sim_result [OF redis_server.sim_OnJobFailed [OF assms(1)]] run_fail [OF assms(2,4)] by metis
  have st: "stored J (save_wf J ?r (view s)) ?r" using stored_ok [OF assms(4)] by simp
  have "complete_jobs redis_doc J now (w_id r) js (save_wf J ?r (view s)) = save_wf J ?r (view s)"
    using run_finished [OF assms(2) st] by (induction js) (auto simp: complete_jobs_def)
  moreover have "refines (save_wf J ?r (view s)) m" using refines_agree [OF assms(3)] by simp
  moreover note st
  ultimately show ?thesis
    using s' by (intro exI [of _ s']) (simp add: redis_server.sim_complete_jobs [OF assms(1)])
qed

definition sample_chain :: WRecord where
  "sample_chain = \<lparr>w_id = ''wf'', w_type = TypeChain, w_state = ''running'', w_tasks = [sample_task ''a'', sample_task ''b''], w_callback = None,
     w_current = 0, w_total = 2, w_done = 0, w_queue = ''default''\<rparr>"

lemma sample_chain_ok [simp]: "record_ok sample_chain" "w_id sample_chain = ''wf''" "w_type sample_chain = TypeChain"
  by (simp_all add: record_ok_def spec_ok_def sample_chain_def sample_task_def)

theorem failed_workflow_stops_witness:
  "\<exists>s'. OnJobFailed redis_doc go_json calm ''wf'' (save_wf go_json sample_chain store0) = (Inr (), s') \<and>
     stored go_json s' (sample_chain\<lparr>w_state := ''failed''\<rparr>) \<and> complete_jobs redis_doc go_json 5 ''wf'' [(''j'', ''u'')] s' = s'"
proof -
  have "refines (save_wf go_json sample_chain store0) Map.empty" using refines_agree [OF refines_store0] by simp
  from failed_workflow_stops [OF logical.redis_server_axioms go.json_codec_axioms, of "save_wf go_json sample_chain store0", simplified id_apply, OF this, of sample_chain]
  show ?thesis by auto
qed

section \<open>What separate calls leave open\<close>

text \<open>
  The completion of a group can be lost. When the last two tasks complete at the same time, both
  completions load the record and increment the counter, and the one that was counted first may save
  last: the record then says running although every task is counted, and it stays so until a further
  completion arrives.
\<close>

lemma group_completion_can_be_lost:
  assumes "redis_server exec view" "json_codec J" "stored J (view s) r" "counter (view s) (w_id r) 0"
    and "w_total r = 2" "w_type r = TypeGroup" "w_state r = ''running''"
  shows "\<exists>s1 s2 s3 s4. incr_counter exec ''winter: group advance'' NoFault (w_id r) s = (Inr 1, s1) \<and>
     incr_counter exec ''winter: group advance'' NoFault (w_id r) s1 = (Inr 2, s2) \<and>
     saveRecord exec J NoFault (r\<lparr>w_done := 2, w_state := ''completed''\<rparr>) s2 = (Inr (), s3) \<and>
     saveRecord exec J NoFault (r\<lparr>w_done := 1\<rparr>) s3 = (Inr (), s4) \<and>
     stored J (view s4) (r\<lparr>w_done := 1\<rparr>) \<and> counter (view s4) (w_id r) 2"
proof -
  note sim = sim_result [OF redis_server.sim_incr_counter [OF assms(1)]] sim_result [OF redis_server.sim_saveRecord [OF assms(1)]]
  let ?incr = "incr_counter redis_doc ''winter: group advance'' NoFault (w_id r)"
  obtain d1 where d1: "?incr (view s) = (Inr 1, d1)" "counter d1 (w_id r) 1"
    using run_incr [OF assms(4), of "''winter: group advance''"] by auto
  obtain d2 where d2: "?incr d1 = (Inr 2, d2)" "counter d2 (w_id r) 2"
    using run_incr [OF d1(2), of "''winter: group advance''"] by auto
  obtain s1 where s1: "incr_counter exec ''winter: group advance'' NoFault (w_id r) s = (Inr 1, s1)" "view s1 = d1"
    using sim(1) [OF d1(1)] by blast
  obtain s2 where s2: "incr_counter exec ''winter: group advance'' NoFault (w_id r) s1 = (Inr 2, s2)" "view s2 = d2"
    using sim(1) [of "''winter: group advance''" NoFault "w_id r" s1] d2(1) s1(2) by metis
  obtain s3 where s3: "saveRecord exec J NoFault (r\<lparr>w_done := 2, w_state := ''completed''\<rparr>) s2 = (Inr (), s3)"
    "view s3 = save_wf J (r\<lparr>w_done := 2, w_state := ''completed''\<rparr>) d2"
    using sim(2) [OF run_save] s2(2) by metis
  obtain s4 where s4: "saveRecord exec J NoFault (r\<lparr>w_done := 1\<rparr>) s3 = (Inr (), s4)" "view s4 = save_wf J (r\<lparr>w_done := 1\<rparr>) (view s3)"
    using sim(2) [OF run_save] by metis
  show ?thesis
    using s1 s2 s3 s4 d2(2) save_wf_simps(1) [of J "r\<lparr>w_done := 1\<rparr>" "view s3"] stored_ok [OF assms(3)] by auto
qed


definition sample_group :: WRecord where
  "sample_group = sample_chain\<lparr>w_type := TypeGroup\<rparr>"

text \<open>
  C40: A chord can fire before its headers. Its headers are enqueued and added to the set of open jobs
  one after the other; when the first one completes before the second is added, the set is empty, and
  the callback is enqueued although the second header has not even been enqueued.
\<close>

theorem chord_can_fire_early:
  assumes "redis_server exec view" "json_codec J" "refines (view s) m" "fresh_ids ids 3 m" "deps (view s) (ids 0) []"
    and "wf_queue (task_queue_name h1)" "wf_queue (task_queue_name cb)"
    and "r = \<lparr>w_id = ids 0, w_type = TypeChord, w_state = ''running'', w_tasks = [h1, h2], w_callback = Some cb,
       w_current = 0, w_total = 2, w_done = 0, w_queue = q\<rparr>" "record_ok r"
  shows "\<exists>s1 s2 s3. saveRecord exec J NoFault r s = (Inr (), s1) \<and> enqueue_headers exec calm ids now (ids 0) 0 [h1] s1 = (Inr (), s2) \<and>
     OnJobCompleted exec J calm (ids 3) now (ids 0) (ids 1) s2 = (Inr (), s3) \<and>
     refines (view s3) (m(ids 1 \<mapsto> new_job (task_job (ids 1) now h1 (ids 0)) '''',
       ids 3 \<mapsto> new_job (task_job (ids 3) now cb (ids 0)) '''')) \<and>
     (m(ids 1 \<mapsto> new_job (task_job (ids 1) now h1 (ids 0)) '''', ids 3 \<mapsto> new_job (task_job (ids 3) now cb (ids 0)) '''')) (ids 2) = None"
proof -
  let ?d1 = "save_wf J r (view s)" and ?m1 = "m(ids 1 \<mapsto> new_job (task_job (ids 1) now h1 (ids 0)) '''')"
  have id: "w_id r = ids 0" by (simp add: assms(8))
  obtain s1 where s1: "saveRecord exec J NoFault r s = (Inr (), s1)" "view s1 = ?d1"
    using sim_result [OF redis_server.sim_saveRecord [OF assms(1)] run_save] by metis
  have ne: "ids 2 \<noteq> ids 1" "ids 2 \<noteq> ids 3" "ids 3 \<noteq> ids 1"
    using assms(4) inj_onD [of ids "{..3}" 2 1] inj_onD [of ids "{..3}" 2 3] inj_onD [of ids "{..3}" 3 1] by (auto simp: fresh_ids_def)
  have fr: "wf_id (ids 3)" "m (ids 3) = None" "m (ids 2) = None" using assms(4) by (auto simp: fresh_ids_def)
  have ref: "refines ?d1 m" using refines_agree [OF assms(3)] by simp
  obtain d2 where d2: "enqueue_headers redis_doc calm ids now (ids 0) 0 [h1] ?d1 = (Inr (), d2)" "refines d2 ?m1"
    "deps d2 (ids 0) [ids 1]" "lookup d2 (workflowKey (ids 0)) = lookup ?d1 (workflowKey (ids 0))"
    using run_enqueue_headers [OF ref fresh_ids_from [OF assms(4)], of "[h1]" "ids 0" now] assms(5,6) id by (auto simp del: fun_upd_apply)
  obtain s2 where s2: "enqueue_headers exec calm ids now (ids 0) 0 [h1] s1 = (Inr (), s2)" "view s2 = d2"
    using sim_result [OF redis_server.sim_enqueue_headers [OF assms(1)]] d2(1) s1(2) by metis
  have "chord_at J d2 r [ids 1]" using d2(3,4) save_wf_simps(1) [of J r "view s"] assms(9) by (simp add: chord_at_def stored_def id) (simp add: assms(8))
  then obtain d3 where "OnJobCompleted redis_doc J calm (ids 3) now (ids 0) (ids 1) d2 = (Inr (), d3)"
    "refines d3 (?m1(ids 3 \<mapsto> new_job (task_job (ids 3) now cb (ids 0)) ''''))"
    using run_chord_step [OF assms(2) d2(2) _ _ fr(1) _ assms(7), of r "[ids 1]" now "ids 1"] ne fr(2) id by (auto simp: assms(8))
  moreover from this obtain s3 where "OnJobCompleted exec J calm (ids 3) now (ids 0) (ids 1) s2 = (Inr (), s3)" "view s3 = d3"
    using sim_result [OF redis_server.sim_OnJobCompleted [OF assms(1)]] s2(2) by metis
  ultimately show ?thesis using s1(1) s2(1) ne fr(3) by auto
qed

theorem chord_can_fire_early_witness:
  "\<exists>s1 s2 s3. saveRecord redis_doc go_json NoFault (sample_chain\<lparr>w_id := sample_ids 0, w_type := TypeChord, w_callback := Some (sample_task ''z'')\<rparr>) store0 =
       (Inr (), s1) \<and> enqueue_headers redis_doc calm sample_ids 7 (sample_ids 0) 0 [sample_task ''a''] s1 = (Inr (), s2) \<and>
     OnJobCompleted redis_doc go_json calm (sample_ids 3) 7 (sample_ids 0) (sample_ids 1) s2 = (Inr (), s3)"
proof -
  have st: "refines (id store0) Map.empty" "deps (id store0) (sample_ids 0) []" using refines_store0 by (simp_all add: deps_def)
  have q: "wf_queue (task_queue_name (sample_task k))" for k by (simp add: task_queue_name_def sample_task_def)
  have "sample_chain\<lparr>w_id := sample_ids 0, w_type := TypeChord, w_callback := Some (sample_task ''z'')\<rparr> =
    \<lparr>w_id = sample_ids 0, w_type = TypeChord, w_state = ''running'', w_tasks = [sample_task ''a'', sample_task ''b''],
      w_callback = Some (sample_task ''z''), w_current = 0, w_total = 2, w_done = 0, w_queue = ''default''\<rparr>"
    by (simp add: sample_chain_def)
  moreover have ok: "record_ok (sample_chain\<lparr>w_id := sample_ids 0, w_type := TypeChord, w_callback := Some (sample_task ''z'')\<rparr>)"
    by (simp add: record_ok_def spec_ok_def sample_chain_def sample_task_def sample_ids_def)
  ultimately show ?thesis
    using chord_can_fire_early [OF logical.redis_server_axioms go.json_codec_axioms st(1) fresh_sample_ids st(2) q q, where now = 7]
    by (metis (no_types, lifting))
qed

end
