(* ===== verification/Workflow_Api.thy ===== *)
theory Workflow_Api
  imports Client Workflow_Group
begin

text \<open>
  \<^verbatim>\<open>workflow.go\<close>: the client functions that create chains, groups and chords from typed tasks.
  The task options and the enqueue options give the task specifications; the rest is the manager of
  \<^verbatim>\<open>internal/workflow\<close>. \<open>optNow\<close> is the clock that the option \<open>In\<close> reads.
\<close>

definition task_spec :: "insertOpts \<Rightarrow> Task \<Rightarrow> string \<Rightarrow> TaskSpec" where
  "task_spec o' t payload =
     \<lparr>ts_kind = t_kind t, ts_payload = payload, ts_queue = task_queue t (io_queue o'), ts_priority = io_priority o',
      ts_maxRetries = task_maxRetries t\<rparr>"

fun specs_from :: "insertOpts \<Rightarrow> nat \<Rightarrow> Task list \<Rightarrow> qerr + TaskSpec list" where
  "specs_from o' i [] = Inr []"
| "specs_from o' i (t # ts) =
     (case t_json t of
        Inl e \<Rightarrow> Inl (Wrapped (''winter: marshal task['' @ itoa (int i) @ '']'') e)
      | Inr payload \<Rightarrow>
          (case specs_from o' (Suc i) ts of Inl e \<Rightarrow> Inl e | Inr specs \<Rightarrow> Inr (task_spec o' t payload # specs)))"

definition tasksToSpecs :: "Task list \<Rightarrow> insertOpts \<Rightarrow> qerr + TaskSpec list" where
  "tasksToSpecs tasks o' = specs_from o' 0 tasks"

definition Chain :: "'s server \<Rightarrow> json \<Rightarrow> (nat \<Rightarrow> fault) \<Rightarrow> (nat \<Rightarrow> string) \<Rightarrow> int \<Rightarrow> int \<Rightarrow> Task list \<Rightarrow> EnqueueOption list \<Rightarrow>
    's \<Rightarrow> (werr + string) \<times> 's" where
  "Chain exec J F ids optNow nowMs tasks opts =
     (if tasks = [] then gfail (WErr (Plain ''winter: chain requires at least one task''))
      else let o' = apply_opts optNow opts default_opts
           in case tasksToSpecs tasks o' of
                Inl e \<Rightarrow> gfail (WErr e)
              | Inr specs \<Rightarrow> CreateChain exec J F ids nowMs specs (io_queue o'))"

definition Group :: "'s server \<Rightarrow> json \<Rightarrow> (nat \<Rightarrow> fault) \<Rightarrow> (nat \<Rightarrow> string) \<Rightarrow> int \<Rightarrow> int \<Rightarrow> Task list \<Rightarrow> EnqueueOption list \<Rightarrow>
    's \<Rightarrow> (werr + string) \<times> 's" where
  "Group exec J F ids optNow nowMs tasks opts =
     (if tasks = [] then gfail (WErr (Plain ''winter: group requires at least one task''))
      else let o' = apply_opts optNow opts default_opts
           in case tasksToSpecs tasks o' of
                Inl e \<Rightarrow> gfail (WErr e)
              | Inr specs \<Rightarrow> CreateGroup exec J F ids nowMs specs (io_queue o'))"

definition callback_spec :: "insertOpts \<Rightarrow> Task \<Rightarrow> string \<Rightarrow> TaskSpec" where
  "callback_spec o' t payload =
     \<lparr>ts_kind = t_kind t, ts_payload = payload, ts_queue = task_queue t (io_queue o'), ts_priority = 0,
      ts_maxRetries = (case t_options t of Some to' \<Rightarrow> if to_maxRetries to' > 0 then to_maxRetries to' else 0 | None \<Rightarrow> 0)\<rparr>"

definition Chord :: "'s server \<Rightarrow> json \<Rightarrow> (nat \<Rightarrow> fault) \<Rightarrow> (nat \<Rightarrow> string) \<Rightarrow> int \<Rightarrow> int \<Rightarrow> Task list \<Rightarrow> Task \<Rightarrow> EnqueueOption list \<Rightarrow>
    's \<Rightarrow> (werr + string) \<times> 's" where
  "Chord exec J F ids optNow nowMs headers callback opts =
     (if headers = [] then gfail (WErr (Plain ''winter: chord requires at least one header task''))
      else let o' = apply_opts optNow opts default_opts
           in case tasksToSpecs headers o' of
                Inl e \<Rightarrow> gfail (WErr e)
              | Inr specs \<Rightarrow>
                  (case t_json callback of
                     Inl e \<Rightarrow> gfail (WErr (Wrapped ''winter: marshal callback'' e))
                   | Inr payload \<Rightarrow> CreateChord exec J F ids nowMs specs (callback_spec o' callback payload) (io_queue o')))"

section \<open>Task specifications\<close>

lemma specs_from_ok:
  assumes "\<And>t. t \<in> set ts \<Longrightarrow> t_json t = Inr (payload t)"
  shows "specs_from o' i ts = Inr (map (\<lambda>t. task_spec o' t (payload t)) ts)"
  using assms by (induction ts arbitrary: i) auto

lemma specs_from_err: "t \<in> set ts \<Longrightarrow> t_json t = Inl e \<Longrightarrow> \<exists>e'. specs_from o' i ts = Inl e'"
proof (induction ts arbitrary: i)
  case (Cons a ts)
  show ?case
  proof (cases "t_json a")
    case (Inr p)
    with Cons.prems have "t \<in> set ts" by auto
    then obtain e' where "specs_from o' (Suc i) ts = Inl e'" using Cons.IH Cons.prems(2) by blast
    with Inr show ?thesis by simp
  qed simp
qed simp

text \<open>
  A chain of typed tasks starts with exactly its first task: the workflow is created with one
  specification per task, in order, each with the queue of the task or else of the options, the
  priority of the options and the task's retry limit, and only the first is enqueued; a task that
  cannot be marshalled creates nothing.
\<close>

lemma Chain_starts_first_task:
  assumes "redis_server exec view" "refines (view s) m" "tasks \<noteq> []" "counter (view s) (ids 0) 0" "fresh_ids ids 1 m"
    and "o' = apply_opts optNow opts default_opts" "\<And>t. t \<in> set tasks \<Longrightarrow> task_queue t (io_queue o') \<noteq> '''' \<and> wf_queue (task_queue t (io_queue o')) \<and> utf8_ok (task_queue t (io_queue o')) \<and> utf8_ok (t_kind t)" "utf8_ok (io_queue o')"
  shows "if \<exists>t\<in>set tasks. \<exists>e. t_json t = Inl e
     then \<exists>e. Chain exec J calm ids optNow nowMs tasks opts s = (Inl (WErr e), s)
     else \<exists>s' r. Chain exec J calm ids optNow nowMs tasks opts s = (Inr (ids 0), s') \<and> stored J (view s') r \<and> w_id r = ids 0 \<and>
       w_tasks r = map (\<lambda>t. task_spec o' t (projr (t_json t))) tasks \<and>
       refines (view s') (m(ids 1 \<mapsto> new_job (task_job (ids 1) nowMs (task_spec o' (hd tasks) (projr (t_json (hd tasks)))) (ids 0)) ''''))"
proof (cases "\<exists>t\<in>set tasks. \<exists>e. t_json t = Inl e")
  case True
  then obtain e where "specs_from o' 0 tasks = Inl e" using specs_from_err by metis
  with True show ?thesis using assms(3,6) by (auto simp: Chain_def tasksToSpecs_def Let_def gfail_def)
next
  case False
  let ?specs = "map (\<lambda>t. task_spec o' t (projr (t_json t))) tasks"
  let ?r = "\<lparr>w_id = ids 0, w_type = TypeChain, w_state = ''running'', w_tasks = ?specs, w_callback = None,
       w_current = 0, w_total = int (length ?specs), w_done = 0, w_queue = io_queue o'\<rparr>"
  have "t_json t = Inr (projr (t_json t))" if "t \<in> set tasks" for t using False that by (cases "t_json t") auto
  then have specs: "tasksToSpecs tasks o' = Inr ?specs" unfolding tasksToSpecs_def by (rule specs_from_ok)
  have q: "ts_queue t \<noteq> '''' \<and> wf_queue (ts_queue t) \<and> spec_ok t" if "t \<in> set ?specs" for t using that assms(7) by (auto simp: task_spec_def spec_ok_def)
  have ne: "?specs \<noteq> []" using assms(3) by simp
  obtain d' where d': "CreateChain redis_doc J calm ids nowMs ?specs (io_queue o') (view s) = (Inr (ids 0), d')"
    "chain_at J d' ?r 0"
    "refines d' (chain_jobs ids nowMs ?specs 0 m)"
    using run_CreateChain [OF assms(2,5) order_refl ne assms(4) q refl assms(8), of J nowMs] by blast
  obtain s' where "CreateChain exec J calm ids nowMs ?specs (io_queue o') s = (Inr (ids 0), s')" "view s' = d'"
    using sim_result [OF redis_server.sim_CreateChain [OF assms(1)] d'(1)] by blast
  moreover have "Chain exec J calm ids optNow nowMs tasks opts = CreateChain exec J calm ids nowMs ?specs (io_queue o')"
    using assms(3,6) specs by (simp add: Chain_def Let_def)
  moreover have "chain_jobs ids nowMs ?specs 0 m =
      m(ids 1 \<mapsto> new_job (task_job (ids 1) nowMs (task_spec o' (hd tasks) (projr (t_json (hd tasks)))) (ids 0)) '''')"
    using assms(3) by (simp add: hd_conv_nth del: fun_upd_apply)
  ultimately have "Chain exec J calm ids optNow nowMs tasks opts s = (Inr (ids 0), s')" "stored J (view s') ?r"
      "refines (view s') (m(ids 1 \<mapsto> new_job (task_job (ids 1) nowMs (task_spec o' (hd tasks) (projr (t_json (hd tasks)))) (ids 0)) ''''))"
    using d'(2,3) by (simp_all add: chain_at_def del: fun_upd_apply)
  then show ?thesis unfolding if_not_P [OF False] by (intro exI [of _ s'] exI [of _ ?r] conjI) simp_all
qed

end
