(* ===== verification/Recovery.thy ===== *)
theory Recovery
  imports Queue_Inspect
begin

text \<open>
  \<^verbatim>\<open>internal/worker/recovery.go\<close>: the sweep that makes jobs with an expired lease ready again.
  \<open>Run\<close> is the sequence of sweeps at the ticks of its timer; \<open>cancelled\<close> is whether the context of
  a sweep has ended. The i-th queue of a sweep meets the i-th fault.
\<close>

record RecoveryConfig =
  rc_interval :: int
  rc_queues :: "string list"
  rc_limit :: int

definition NewRecovery :: "RecoveryConfig \<Rightarrow> RecoveryConfig" where
  "NewRecovery cfg =
     cfg\<lparr>rc_interval := (if rc_interval cfg \<le> 0 then 30 * 1000000000 else rc_interval cfg),
         rc_limit := (if rc_limit cfg \<le> 0 then 100 else rc_limit cfg)\<rparr>"

datatype sweep_log = SweepError string qerr | Recovered string "string list"

fun sweep_queues :: "'s server \<Rightarrow> (nat \<Rightarrow> fault) \<Rightarrow> bool \<Rightarrow> int \<Rightarrow> int \<Rightarrow> nat \<Rightarrow> string list \<Rightarrow> 's \<Rightarrow> sweep_log list \<times> 's" where
  "sweep_queues exec F cancelled now limit i [] s = ([], s)"
| "sweep_queues exec F cancelled now limit i (q # qs) s =
     (case RecoverExpiredLeases exec (F i) now q limit s of
        (Inl e, s1) \<Rightarrow>
          if cancelled then ([], s1)
          else (case sweep_queues exec F cancelled now limit (Suc i) qs s1 of (ls, s2) \<Rightarrow> (SweepError q e # ls, s2))
      | (Inr recovered, s1) \<Rightarrow>
          (case sweep_queues exec F cancelled now limit (Suc i) qs s1 of
             (ls, s2) \<Rightarrow> (if recovered \<noteq> [] then Recovered q recovered # ls else ls, s2)))"

definition sweep :: "'s server \<Rightarrow> (nat \<Rightarrow> fault) \<Rightarrow> bool \<Rightarrow> int \<Rightarrow> RecoveryConfig \<Rightarrow> 's \<Rightarrow> sweep_log list \<times> 's" where
  "sweep exec F cancelled now cfg = sweep_queues exec F cancelled now (rc_limit cfg) 0 (rc_queues cfg)"

text \<open>\<open>Run\<close>: one sweep per tick that the loop sees before it sees the cancelled context; each comes with its
  time and whether the context is cancelled during it.\<close>

fun recovery_Run :: "'s server \<Rightarrow> (nat \<Rightarrow> nat \<Rightarrow> fault) \<Rightarrow> nat \<Rightarrow> RecoveryConfig \<Rightarrow> (int \<times> bool) list \<Rightarrow> 's \<Rightarrow> sweep_log list \<times> 's" where
  "recovery_Run exec F n cfg [] s = ([], s)"
| "recovery_Run exec F n cfg ((now, cancelled) # ticks) s =
     (case sweep exec (F n) cancelled now cfg s of
        (ls, s1) \<Rightarrow> (case recovery_Run exec F (Suc n) cfg ticks s1 of (ls', s2) \<Rightarrow> (ls @ ls', s2)))"

section \<open>A sweep is a run of the queue\<close>

lemma sweep_queues_steps:
  assumes "\<And>q. q \<in> set qs \<Longrightarrow> wf_queue q"
  shows "(qstep exec view)\<^sup>*\<^sup>* s (snd (sweep_queues exec F cancelled now limit i qs s))"
  using assms
proof (induction qs arbitrary: i s)
  case (Cons q qs)
  obtain r s1 where r: "RecoverExpiredLeases exec (F i) now q limit s = (r, s1)" by fastforce
  have "qstep exec view s s1" using qstep.q_recover [of q exec view s "F i" now limit] Cons.prems r by simp
  with Cons.IH [of s1 "Suc i"] Cons.prems show ?case
    by (auto simp: r split: sum.splits prod.splits intro: converse_rtranclp_into_rtranclp)
qed simp

lemma sweep_steps:
  assumes "\<And>q. q \<in> set (rc_queues cfg) \<Longrightarrow> wf_queue q"
  shows "(qstep exec view)\<^sup>*\<^sup>* s (snd (sweep exec F cancelled now cfg s))"
  unfolding sweep_def by (rule sweep_queues_steps) (use assms in blast)

lemma recovery_Run_steps:
  assumes "\<And>q. q \<in> set (rc_queues cfg) \<Longrightarrow> wf_queue q"
  shows "(qstep exec view)\<^sup>*\<^sup>* s (snd (recovery_Run exec F n cfg ticks s))"
proof (induction ticks arbitrary: n s)
  case (Cons tk ticks)
  obtain now cancelled ls s1 where r: "tk = (now, cancelled)" "sweep exec (F n) cancelled now cfg s = (ls, s1)" by (metis prod.collapse)
  then have "(qstep exec view)\<^sup>*\<^sup>* s s1" using sweep_steps [OF assms, where s = s and F = "F n"] by (metis snd_conv)
  then show ?case using r Cons.IH [of s1 "Suc n"] by (auto split: prod.split)
qed simp

end
