(* ===== verification/Server.thy ===== *)
theory Server
  imports Client Rate_Limit Workflow Recovery Cron
begin

text \<open>
  \<^verbatim>\<open>server.go\<close> and \<^verbatim>\<open>middleware.go\<close>: the worker process. A handler is user code: it takes
  the raw job and the state and returns how it ended, the raw job (it may have set a result) and the
  state it left, with all that happened meanwhile. Hooks are user code that changes the state.
  Log lines are values: \<open>job_log\<close> is the one canonical line of a job. Every call to Redis meets its
  own fault, and every reading of the clock is an argument, in nanoseconds.
\<close>

section \<open>Middleware\<close>

record rawJob =
  rj_ID :: string
  rj_Kind :: string
  rj_Queue :: string
  rj_Priority :: int
  rj_State :: string
  rj_Attempt :: int
  rj_MaxRetries :: int
  rj_Payload :: string
  rj_CreatedAt :: int
  rj_ScheduledAt :: int
  rj_StartedAt :: int
  rj_LastError :: string
  rj_result :: string

datatype exit = Returned "goerr option" | Panicked string

type_synonym 's handler = "rawJob \<Rightarrow> 's \<Rightarrow> (exit \<times> rawJob) \<times> 's"

type_synonym 's middleware = "'s handler \<Rightarrow> 's handler"

definition Recover :: "'s middleware" where
  "Recover next job s =
     (case next job s of
        ((Panicked r, job'), s') \<Rightarrow>
          ((Returned (Some (ErrorString (''winter: panic processing job '' @ rj_ID job' @ '': '' @ r))), job'), s')
      | ((Returned e, job'), s') \<Rightarrow> ((Returned e, job'), s'))"

section \<open>Configuration\<close>

record QueueWeight =
  qw_name :: string
  qw_weight :: int

datatype arg = ArgString string | ArgInt int | ArgOther

definition arg_string :: "arg \<Rightarrow> string" where
  "arg_string a = (case a of ArgString s \<Rightarrow> s | _ \<Rightarrow> '''')"

definition arg_int :: "arg \<Rightarrow> int" where
  "arg_int a = (case a of ArgInt n \<Rightarrow> n | _ \<Rightarrow> 0)"

fun Queues :: "arg list \<Rightarrow> QueueWeight list" where
  "Queues (name # weight # args) = \<lparr>qw_name = arg_string name, qw_weight = arg_int weight\<rparr> # Queues args"
| "Queues _ = []"

record ServerConfig =
  sc_concurrency :: int
  sc_queues :: "QueueWeight list"
  sc_strictPriority :: bool
  sc_cron :: "CronEntry list"
  sc_pollInterval :: int
  sc_shutdownTimeout :: int

record JobEvent =
  je_ID :: string
  je_Kind :: string
  je_Queue :: string
  je_Attempt :: int
  je_Err :: "goerr option"

type_synonym 's hook = "JobEvent \<Rightarrow> 's \<Rightarrow> 's"

record 's serverHooks =
  onStart :: "'s hook list"
  onComplete :: "'s hook list"
  onError :: "'s hook list"
  onDead :: "'s hook list"

record 's Server =
  sv_cfg :: ServerConfig
  sv_workerID :: string
  sv_handlers :: "string \<rightharpoonup> 's handler"
  sv_rateLimits :: "string \<rightharpoonup> Rate"
  sv_middleware :: "'s middleware list"
  sv_hooks :: "'s serverHooks"

definition at_least_one :: "QueueWeight \<Rightarrow> QueueWeight" where
  "at_least_one qw = (if qw_weight qw < 1 then qw\<lparr>qw_weight := 1\<rparr> else qw)"

definition with_defaults :: "ServerConfig \<Rightarrow> ServerConfig" where
  "with_defaults cfg =
     cfg\<lparr>sc_concurrency := (if sc_concurrency cfg \<le> 0 then 10 else sc_concurrency cfg),
         sc_queues := map at_least_one
           (if sc_queues cfg = [] then [\<lparr>qw_name = ''default'', qw_weight = 1\<rparr>] else sc_queues cfg),
         sc_pollInterval := (if sc_pollInterval cfg \<le> 0 then 200 * 1000000 else sc_pollInterval cfg),
         sc_shutdownTimeout := (if sc_shutdownTimeout cfg \<le> 0 then 30 * 1000000000 else sc_shutdownTimeout cfg)\<rparr>"

definition newServer :: "string \<Rightarrow> ServerConfig \<Rightarrow> 's Server" where
  "newServer uuid cfg =
     \<lparr>sv_cfg = with_defaults cfg, sv_workerID = uuid, sv_handlers = Map.empty, sv_rateLimits = Map.empty,
      sv_middleware = [], sv_hooks = \<lparr>onStart = [], onComplete = [], onError = [], onDead = []\<rparr>\<rparr>"

section \<open>Handlers\<close>

text \<open>The typed job a handler sees, over the type of its arguments; times are nanoseconds.\<close>

record 't TypedJob =
  tj_Args :: 't
  tj_ID :: string
  tj_Kind :: string
  tj_Queue :: string
  tj_Priority :: int
  tj_State :: string
  tj_Attempt :: int
  tj_MaxRetries :: int
  tj_CreatedAt :: int
  tj_ScheduledAt :: int
  tj_StartedAt :: int
  tj_LastError :: string

definition typed_job :: "'t \<Rightarrow> rawJob \<Rightarrow> 't TypedJob" where
  "typed_job args rj =
     \<lparr>tj_Args = args, tj_ID = rj_ID rj, tj_Kind = rj_Kind rj, tj_Queue = rj_Queue rj, tj_Priority = rj_Priority rj,
      tj_State = rj_State rj, tj_Attempt = rj_Attempt rj, tj_MaxRetries = rj_MaxRetries rj,
      tj_CreatedAt = rj_CreatedAt rj * 1000000, tj_ScheduledAt = rj_ScheduledAt rj * 1000000,
      tj_StartedAt = rj_StartedAt rj * 1000000, tj_LastError = rj_LastError rj\<rparr>"

definition typed_handler :: "string \<Rightarrow> (string \<Rightarrow> string + 't) \<Rightarrow> ('t TypedJob \<Rightarrow> 's handler) \<Rightarrow> 's handler" where
  "typed_handler kind decode work rj s =
     (case decode (rj_Payload rj) of
        Inl e \<Rightarrow> ((Returned (Some (WrapError (''winter: unmarshal '' @ kind @ '': '' @ e) [ErrorString e])), rj), s)
      | Inr args \<Rightarrow> work (typed_job args rj) rj s)"

definition job_SetResult :: "string + string \<Rightarrow> rawJob \<Rightarrow> (qerr + unit) \<times> rawJob" where
  "job_SetResult json rj =
     (case json of
        Inl e \<Rightarrow> (Inl (Wrapped ''winter: marshal result'' e), rj)
      | Inr data \<Rightarrow> (Inr (), rj\<lparr>rj_result := data\<rparr>))"

definition Handle :: "string \<Rightarrow> TaskOptions option \<Rightarrow> (string \<Rightarrow> string + 't) \<Rightarrow> ('t TypedJob \<Rightarrow> 's handler) \<Rightarrow>
    's Server \<Rightarrow> 's Server" where
  "Handle kind opts decode work sv =
     sv\<lparr>sv_rateLimits :=
          (case opts of
             Some o' \<Rightarrow> if Max (to_rateLimit o') > 0 \<and> Per (to_rateLimit o') > 0
                        then (sv_rateLimits sv)(kind \<mapsto> to_rateLimit o') else sv_rateLimits sv
           | None \<Rightarrow> sv_rateLimits sv),
        sv_handlers := (sv_handlers sv)(kind \<mapsto> typed_handler kind decode work)\<rparr>"

definition SetRateLimit :: "string \<Rightarrow> int \<Rightarrow> int \<Rightarrow> 's Server \<Rightarrow> 's Server" where
  "SetRateLimit kind mx per sv = sv\<lparr>sv_rateLimits := (sv_rateLimits sv)(kind \<mapsto> \<lparr>Max = mx, Per = per\<rparr>)\<rparr>"

definition OnStart :: "'s hook \<Rightarrow> 's Server \<Rightarrow> 's Server" where
  "OnStart fn sv = sv\<lparr>sv_hooks := (sv_hooks sv)\<lparr>onStart := onStart (sv_hooks sv) @ [fn]\<rparr>\<rparr>"

definition OnComplete :: "'s hook \<Rightarrow> 's Server \<Rightarrow> 's Server" where
  "OnComplete fn sv = sv\<lparr>sv_hooks := (sv_hooks sv)\<lparr>onComplete := onComplete (sv_hooks sv) @ [fn]\<rparr>\<rparr>"

definition OnError :: "'s hook \<Rightarrow> 's Server \<Rightarrow> 's Server" where
  "OnError fn sv = sv\<lparr>sv_hooks := (sv_hooks sv)\<lparr>onError := onError (sv_hooks sv) @ [fn]\<rparr>\<rparr>"

definition OnDead :: "'s hook \<Rightarrow> 's Server \<Rightarrow> 's Server" where
  "OnDead fn sv = sv\<lparr>sv_hooks := (sv_hooks sv)\<lparr>onDead := onDead (sv_hooks sv) @ [fn]\<rparr>\<rparr>"

definition fireHooks :: "'s hook list \<Rightarrow> JobEvent \<Rightarrow> 's \<Rightarrow> 's" where
  "fireHooks hooks event s = fold (\<lambda>fn. fn event) hooks s"

definition Use :: "'s middleware list \<Rightarrow> 's Server \<Rightarrow> 's Server" where
  "Use mw sv = sv\<lparr>sv_middleware := sv_middleware sv @ mw\<rparr>"


section \<open>Processing a job\<close>

text \<open>
  Functions the processing uses: Lua numbers, JSON, and the conversion of large powers to a
  duration, which Go leaves to the implementation.
\<close>

record libs =
  lib_numbers :: numbers
  lib_json :: json
  lib_conv :: "int \<Rightarrow> dur"

record job_faults =
  jf_limit :: fault
  jf_settle :: fault
  jf_result :: fault
  jf_workflow :: "nat \<Rightarrow> fault"

text \<open>The outcome on the canonical log line of a job, with the error of the call that settles it.\<close>

datatype job_log =
    LogNoHandler
  | LogRateLimited int
  | LogCompleted
  | LogAckError qerr
  | LogRescheduled int "qerr option"
  | LogCancelled string "qerr option"
  | LogNacked string int
  | LogNackError qerr
  | Crashed string

definition raw_job :: "JobRecord \<Rightarrow> rawJob" where
  "raw_job rec =
     \<lparr>rj_ID = ID rec, rj_Kind = Kind rec, rj_Queue = Queue rec, rj_Priority = Priority rec, rj_State = State rec,
      rj_Attempt = Attempt rec, rj_MaxRetries = MaxRetries rec, rj_Payload = Payload rec, rj_CreatedAt = CreatedAt rec,
      rj_ScheduledAt = ScheduledAt rec, rj_StartedAt = StartedAt rec, rj_LastError = LastError rec, rj_result = ''''\<rparr>"

definition job_event :: "JobRecord \<Rightarrow> goerr option \<Rightarrow> JobEvent" where
  "job_event rec err =
     \<lparr>je_ID = ID rec, je_Kind = Kind rec, je_Queue = Queue rec, je_Attempt = Attempt rec, je_Err = err\<rparr>"

definition wrap_middleware :: "'s middleware list \<Rightarrow> 's handler \<Rightarrow> 's handler" where
  "wrap_middleware mws handler = foldr (\<lambda>mw fn. mw fn) mws handler"

text \<open>Up to the call of the handler: a job without handler or over its rate is settled at once.\<close>

definition rate_limited :: "'s server \<Rightarrow> libs \<Rightarrow> 's Server \<Rightarrow> fault \<Rightarrow> int \<Rightarrow> JobRecord \<Rightarrow> 's \<Rightarrow> int option \<times> 's" where
  "rate_limited exec L sv flt now rec s =
     (case sv_rateLimits sv (Kind rec) of
        None \<Rightarrow> (None, s)
      | Some rl \<Rightarrow>
          (case Allow exec (lib_numbers L) flt (unixMilli now) (Kind rec) (Max rl) (Per rl) s of
             (Inl _, s1) \<Rightarrow> (None, s1)
           | (Inr res, s1) \<Rightarrow>
               if Allowed res then (None, s1)
               else (Some (if RetryIn res < 50 * 1000000 then 50 * 1000000 else RetryIn res), s1)))"

definition begin_job :: "'s server \<Rightarrow> libs \<Rightarrow> 's Server \<Rightarrow> job_faults \<Rightarrow> (nat \<Rightarrow> int) \<Rightarrow> JobRecord \<Rightarrow>
    's \<Rightarrow> (job_log + 's handler) \<times> 's" where
  "begin_job exec L sv F T rec s =
     (case sv_handlers sv (Kind rec) of
        None \<Rightarrow>
          (Inl LogNoHandler,
           snd (Nack exec (jf_settle F) (unixMilli (T 1)) (Queue rec) (ID rec) (sv_workerID sv) ''no handler registered'' 0 True s))
      | Some handler \<Rightarrow>
          (case rate_limited exec L sv (jf_limit F) (T 0) rec s of
             (Some delay, s1) \<Rightarrow>
               (Inl (LogRateLimited (milliseconds delay)),
                snd (RescheduleJob exec (jf_settle F) (Queue rec) (ID rec) (sv_workerID sv) (T 1 + delay) s1))
           | (None, s1) \<Rightarrow>
               (Inr (wrap_middleware (sv_middleware sv) handler),
                fireHooks (onStart (sv_hooks sv)) (job_event rec None) s1)))"

text \<open>From the return of the handler on.\<close>

definition complete_job :: "'s server \<Rightarrow> libs \<Rightarrow> 's Server \<Rightarrow> job_faults \<Rightarrow> (nat \<Rightarrow> int) \<Rightarrow> string \<Rightarrow> JobRecord \<Rightarrow> rawJob \<Rightarrow>
    's \<Rightarrow> job_log \<times> 's" where
  "complete_job exec L sv F T uuid rec rj s =
     (case Ack exec (jf_settle F) (unixMilli (T 1)) (Queue rec) (ID rec) (sv_workerID sv) s of
        (Inl e, s1) \<Rightarrow> (LogAckError e, s1)
      | (Inr _, s1) \<Rightarrow>
          (let s2 = (if rj_result rj \<noteq> ''''
                     then snd (SetResult exec (jf_result F) (ID rec) (rj_result rj) (7 * 24 * 3600 * 1000000000) s1) else s1);
               s3 = (if WorkflowID rec \<noteq> ''''
                     then snd (OnJobCompleted exec (lib_json L) (jf_workflow F) uuid (unixMilli (T 2)) (WorkflowID rec) (ID rec) s2)
                     else s2)
           in (LogCompleted, fireHooks (onComplete (sv_hooks sv)) (job_event rec None) s3)))"

definition backoff_ms :: "libs \<Rightarrow> bool \<Rightarrow> int \<Rightarrow> int" where
  "backoff_ms L skipRetry attempt =
     (if skipRetry then 0 else milliseconds (sint (Next (lib_conv L) (Exponential (ns 1000000000)) attempt)))"

definition fail_job :: "'s server \<Rightarrow> libs \<Rightarrow> 's Server \<Rightarrow> job_faults \<Rightarrow> (nat \<Rightarrow> int) \<Rightarrow> JobRecord \<Rightarrow> goerr \<Rightarrow>
    's \<Rightarrow> job_log \<times> 's" where
  "fail_job exec L sv F T rec err s =
     (let skipRetry = IsSkipRetry err; backoffMs = backoff_ms L skipRetry (Attempt rec) in
      case Nack exec (jf_settle F) (unixMilli (T 1)) (Queue rec) (ID rec) (sv_workerID sv) (Error err)
             backoffMs skipRetry s of
        (Inl e, s1) \<Rightarrow> (LogNackError e, s1)
      | (Inr result, s1) \<Rightarrow>
          (LogNacked result backoffMs,
           if result = ''dead''
           then (let s2 = fireHooks (onDead (sv_hooks sv)) (job_event rec (Some err)) s1
                 in if WorkflowID rec \<noteq> ''''
                    then snd (OnJobFailed exec (lib_json L) (jf_workflow F) (WorkflowID rec) s2) else s2)
           else fireHooks (onError (sv_hooks sv)) (job_event rec (Some err)) s1))"

definition error_of :: "(qerr + unit) \<Rightarrow> qerr option" where
  "error_of r = (case r of Inl e \<Rightarrow> Some e | Inr _ \<Rightarrow> None)"

definition finish_job :: "'s server \<Rightarrow> libs \<Rightarrow> 's Server \<Rightarrow> job_faults \<Rightarrow> (nat \<Rightarrow> int) \<Rightarrow> string \<Rightarrow> JobRecord \<Rightarrow> exit \<Rightarrow> rawJob \<Rightarrow>
    's \<Rightarrow> job_log \<times> 's" where
  "finish_job exec L sv F T uuid rec ex rj s =
     (case ex of
        Panicked r \<Rightarrow> (Crashed r, s)
      | Returned None \<Rightarrow> complete_job exec L sv F T uuid rec rj s
      | Returned (Some err) \<Rightarrow>
          (case IsReschedule err of
             Some delay \<Rightarrow>
               (case RescheduleJob exec (jf_settle F) (Queue rec) (ID rec) (sv_workerID sv) (T 1 + delay) s of
                  (r, s1) \<Rightarrow> (LogRescheduled (milliseconds delay) (error_of r), s1))
           | None \<Rightarrow>
               (case IsCancel err of
                  Some reason \<Rightarrow>
                    (case CancelJob exec (jf_settle F) (unixMilli (T 1)) (Queue rec) (ID rec) (sv_workerID sv) reason s of
                       (r, s1) \<Rightarrow> (LogCancelled reason (error_of r), s1))
                | None \<Rightarrow> fail_job exec L sv F T rec err s)))"

definition processJob :: "'s server \<Rightarrow> libs \<Rightarrow> 's Server \<Rightarrow> job_faults \<Rightarrow> (nat \<Rightarrow> int) \<Rightarrow> string \<Rightarrow> JobRecord \<Rightarrow>
    's \<Rightarrow> job_log \<times> 's" where
  "processJob exec L sv F T uuid rec s =
     (case begin_job exec L sv F T rec s of
        (Inl line, s1) \<Rightarrow> (line, s1)
      | (Inr fn, s1) \<Rightarrow> (case fn (raw_job rec) s1 of ((ex, rj), s2) \<Rightarrow> finish_job exec L sv F T uuid rec ex rj s2))"

section \<open>Polling\<close>

definition buildWeightedQueues :: "'s Server \<Rightarrow> string list" where
  "buildWeightedQueues sv = concat (map (\<lambda>qw. replicate (nat (qw_weight qw)) (qw_name qw)) (sc_queues (sv_cfg sv)))"

text \<open>\<open>sortFunc\<close> is \<open>slices.SortFunc\<close>: it sorts by the comparison, in no particular order where that gives 0.\<close>

definition by_weight :: "QueueWeight \<Rightarrow> QueueWeight \<Rightarrow> int" where
  "by_weight a b = qw_weight b - qw_weight a"

definition buildStrictQueues :: "((QueueWeight \<Rightarrow> QueueWeight \<Rightarrow> int) \<Rightarrow> QueueWeight list \<Rightarrow> QueueWeight list) \<Rightarrow>
    's Server \<Rightarrow> string list" where
  "buildStrictQueues sortFunc sv = map qw_name (sortFunc by_weight (sc_queues (sv_cfg sv)))"

text \<open>
  One round over the queue names: \<open>env i\<close> is what the rest of the system does until the i-th slot of
  the semaphore is free. The weighted poller asks every queue and starts a goroutine for every job
  it gets, the strict one stops at the first job.
\<close>

fun weighted_round :: "'s server \<Rightarrow> (nat \<Rightarrow> fault) \<Rightarrow> (nat \<Rightarrow> int) \<Rightarrow> (nat \<Rightarrow> 's \<Rightarrow> 's) \<Rightarrow> string \<Rightarrow> nat \<Rightarrow> string list \<Rightarrow>
    's \<Rightarrow> JobRecord list \<times> 's" where
  "weighted_round exec F T env w i [] s = ([], s)"
| "weighted_round exec F T env w i (q # qs) s =
     (case Dequeue exec (F i) (unixMilli (T i)) q w (env i s) of
        (Inr (Some rec), s1) \<Rightarrow>
          (case weighted_round exec F T env w (Suc i) qs s1 of (recs, s2) \<Rightarrow> (rec # recs, s2))
      | (_, s1) \<Rightarrow> weighted_round exec F T env w (Suc i) qs s1)"

fun strict_round :: "'s server \<Rightarrow> (nat \<Rightarrow> fault) \<Rightarrow> (nat \<Rightarrow> int) \<Rightarrow> (nat \<Rightarrow> 's \<Rightarrow> 's) \<Rightarrow> string \<Rightarrow> nat \<Rightarrow> string list \<Rightarrow>
    's \<Rightarrow> (string \<times> JobRecord) option \<times> 's" where
  "strict_round exec F T env w i [] s = (None, s)"
| "strict_round exec F T env w i (q # qs) s =
     (case Dequeue exec (F i) (unixMilli (T i)) q w (env i s) of
        (Inr (Some rec), s1) \<Rightarrow> (Some (q, rec), s1)
      | (_, s1) \<Rightarrow> strict_round exec F T env w (Suc i) qs s1)"

section \<open>Heartbeat, promotion, start and stop\<close>

text \<open>The i-th call of a tick meets the i-th fault and reads the clock as \<open>T i\<close>.\<close>

fun extend_leases :: "'s server \<Rightarrow> (nat \<Rightarrow> fault) \<Rightarrow> (nat \<Rightarrow> int) \<Rightarrow> nat \<Rightarrow> (string \<times> string) list \<Rightarrow> 's \<Rightarrow> 's" where
  "extend_leases exec F T i [] s = s"
| "extend_leases exec F T i ((jobID, queueName) # inflight) s =
     extend_leases exec F T (Suc i) inflight
       (snd (ExtendLease exec (F i) (T i) queueName jobID DefaultLeaseDuration s))"

definition heartbeat_tick :: "'s server \<Rightarrow> (nat \<Rightarrow> fault) \<Rightarrow> bool \<Rightarrow> (nat \<Rightarrow> int) \<Rightarrow> string \<Rightarrow> (string \<times> string) list \<Rightarrow> 's \<Rightarrow> 's" where
  "heartbeat_tick exec F cancelled T w inflight s =
     (case Heartbeat exec (F 0) (unixMilli (T 0)) w s of
        (Inl _, s1) \<Rightarrow> if cancelled then s1 else extend_leases exec F T 1 inflight s1
      | (Inr _, s1) \<Rightarrow> extend_leases exec F T 1 inflight s1)"

fun promote_queues :: "'s server \<Rightarrow> (nat \<Rightarrow> fault) \<Rightarrow> (nat \<Rightarrow> int) \<Rightarrow> nat \<Rightarrow> string list \<Rightarrow> 's \<Rightarrow> 's" where
  "promote_queues exec F T i [] s = s"
| "promote_queues exec F T i (q # qs) s =
     promote_queues exec F T (Suc i) qs (snd (Promote exec (F i) (unixMilli (T i)) q 100 s))"

definition promote_tick :: "'s server \<Rightarrow> (nat \<Rightarrow> fault) \<Rightarrow> (nat \<Rightarrow> int) \<Rightarrow> 's Server \<Rightarrow> 's \<Rightarrow> 's" where
  "promote_tick exec F T sv = promote_queues exec F T 0 (map qw_name (sc_queues (sv_cfg sv)))"

text \<open>
  What \<open>Start\<close> sets up before it waits: the first heartbeat, the recovery of its queues and the cron
  entries, whose error ends it; and what it does last.
\<close>

definition start_server :: "'s server \<Rightarrow> (string \<Rightarrow> string) \<Rightarrow> (string \<Rightarrow> string + (int \<Rightarrow> int)) \<Rightarrow> fault \<Rightarrow> int \<Rightarrow> 's Server \<Rightarrow>
    's \<Rightarrow> (werr + RecoveryConfig \<times> parsedEntry list) \<times> 's" where
  "start_server exec quote parse flt now sv s =
     (let s1 = snd (Heartbeat exec flt (unixMilli now) (sv_workerID sv) s);
          recovery = NewRecovery \<lparr>rc_interval = 0, rc_queues = map qw_name (sc_queues (sv_cfg sv)), rc_limit = 0\<rparr>
      in if sc_cron (sv_cfg sv) = [] then (Inr (recovery, []), s1)
         else case NewCron quote parse (sc_cron (sv_cfg sv)) of
                Inl e \<Rightarrow> (Inl (WWrap ''winter: cron setup'' e), s1)
              | Inr entries \<Rightarrow> (Inr (recovery, entries), s1))"

definition stop_server :: "'s server \<Rightarrow> fault \<Rightarrow> 's Server \<Rightarrow> 's \<Rightarrow> 's" where
  "stop_server exec flt sv s = snd (DeregisterWorker exec flt (sv_workerID sv) s)"

end
