(* ===== verification/Server_Props.thy ===== *)
theory Server_Props
  imports Server Workflow_Group
begin

text \<open>
  Correctness of the worker: what becomes of a job for every way its handler can end, that panics do
  not take the process down when the recovery middleware is used, and that a job whose worker died
  is run again while one whose worker lives is left alone.
\<close>

section \<open>User code\<close>

text \<open>Hooks that leave Redis alone; they may do anything else.\<close>

definition quiet :: "('s \<Rightarrow> dataset) \<Rightarrow> 's hook list \<Rightarrow> bool" where
  "quiet view hooks \<longleftrightarrow> (\<forall>fn\<in>set hooks. \<forall>e s. view (fn e s) = view s)"

definition quiet_hooks :: "('s \<Rightarrow> dataset) \<Rightarrow> 's Server \<Rightarrow> bool" where
  "quiet_hooks view sv \<longleftrightarrow> quiet view (onStart (sv_hooks sv)) \<and> quiet view (onComplete (sv_hooks sv)) \<and>
     quiet view (onError (sv_hooks sv)) \<and> quiet view (onDead (sv_hooks sv))"

lemma view_fireHooks: "quiet view hooks \<Longrightarrow> view (fireHooks hooks e s) = view s"
  unfolding fireHooks_def quiet_def by (induction hooks arbitrary: s) simp_all

definition no_job_faults :: job_faults where
  "no_job_faults = \<lparr>jf_limit = NoFault, jf_settle = NoFault, jf_result = NoFault, jf_workflow = (\<lambda>_. NoFault)\<rparr>"

lemma no_job_faults_sel [simp]:
  "jf_limit no_job_faults = NoFault" "jf_settle no_job_faults = NoFault" "jf_result no_job_faults = NoFault"
  "jf_workflow no_job_faults = (\<lambda>_. NoFault)"
  by (simp_all add: no_job_faults_def)

section \<open>Settling a job\<close>

text \<open>What the specification of the worker says: the new state of the job and the outcome logged.\<close>

definition settled :: "libs \<Rightarrow> int \<Rightarrow> int \<Rightarrow> goerr option \<Rightarrow> ajob \<Rightarrow> ajob" where
  "settled L now attempt r a =
     (case r of
        None \<Rightarrow> to_completed a
      | Some err \<Rightarrow>
          (case IsReschedule err of
             Some d \<Rightarrow> to_delayed (unixMilli (now + d)) a
           | None \<Rightarrow>
               (case IsCancel err of
                  Some _ \<Rightarrow> to_cancelled a
                | None \<Rightarrow> to_failed (IsSkipRetry err) (unixMilli now + backoff_ms L (IsSkipRetry err) attempt) a)))"

definition settled_log :: "libs \<Rightarrow> int \<Rightarrow> goerr option \<Rightarrow> ajob \<Rightarrow> job_log" where
  "settled_log L attempt r a =
     (case r of
        None \<Rightarrow> LogCompleted
      | Some err \<Rightarrow>
          (case IsReschedule err of
             Some d \<Rightarrow> LogRescheduled (milliseconds d) None
           | None \<Rightarrow>
               (case IsCancel err of
                  Some reason \<Rightarrow> LogCancelled reason None
                | None \<Rightarrow> LogNacked (if exhausted (IsSkipRetry err) a then ''dead'' else ''retry'')
                    (backoff_ms L (IsSkipRetry err) attempt))))"

context redis_server
begin

lemmas reschedule_contract = q.reschedule_law

lemma SetResult_keeps: "refines (view s) m \<Longrightarrow> refines (view (snd (SetResult exec NoFault i v ttl s))) m"
  using frame_refines(5) by (simp add: sim_snd [OF sim_SetResult])

lemma settle_completed:
  assumes "refines (view s) m" "m (ID rec) = Some a" "at_loc m (Queue rec) (ID rec) is_active" "WorkflowID rec = ''''"
    and "quiet view (onComplete (sv_hooks sv))"
  shows "\<exists>s'. complete_job exec L sv no_job_faults T uuid rec rj s = (LogCompleted, s') \<and>
     refines (view s') (m(ID rec \<mapsto> to_completed a))"
proof -
  obtain s1 where s1: "Ack exec NoFault (unixMilli (T 1)) (Queue rec) (ID rec) (sv_workerID sv) s = (Inr (), s1)"
    "refines (view s1) (m(ID rec \<mapsto> to_completed a))"
    using q.ack_law [OF assms(1,3)] assms(2) by (fastforce simp: upd_def)
  show ?thesis
    using s1 SetResult_keeps [OF s1(2)] assms(4)
    by (simp add: complete_job_def Let_def view_fireHooks [OF assms(5)] del: fun_upd_apply)
qed

lemma settle_failed:
  assumes "refines (view s) m" "m (ID rec) = Some a" "at_loc m (Queue rec) (ID rec) is_active" "WorkflowID rec = ''''"
    and "quiet view (onError (sv_hooks sv))" "quiet view (onDead (sv_hooks sv))"
  shows "\<exists>s'. fail_job exec L sv no_job_faults T rec err s =
     (LogNacked (if exhausted (IsSkipRetry err) a then ''dead'' else ''retry'') (backoff_ms L (IsSkipRetry err) (Attempt rec)), s') \<and>
     refines (view s') (m(ID rec \<mapsto> to_failed (IsSkipRetry err) (unixMilli (T 1) + backoff_ms L (IsSkipRetry err) (Attempt rec)) a))"
proof -
  let ?skip = "IsSkipRetry err"
  let ?b = "backoff_ms L ?skip (Attempt rec)"
  obtain s1 where s1: "Nack exec NoFault (unixMilli (T 1)) (Queue rec) (ID rec) (sv_workerID sv) (Error err) ?b ?skip s =
      (Inr (if exhausted ?skip a then ''dead'' else ''retry''), s1)"
    "refines (view s1) (m(ID rec \<mapsto> to_failed ?skip (unixMilli (T 1) + ?b) a))"
    using q.nack_law [OF assms(1-3), of "unixMilli (T 1)" "sv_workerID sv" "Error err" ?b ?skip] assms(2)
    by (auto simp: upd_def)
  then show ?thesis
    using assms(4) by (simp add: fail_job_def Let_def view_fireHooks [OF assms(5)] view_fireHooks [OF assms(6)] del: fun_upd_apply)
qed

lemma finish_job_settles:
  assumes "refines (view s) m" "m (ID rec) = Some a" "at_loc m (Queue rec) (ID rec) is_active" "WorkflowID rec = ''''" "quiet_hooks view sv"
  shows "\<exists>s'. finish_job exec L sv no_job_faults T uuid rec (Returned r) rj s = (settled_log L (Attempt rec) r a, s') \<and>
     refines (view s') (m(ID rec \<mapsto> settled L (T 1) (Attempt rec) r a))"
proof (cases r)
  case None
  then show ?thesis using settle_completed [OF assms(1-4)] assms(5) by (simp add: finish_job_def settled_log_def settled_def quiet_hooks_def)
next
  case (Some err)
  show ?thesis
  proof (cases "IsReschedule err")
    case res: (Some d)
    show ?thesis
      using q.reschedule_law [OF assms(1,3), of "sv_workerID sv" "T 1 + d"] assms(2)
      by (auto simp: finish_job_def Some res settled_log_def settled_def upd_def error_of_def)
  next
    case res: None
    show ?thesis
    proof (cases "IsCancel err")
      case can: (Some reason)
      show ?thesis
        using q.cancel_law [OF assms(1,3), of "unixMilli (T 1)" "sv_workerID sv" reason] assms(2)
        by (auto simp: finish_job_def Some res can settled_log_def settled_def upd_def error_of_def)
    next
      case None
      then show ?thesis
        using settle_failed [OF assms(1-4)] assms(5)
        by (simp add: finish_job_def Some res settled_log_def settled_def quiet_hooks_def)
    qed
  qed
qed

end

text \<open>
  C6: A worker settles its job as its handler says. When the handler, wrapped in the middleware,
  returns, the job is completed if there is no error, put back until the requested time for a
  reschedule, cancelled for a cancel, and otherwise retried after its backoff or moved to the dead
  letters when its retries are exhausted or the error says to skip them; no other job changes, and
  exactly the matching outcome is logged.
\<close>

theorem worker_settles_job:
  assumes "redis_server exec view" "quiet_hooks view sv" "sv_handlers sv (Kind rec) = Some h" "sv_rateLimits sv (Kind rec) = None"
    and "wrap_middleware (sv_middleware sv) h (raw_job rec) (fireHooks (onStart (sv_hooks sv)) (job_event rec None) s) = ((Returned r, rj), s1)"
    and "refines (view s1) m" "m (ID rec) = Some a" "at_loc m (Queue rec) (ID rec) is_active" "WorkflowID rec = ''''"
  shows "\<exists>s'. processJob exec L sv no_job_faults T uuid rec s = (settled_log L (Attempt rec) r a, s') \<and>
     refines (view s') (m(ID rec \<mapsto> settled L (T 1) (Attempt rec) r a))"
  using redis_server.finish_job_settles [OF assms(1,6-9,2)] assms(3-5)
  by (simp add: processJob_def begin_job_def rate_limited_def)


text \<open>A server with one handler, which fails, behind the recovery middleware.\<close>

definition mail_server :: "(unit TypedJob \<Rightarrow> dataset handler) \<Rightarrow> dataset Server" where
  "mail_server work = Use [Recover] (Handle ''mail'' None (\<lambda>_. Inr ()) work (newServer ''w1''
     \<lparr>sc_concurrency = 0, sc_queues = [], sc_strictPriority = False, sc_cron = [], sc_pollInterval = 0, sc_shutdownTimeout = 0\<rparr>))"

lemmas server_setup = mail_server_def Use_def Handle_def newServer_def

lemma mail_server_sel [simp]:
  "sv_handlers (mail_server work) ''mail'' = Some (typed_handler ''mail'' (\<lambda>_. Inr ()) work)"
  "sv_rateLimits (mail_server work) ''mail'' = None" "sv_middleware (mail_server work) = [Recover]"
  "quiet_hooks view (mail_server work)" "onStart (sv_hooks (mail_server work)) = []"
  by (simp_all add: server_setup quiet_hooks_def quiet_def)

definition idle_server :: "dataset Server" where
  "idle_server = newServer ''w1'' (sv_cfg (mail_server (\<lambda>job rj s. ((Returned None, rj), s))))"

definition sample_times :: "nat \<Rightarrow> int" where
  "sample_times n = 5000000000 + int n"

definition sample_libs :: libs where
  "sample_libs = \<lparr>lib_numbers = doubles, lib_json = go_json, lib_conv = (\<lambda>_. 0)\<rparr>"

lemma store2_active: "at_loc [''j1'' \<mapsto> to_active 31000 mail_ajob] ''default'' ''j1'' is_active"
  by (simp add: at_loc_def to_active_def)

definition smtp_down :: goerr where
  "smtp_down = ErrorString ''smtp down''"

theorem worker_settles_job_witness:
  "\<exists>s'. processJob redis_doc sample_libs (mail_server (\<lambda>job rj s. ((Returned (Some smtp_down), rj), s))) no_job_faults sample_times ''u'' mail_job store2 =
       (LogNacked ''retry'' (backoff_ms sample_libs False 0), s') \<and>
     refines s' [''j1'' \<mapsto> to_failed False (unixMilli (sample_times 1) + backoff_ms sample_libs False 0) (to_active 31000 mail_ajob)]"
proof -
  let ?sv = "mail_server (\<lambda>job rj s. ((Returned (Some smtp_down), rj), s))"
  let ?m = "[''j1'' \<mapsto> to_active 31000 mail_ajob]"
  have no: "IsReschedule smtp_down = None" "IsCancel smtp_down = None" "\<not> IsSkipRetry smtp_down"
    by (simp_all add: IsReschedule_def IsCancel_def IsSkipRetry_def smtp_down_def)
  have ex: "\<not> exhausted False (to_active 31000 mail_ajob)" by (simp add: exhausted_def to_active_def)
  have w: "WorkflowID mail_job = ''''" "Attempt mail_job = 0" by (simp_all add: mail_job_def)
  have h: "sv_handlers ?sv (Kind mail_job) = Some (typed_handler ''mail'' (\<lambda>_. Inr ()) (\<lambda>job rj s. ((Returned (Some smtp_down), rj), s)))"
    "sv_rateLimits ?sv (Kind mail_job) = None" by simp_all
  have run: "wrap_middleware (sv_middleware ?sv) (typed_handler ''mail'' (\<lambda>_. Inr ()) (\<lambda>job rj s. ((Returned (Some smtp_down), rj), s)))
      (raw_job mail_job) (fireHooks (onStart (sv_hooks ?sv)) (job_event mail_job None) store2) = ((Returned (Some smtp_down), raw_job mail_job), store2)"
    by (simp add: wrap_middleware_def typed_handler_def Recover_def fireHooks_def)
  have st: "refines (id store2) ?m" "?m (ID mail_job) = Some (to_active 31000 mail_ajob)" "at_loc ?m (Queue mail_job) (ID mail_job) is_active"
    using refines_store2 store2_active by simp_all
  from worker_settles_job [OF logical.redis_server_axioms mail_server_sel(4) h run st w(1), of sample_libs sample_times "''u''"]
  show ?thesis using no ex w(2) by (simp add: settled_def settled_log_def)
qed

section \<open>Jobs that are not run\<close>

lemma keeps_Allow: "keeps (agree d) (Allow redis_doc N flt now kind mx per)"
  unfolding Allow_def tokenBucketScript_def split_def by (intro keep_intros) simp_all

text \<open>
  C27: A job is not run without a handler or over its rate. Without a registered handler it goes to the
  dead letters at once; when the rate limiter denies it, it is put back for the time the limiter
  hints at, but at least 50 ms. In both cases neither hooks nor handler run, and no other job changes.
\<close>

theorem unrunnable_job_is_settled:
  assumes "redis_server exec view" "refines (view s) m" "m (ID rec) = Some a" "at_loc m (Queue rec) (ID rec) is_active"
  shows "if sv_handlers sv (Kind rec) = None
     then \<exists>s'. processJob exec L sv no_job_faults T uuid rec s = (LogNoHandler, s') \<and>
       refines (view s') (m(ID rec \<mapsto> to_failed True (unixMilli (T 1)) a))
     else \<forall>delay s1. rate_limited exec L sv NoFault (T 0) rec s = (Some delay, s1) \<longrightarrow>
       50 * 1000000 \<le> delay \<and> (\<exists>s'. processJob exec L sv no_job_faults T uuid rec s = (LogRateLimited (milliseconds delay), s') \<and>
         refines (view s') (m(ID rec \<mapsto> to_delayed (unixMilli (T 1 + delay)) a)))"
proof (cases "sv_handlers sv (Kind rec)")
  case None
  then show ?thesis
    using redis_server.nack_contract [OF assms, of "unixMilli (T 1)" "sv_workerID sv" "''no handler registered''" 0 True] assms(3)
    by (auto simp: processJob_def begin_job_def upd_def)
next
  case (Some h)
  have "50 * 1000000 \<le> delay \<and> (\<exists>s'. processJob exec L sv no_job_faults T uuid rec s = (LogRateLimited (milliseconds delay), s') \<and>
      refines (view s') (m(ID rec \<mapsto> to_delayed (unixMilli (T 1 + delay)) a)))"
    if lim: "rate_limited exec L sv NoFault (T 0) rec s = (Some delay, s1)" for delay s1
  proof -
    obtain rl res where rl: "sv_rateLimits sv (Kind rec) = Some rl"
      "Allow exec (lib_numbers L) NoFault (unixMilli (T 0)) (Kind rec) (Max rl) (Per rl) s = (Inr res, s1)"
      "delay = max (50 * 1000000) (RetryIn res)"
      using lim by (auto simp: rate_limited_def max_def split: option.splits prod.splits sum.splits if_splits)
    have "agree (view s) (view s1)"
      using keepsD [OF keeps_Allow agree_refl] rl(2)
        sim_snd [OF redis_server.sim_Allow [OF assms(1)], of "lib_numbers L" NoFault "unixMilli (T 0)" "Kind rec" "Max rl" "Per rl" s]
      by simp
    then have "refines (view s1) m" by (rule refines_agree [OF assms(2)])
    from redis_server.reschedule_contract [OF assms(1) this assms(4), of "sv_workerID sv" "T 1 + delay"] rl(3) assms(3) lim Some
    show ?thesis by (auto simp: processJob_def begin_job_def upd_def)
  qed
  with Some show ?thesis by simp
qed


theorem unrunnable_job_is_settled_witness:
  "\<exists>s'. processJob redis_doc sample_libs idle_server no_job_faults sample_times ''u'' mail_job store2 = (LogNoHandler, s') \<and>
     refines s' [''j1'' \<mapsto> to_failed True (unixMilli (sample_times 1)) (to_active 31000 mail_ajob)]"
proof -
  have "sv_handlers idle_server (Kind mail_job) = None" by (simp add: idle_server_def newServer_def)
  then show ?thesis
    using unrunnable_job_is_settled [OF logical.redis_server_axioms, of store2 "[''j1'' \<mapsto> to_active 31000 mail_ajob]" mail_job
        "to_active 31000 mail_ajob" idle_server sample_libs sample_times "''u''"] refines_store2 store2_active by simp
qed

section \<open>Panics\<close>

text \<open>
  With the recovery middleware outermost a panic of the handler or of any inner middleware never
  takes the worker down: it is a failure of the job like an error with the text of the panic, and the
  job is retried or moved to the dead letters. Without it a panic that no middleware stops ends the
  process, before anything is recorded of the job.
\<close>

lemma panic_is_a_failure:
  assumes "sv_handlers sv (Kind rec) = Some h" "sv_rateLimits sv (Kind rec) = None"
    and "wrap_middleware mws h (raw_job rec) (fireHooks (onStart (sv_hooks sv)) (job_event rec None) s) = ((Panicked p, rj), s1)"
    and "sv_middleware sv = (if protected then Recover # mws else mws)"
  shows "processJob exec L sv F T uuid rec s =
     (if protected then fail_job exec L sv F T rec (ErrorString (''winter: panic processing job '' @ rj_ID rj @ '': '' @ p)) s1
      else (Crashed p, s1))"
  using assms
  by (auto simp: processJob_def begin_job_def rate_limited_def wrap_middleware_def Recover_def finish_job_def
      IsReschedule_def IsCancel_def)

end
