(* ===== verification/Server_Loops.thy ===== *)
theory Server_Loops
  imports Server_Props
begin

text \<open>
  The recovery of expired leases by the sweep: a job whose worker is gone is handed out again.
\<close>

section \<open>Leases\<close>

text \<open>Fewer than \<open>n\<close> leases of the queue have expired.\<close>

definition few_expired :: "astate \<Rightarrow> string \<Rightarrow> int \<Rightarrow> int \<Rightarrow> bool" where
  "few_expired m q now n \<longleftrightarrow>
     (\<forall>ids. distinct ids \<and> (\<forall>i\<in>set ids. \<exists>t\<le>now. lease_time m q i = Some t) \<longrightarrow> int (length ids) < n)"

text \<open>What a sweep may do to a job: nothing, or make it ready when its lease has expired.\<close>

definition swept :: "int \<Rightarrow> ajob \<Rightarrow> ajob option \<Rightarrow> bool" where
  "swept now a x \<longleftrightarrow> x = Some a \<or> (\<exists>t\<le>now. aj_loc a = Active t) \<and> x = Some (to_ready a)"

lemma swept_trans: "swept now a (Some b) \<Longrightarrow> swept now b x \<Longrightarrow> swept now a x"
  by (auto simp: swept_def to_ready_def)

lemma swept_queue: "swept now a (Some b) \<Longrightarrow> aj_queue b = aj_queue a"
  by (auto simp: swept_def to_ready_def)

context redis_server
begin

lemma recover_contract:
  assumes "refines (view s) m" "wf_queue q"
  shows "\<exists>ids s'. selects (lease_time m q) now limit ids \<and> RecoverExpiredLeases exec NoFault now q limit s = (Inr ids, s') \<and>
     refines (view s') (fold (\<lambda>i. upd i to_ready) ids m)"
  using Recover_refines [OF assms, of now limit] sim_result [OF sim_RecoverExpiredLeases] by metis

lemma recovered_jobs:
  assumes "selects (lease_time m q) now limit ids"
  shows "m i = Some a \<Longrightarrow> swept now a (fold (\<lambda>i. upd i to_ready) ids m i)"
    "m i = None \<Longrightarrow> fold (\<lambda>i. upd i to_ready) ids m i = None"
    "m i = Some a \<Longrightarrow> aj_queue a = q \<Longrightarrow> aj_loc a = Active t \<Longrightarrow> t \<le> now \<Longrightarrow> few_expired m q now limit \<Longrightarrow>
       fold (\<lambda>i. upd i to_ready) ids m i = Some (to_ready a)"
proof -
  note f = fold_upd [OF selects_distinct [OF assms]]
  have leased: "\<exists>t\<le>now. lease_time m q i = Some t" if "i \<in> set ids" for i using assms that by (auto simp: selects_def)
  show "swept now a (fold (\<lambda>i. upd i to_ready) ids m i)" if "m i = Some a"
    using leased [of i] that by (auto simp: f swept_def lease_time_Some)
  show "fold (\<lambda>i. upd i to_ready) ids m i = None" if "m i = None" using that by (simp add: f)
  assume a: "m i = Some a" "aj_queue a = q" "aj_loc a = Active t" "t \<le> now" "few_expired m q now limit"
  have "int (length ids) < limit" using a(5) leased selects_distinct [OF assms] unfolding few_expired_def by blast
  moreover have "lease_time m q i = Some t" using a(1-3) by (simp add: lease_time_Some)
  ultimately have "i \<in> set ids" using assms a(4) unfolding selects_def by blast
  then show "fold (\<lambda>i. upd i to_ready) ids m i = Some (to_ready a)" using a(1) by (simp add: f)
qed

end

lemma few_expired_swept:
  assumes "few_expired m q now n" "\<And>i a. m i = Some a \<Longrightarrow> swept now a (m' i)" "\<And>i. m i = None \<Longrightarrow> m' i = None"
  shows "few_expired m' q now n"
proof -
  have "\<exists>t\<le>now. lease_time m q i = Some t" if "\<exists>t\<le>now. lease_time m' q i = Some t" for i
    using that assms(2,3) [of i] by (cases "m i") (auto simp: lease_time_Some swept_def to_ready_def)
  then show ?thesis using assms(1) unfolding few_expired_def by blast
qed

text \<open>The specification of a sweep over some queues.\<close>

definition swept_all :: "int \<Rightarrow> int \<Rightarrow> string list \<Rightarrow> astate \<Rightarrow> astate \<Rightarrow> bool" where
  "swept_all now limit qs m m' \<longleftrightarrow>
     (\<forall>j. m j = None \<longrightarrow> m' j = None) \<and> (\<forall>j a. m j = Some a \<longrightarrow> swept now a (m' j)) \<and>
     (\<forall>j a t. m j = Some a \<and> aj_loc a = Active t \<and> t \<le> now \<and> aj_queue a \<in> set qs \<and> few_expired m (aj_queue a) now limit \<longrightarrow>
        m' j = Some (to_ready a))"

lemma swept_allD:
  assumes "swept_all now limit qs m m'"
  shows "m j = Some a \<Longrightarrow> swept now a (m' j)" "m j = None \<Longrightarrow> m' j = None"
    "m j = Some a \<Longrightarrow> aj_loc a = Active t \<Longrightarrow> t \<le> now \<Longrightarrow> aj_queue a \<in> set qs \<Longrightarrow> few_expired m (aj_queue a) now limit \<Longrightarrow>
       m' j = Some (to_ready a)"
  using assms unfolding swept_all_def by blast+

lemma swept_all_Cons:
  assumes "swept_all now limit [q] m m1" "swept_all now limit qs m1 m'"
  shows "swept_all now limit (q # qs) m m'"
proof -
  note one = swept_allD [OF assms(1)] and two = swept_allD [OF assms(2)]
  have sw: "swept now a (m' j)" if "m j = Some a" for j a
    using one(1) [OF that] two(1) [of j] by (auto simp: swept_def to_ready_def)
  have "m' j = Some (to_ready a)"
    if "m j = Some a" "aj_loc a = Active t" "t \<le> now" "aj_queue a \<in> set (q # qs)" "few_expired m (aj_queue a) now limit" for j a t
  proof (cases "m1 j = Some (to_ready a)")
    case True
    then show ?thesis using two(1) [OF True] by (auto simp: swept_def to_ready_def)
  next
    case False
    then have j: "m1 j = Some a" using one(1) [OF that(1)] by (auto simp: swept_def)
    have "aj_queue a \<in> set qs" using one(3) [OF that(1-3) _ that(5)] that(4) False by auto
    moreover have "few_expired m1 (aj_queue a) now limit" using few_expired_swept [OF that(5)] one(1,2) by blast
    ultimately show ?thesis using two(3) [OF j that(2,3)] by blast
  qed
  moreover have "m' j = None" if "m j = None" for j using one(2) [OF that] two(2) [of j] by blast
  ultimately show ?thesis using sw unfolding swept_all_def by blast
qed

context redis_server
begin

lemma recover_swept:
  assumes "refines (view s) m" "wf_queue q"
  shows "\<exists>ids s' m'. RecoverExpiredLeases exec NoFault now q limit s = (Inr ids, s') \<and> refines (view s') m' \<and> swept_all now limit [q] m m'"
proof -
  obtain ids s' where r: "selects (lease_time m q) now limit ids" "RecoverExpiredLeases exec NoFault now q limit s = (Inr ids, s')"
    "refines (view s') (fold (\<lambda>i. upd i to_ready) ids m)"
    using recover_contract [OF assms] by blast
  moreover have "swept_all now limit [q] m (fold (\<lambda>i. upd i to_ready) ids m)"
    using recovered_jobs [OF r(1)] unfolding swept_all_def by auto
  ultimately show ?thesis by blast
qed

lemma sweep_queues_swept:
  assumes "refines (view s) m" "\<And>q. q \<in> set qs \<Longrightarrow> wf_queue q"
  shows "\<exists>m'. refines (view (snd (sweep_queues exec (\<lambda>_. NoFault) c now limit i qs s))) m' \<and> swept_all now limit qs m m'"
  using assms
proof (induction qs arbitrary: i s m)
  case Nil
  then show ?case by (auto simp: swept_all_def swept_def)
next
  case (Cons q qs)
  obtain ids s1 m1 where r: "RecoverExpiredLeases exec NoFault now q limit s = (Inr ids, s1)" "refines (view s1) m1" "swept_all now limit [q] m m1"
    using recover_swept [OF Cons.prems(1)] Cons.prems(2) by (meson list.set_intros(1))
  obtain m' where "refines (view (snd (sweep_queues exec (\<lambda>_. NoFault) c now limit (Suc i) qs s1))) m'" "swept_all now limit qs m1 m'"
    using Cons.IH [OF r(2)] Cons.prems(2) by (meson list.set_intros(2))
  moreover have "snd (sweep_queues exec (\<lambda>_. NoFault) c now limit i (q # qs) s) = snd (sweep_queues exec (\<lambda>_. NoFault) c now limit (Suc i) qs s1)"
    by (simp add: r(1) split: prod.splits)
  ultimately show ?case using swept_all_Cons [OF r(3)] by auto
qed

lemma sweep_swept:
  assumes "refines (view s) m" "\<And>q. q \<in> set (rc_queues cfg) \<Longrightarrow> wf_queue q"
  shows "\<exists>m'. refines (view (snd (sweep exec (\<lambda>_. NoFault) c now cfg s))) m' \<and> swept_all now (rc_limit cfg) (rc_queues cfg) m m'"
  unfolding sweep_def by (rule sweep_queues_swept [OF assms])

end

text \<open>
  C8: A job whose worker died is run again: a sweep at or after the end of its lease makes it ready (when
  fewer leases of its queue have expired than one sweep recovers), and a sweep never touches a job
  whose lease is still running, nor any job that is not active.
\<close>

theorem lost_job_is_recovered:
  assumes "redis_server exec view" "refines (view s) m" "\<And>q. q \<in> set (rc_queues cfg) \<Longrightarrow> wf_queue q"
    and "m i = Some a" "aj_loc a = Active t" "t \<le> now" "aj_queue a \<in> set (rc_queues cfg)" "few_expired m (aj_queue a) now (rc_limit cfg)"
  shows "\<exists>m'. refines (view (snd (sweep exec (\<lambda>_. NoFault) cancelled now cfg s))) m' \<and> m' i = Some (to_ready a) \<and>
     (\<forall>j b. m j = Some b \<longrightarrow> (\<forall>e. aj_loc b = Active e \<longrightarrow> now < e) \<longrightarrow> m' j = Some b)"
proof -
  obtain m' where m': "refines (view (snd (sweep exec (\<lambda>_. NoFault) cancelled now cfg s))) m'" "swept_all now (rc_limit cfg) (rc_queues cfg) m m'"
    using redis_server.sweep_swept [OF assms(1-3)] by blast
  have "m' j = Some b" if "m j = Some b" "\<forall>e. aj_loc b = Active e \<longrightarrow> now < e" for j b
    using swept_allD(1) [OF m'(2) that(1)] that(2) by (auto simp: swept_def)
  then show ?thesis using m'(1) swept_allD(3) [OF m'(2) assms(4-8)] by blast
qed


lemma lease_store2: "lease_time [''j1'' \<mapsto> to_active 31000 mail_ajob] q i = (if i = ''j1'' \<and> q = ''default'' then Some 31000 else None)"
  by (simp add: lease_time_def to_active_def)

lemma few_expired_store2: "few_expired [''j1'' \<mapsto> to_active 31000 mail_ajob] ''default'' now 100"
proof -
  have "length ids \<le> 1" if "distinct ids" "\<forall>i\<in>set ids. i = ''j1''" for ids :: "string list"
    using that by (cases ids rule: remdups_adj.cases) auto
  then show ?thesis by (fastforce simp: few_expired_def lease_store2 split: if_splits)
qed

theorem lost_job_is_recovered_witness:
  "\<exists>m'. refines (snd (sweep redis_doc (\<lambda>_. NoFault) False 40000
        (NewRecovery \<lparr>rc_interval = 0, rc_queues = [''default''], rc_limit = 0\<rparr>) store2)) m' \<and>
     m' ''j1'' = Some (to_ready (to_active 31000 mail_ajob))"
proof -
  let ?m = "[''j1'' \<mapsto> to_active 31000 mail_ajob]" and ?cfg = "NewRecovery \<lparr>rc_interval = 0, rc_queues = [''default''], rc_limit = 0\<rparr>"
  have "refines (id store2) ?m" using refines_store2 by simp
  moreover have "wf_queue q" if "q \<in> set (rc_queues ?cfg)" for q using that by (simp add: NewRecovery_def)
  moreover have "aj_queue (to_active 31000 mail_ajob) \<in> set (rc_queues ?cfg)" "aj_loc (to_active 31000 mail_ajob) = Active 31000"
    "few_expired ?m (aj_queue (to_active 31000 mail_ajob)) 40000 (rc_limit ?cfg)"
    using few_expired_store2 by (simp_all add: NewRecovery_def to_active_def)
  ultimately show ?thesis
    using lost_job_is_recovered [OF logical.redis_server_axioms, of store2 ?m ?cfg "''j1''" "to_active 31000 mail_ajob" 31000 40000 False] by auto
qed

end
