(* ===== verification/Fleet.thy ===== *)
theory Fleet
  imports Server_Loops
begin

text \<open>
  Many worker processes on one Redis: who runs which job, and the leases that keep them apart. The
  steps are single calls by any process, in any order, each by the caller's own clock; time passes no
  further than the lease of a running job, which is what heartbeats every 15 seconds are for.
\<close>

section \<open>Operations that do not touch a leased job\<close>

definition keeps_leased :: "int \<Rightarrow> astate \<Rightarrow> astate \<Rightarrow> bool" where
  "keeps_leased now m m' \<longleftrightarrow> (\<forall>i a e. m i = Some a \<and> aj_loc a = Active e \<and> now < e \<longrightarrow> m' i = Some a)"

definition quiet_for :: "int \<Rightarrow> astate \<Rightarrow> dataset \<Rightarrow> bool" where
  "quiet_for now m d \<longleftrightarrow> (\<exists>m'. refines d m' \<and> keeps_leased now m m')"

lemma quiet_forI: "refines d m' \<Longrightarrow> keeps_leased now m m' \<Longrightarrow> quiet_for now m d"
  by (auto simp: quiet_for_def)

lemma quiet_same: "refines d m \<Longrightarrow> quiet_for now m d"
  by (auto simp: quiet_for_def keeps_leased_def)

lemma quiet_enqueue:
  assumes "refines d m" "fresh d job"
  shows "quiet_for now m (snd (Enqueue redis_doc NoFault job uk period d))"
proof (cases "takes_lock uk period \<and> lookup d (uniqueKey uk) \<noteq> None")
  case True
  then show ?thesis using run_Enqueue_duplicate assms(1) quiet_same by simp
next
  case False
  note n = fresh_None [OF assms]
  obtain d' where "Enqueue redis_doc NoFault job uk period d = (Inr (), d')"
    "refines d' (m(ID job \<mapsto> new_job job (lock_key uk period)))"
    using Enqueue_refines [OF assms(1), of job uk period] assms(2) n False by (auto simp: fresh_def)
  moreover have "keeps_leased now m (m(ID job \<mapsto> new_job job (lock_key uk period)))" using n by (auto simp: keeps_leased_def)
  ultimately show ?thesis by (auto intro: quiet_forI)
qed

lemma quiet_selected:
  assumes "selects (due_time m q) t limit ids"
  shows "keeps_leased now m (fold (\<lambda>i. upd i to_ready) ids m)"
proof -
  have "aj_loc a \<noteq> Active e" if "i \<in> set ids" "m i = Some a" for i a e
    using assms that by (fastforce simp: selects_def due_time_Some)
  then show ?thesis by (auto simp: keeps_leased_def fold_upd [OF selects_distinct [OF assms]])
qed

lemma quiet_recovered:
  assumes "selects (lease_time m q) now limit ids"
  shows "keeps_leased now m (fold (\<lambda>i. upd i to_ready) ids m)"
proof -
  have "e \<le> now" if "i \<in> set ids" "m i = Some a" "aj_loc a = Active e" for i a e
    using assms that by (fastforce simp: selects_def lease_time_Some)
  then show ?thesis by (fastforce simp: keeps_leased_def fold_upd [OF selects_distinct [OF assms]])
qed

lemma quiet_sweeps:
  assumes "refines d m" "wf_queue q"
  shows "quiet_for now m (snd (Promote redis_doc NoFault t q limit d))"
    "quiet_for now m (snd (RecoverExpiredLeases redis_doc NoFault now q limit d))"
    "quiet_for now m (snd (PurgeDead redis_doc NoFault q d))"
proof -
  show "quiet_for now m (snd (Promote redis_doc NoFault t q limit d))"
    using Promote_refines [OF assms] quiet_selected by (metis snd_conv quiet_forI)
  show "quiet_for now m (snd (RecoverExpiredLeases redis_doc NoFault now q limit d))"
    using Recover_refines [OF assms] quiet_recovered by (metis snd_conv quiet_forI)
  have "keeps_leased now m (purged q m)" by (auto simp: keeps_leased_def purged_def at_loc_def)
  then show "quiet_for now m (snd (PurgeDead redis_doc NoFault q d))"
    using PurgeDead_refines [OF assms] by (metis snd_conv quiet_forI)
qed

lemma quiet_retry:
  assumes "refines d m" "wf_queue q" "wf_id i"
  shows "quiet_for now m (snd (RetryDead redis_doc NoFault q i d))"
proof (cases "at_loc m q i (\<lambda>l. l = Dead)")
  case True
  then obtain a where a: "m i = Some a" "aj_queue a = q" "aj_loc a = Dead" by (auto simp: at_loc_def)
  then have "keeps_leased now m (upd i to_retried m)" by (auto simp: keeps_leased_def upd_def)
  with RetryDead_refines [OF assms(1) a] show ?thesis by (metis snd_conv quiet_forI)
next
  case False
  then show ?thesis using RetryDead_missing [OF assms] assms(1) by (metis snd_conv quiet_same)
qed

lemma quiet_frames:
  assumes "refines d m"
  shows "quiet_for now m (snd (Heartbeat redis_doc NoFault t w d))" "quiet_for now m (snd (DeregisterWorker redis_doc NoFault w d))"
    "wf_queue q \<Longrightarrow> quiet_for now m (snd (Pause redis_doc NoFault q d))" "wf_queue q \<Longrightarrow> quiet_for now m (snd (Resume redis_doc NoFault q d))"
    "quiet_for now m (snd (SetResult redis_doc NoFault i v ttl d))"
  using frame_refines [OF assms] by (metis snd_conv quiet_same)+

text \<open>A dequeue leases a job that was ready, and says which.\<close>

lemma Dequeue_cases:
  assumes "refines d m" "wf_queue q"
  obtains (taken) rec a d' where "Dequeue redis_doc NoFault now q w d = (Inr (Some rec), d')" "m (ID rec) = Some a" "Queue rec = q"
      "aj_queue a = q" "aj_loc a = Ready" "refines d' (upd (ID rec) (to_active (now + 30000)) m)"
    | (none) "Dequeue redis_doc NoFault now q w d = (Inr None, d)"
proof (cases "lookup d (pausedKey q) = None \<and> (\<exists>j. at_loc m q j (\<lambda>l. l = Ready))")
  case True
  then obtain i where nx: "is_next m q i" using is_next_exists [OF assms] by blast
  then obtain a where i: "is_next m q i" "m i = Some a" "aj_queue a = q" "aj_loc a = Ready" unfolding is_next_def by blast
  obtain rec d' where r: "Dequeue redis_doc NoFault now q w d = (Inr (Some rec), d')" "refines d' (upd i (to_active (now + 30000)) m)"
    using Dequeue_refines [OF assms _ i(1,2)] True by blast
  obtain z where "zset_at d (readyKey q) = (aj_prio a, i) # z" using is_next_head [OF assms i(1,2)] by blast
  from run_Dequeue_pop [OF refines_shape [OF assms(1)] assms(2) _ this, of now w] True r(1)
  have "rec = parseJobRecordFromMap (jv_hash (jview_of d' i))" by auto
  moreover have "hash_of (jv_hash (jview_of d' i)) i (to_active (now + 30000) a)"
    using refinesD [OF r(2), of i] i(2) by (simp add: represents_def upd_def)
  ultimately have "ID rec = i" "Queue rec = q" using i(3) by (simp_all add: hash_of_def parseJobRecordFromMap_def mget_def to_active_def)
  then show thesis using taken r i by auto
next
  case False
  then show thesis using none run_Dequeue_paused Dequeue_none [OF assms] by blast
qed

lemma quiet_dequeue:
  assumes "refines d m" "wf_queue q"
  shows "quiet_for now m (snd (Dequeue redis_doc NoFault t q w d))"
proof (rule Dequeue_cases [OF assms, of t w])
  fix rec a d' assume d: "Dequeue redis_doc NoFault t q w d = (Inr (Some rec), d')" "m (ID rec) = Some a" "aj_loc a = Ready"
    "refines d' (upd (ID rec) (to_active (t + 30000)) m)"
  then have "keeps_leased now m (upd (ID rec) (to_active (t + 30000)) m)" by (auto simp: keeps_leased_def upd_def)
  then show ?thesis using d by (auto intro: quiet_forI)
qed (use assms(1) in \<open>simp add: quiet_same\<close>)

section \<open>The fleet\<close>

text \<open>
  The state: Redis, the true time, and the running jobs, each with its worker, the record its handler
  has, and the end of its lease. The clock of every process is within \<open>skew\<close> of the true time.
\<close>

record 's fleet =
  ft_redis :: 's
  ft_now :: int
  ft_running :: "(string \<times> JobRecord \<times> int) list"

definition near :: "int \<Rightarrow> 's fleet \<Rightarrow> int \<Rightarrow> bool" where
  "near skew f c \<longleftrightarrow> \<bar>c - ft_now f\<bar> \<le> skew"

text \<open>
  Calls of any process that have nothing to do with a running job, with any fault: those of clients,
  inspectors, promoters and recoveries, and every command of the rate limiter, the workflow manager
  and the scheduler on keys of their own. \<open>now\<close> is the clock of the caller.
\<close>

inductive quiet_step :: "'s server \<Rightarrow> ('s \<Rightarrow> dataset) \<Rightarrow> int \<Rightarrow> 's \<Rightarrow> 's \<Rightarrow> bool" for exec view now where
  s_enqueue: "fresh (view s) job \<Longrightarrow> quiet_step exec view now s (snd (Enqueue exec flt job uk period s))"
| s_dequeue: "wf_queue q \<Longrightarrow> quiet_step exec view now s (snd (Dequeue exec flt now q w s))"
| s_promote: "wf_queue q \<Longrightarrow> quiet_step exec view now s (snd (Promote exec flt now q limit s))"
| s_recover: "wf_queue q \<Longrightarrow> quiet_step exec view now s (snd (RecoverExpiredLeases exec flt now q limit s))"
| s_retry: "wf_queue q \<Longrightarrow> wf_id i \<Longrightarrow> quiet_step exec view now s (snd (RetryDead exec flt q i s))"
| s_purge: "wf_queue q \<Longrightarrow> quiet_step exec view now s (snd (PurgeDead exec flt q s))"
| s_heartbeat: "quiet_step exec view now s (snd (Heartbeat exec flt now w s))"
| s_deregister: "quiet_step exec view now s (snd (DeregisterWorker exec flt w s))"
| s_pause: "wf_queue q \<Longrightarrow> quiet_step exec view now s (snd (Pause exec flt q s))"
| s_resume: "wf_queue q \<Longrightarrow> quiet_step exec view now s (snd (Resume exec flt q s))"
| s_result: "quiet_step exec view now s (snd (SetResult exec flt i data ttl s))"
| s_foreign: "foreign (cmd_key c) \<Longrightarrow> ttl_safe c \<Longrightarrow> quiet_step exec view now s (snd (run flt (lcall exec c) s))"

text \<open>The calls that settle a job.\<close>

inductive settles :: "'s server \<Rightarrow> string \<Rightarrow> JobRecord \<Rightarrow> 's \<Rightarrow> 's \<Rightarrow> bool" for exec w rec where
  "settles exec w rec s (snd (Ack exec flt now (Queue rec) (ID rec) w s))"
| "settles exec w rec s (snd (Nack exec flt now (Queue rec) (ID rec) w err backoff skip s))"
| "settles exec w rec s (snd (RescheduleJob exec flt (Queue rec) (ID rec) w t s))"
| "settles exec w rec s (snd (CancelJob exec flt now (Queue rec) (ID rec) w reason s))"

text \<open>What an extension of a lease does to the running jobs: nothing when the call does not reach Redis.\<close>

definition extend_running :: "fault \<Rightarrow> string \<Rightarrow> string \<Rightarrow> int \<Rightarrow> (string \<times> JobRecord \<times> int) list \<Rightarrow> (string \<times> JobRecord \<times> int) list" where
  "extend_running flt i q e running =
     (case flt of ConnError _ \<Rightarrow> running
      | _ \<Rightarrow> map (\<lambda>(w, rec, e'). (w, rec, if ID rec = i \<and> Queue rec = q then e else e')) running)"

text \<open>
  A worker takes a job, settles one of its jobs (whether or not Redis learns of it) or dies; a
  heartbeat extends some lease, be the job running, settled or another worker's by now; a quiet call
  is made; time passes, but for no running job beyond the end of its lease by any clock.
\<close>

inductive fleet_step :: "'s server \<Rightarrow> ('s \<Rightarrow> dataset) \<Rightarrow> int \<Rightarrow> 's fleet \<Rightarrow> 's fleet \<Rightarrow> bool" for exec view skew where
  f_take: "near skew f c \<Longrightarrow> wf_queue q \<Longrightarrow> Dequeue exec NoFault (unixMilli c) q w (ft_redis f) = (Inr (Some rec), s') \<Longrightarrow>
     fleet_step exec view skew f (f\<lparr>ft_redis := s', ft_running := (w, rec, unixMilli c + 30000) # ft_running f\<rparr>)"
| f_settle: "(w, rec, e) \<in> set (ft_running f) \<Longrightarrow> settles exec w rec (ft_redis f) s' \<Longrightarrow>
     fleet_step exec view skew f (f\<lparr>ft_redis := s', ft_running := remove1 (w, rec, e) (ft_running f)\<rparr>)"
| f_extend: "near skew f c \<Longrightarrow> wf_queue q \<Longrightarrow> fleet_step exec view skew f
     (f\<lparr>ft_redis := snd (ExtendLease exec flt c q i DefaultLeaseDuration (ft_redis f)),
        ft_running := extend_running flt i q (unixMilli (c + DefaultLeaseDuration)) (ft_running f)\<rparr>)"
| f_quiet: "near skew f c \<Longrightarrow> quiet_step exec view (unixMilli c) (ft_redis f) s' \<Longrightarrow> fleet_step exec view skew f (f\<lparr>ft_redis := s'\<rparr>)"
| f_die: "fleet_step exec view skew f (f\<lparr>ft_running := filter (\<lambda>(w', _). w' \<noteq> w) (ft_running f)\<rparr>)"
| f_time: "ft_now f \<le> t \<Longrightarrow> \<forall>(w, rec, e)\<in>set (ft_running f). unixMilli (t + skew) < e \<Longrightarrow>
     clock (view (ft_redis f)) \<le> c \<Longrightarrow> view s' = tick c (view (ft_redis f)) \<Longrightarrow>
     fleet_step exec view skew f (f\<lparr>ft_redis := s', ft_now := t\<rparr>)"

text \<open>The latest time on any clock, in milliseconds.\<close>

definition horizon :: "int \<Rightarrow> 's fleet \<Rightarrow> int" where
  "horizon skew f = unixMilli (ft_now f + skew)"

lemma near_horizon: "near skew f c \<Longrightarrow> unixMilli c \<le> horizon skew f"
  by (auto simp: near_def horizon_def unixMilli_def intro!: zdiv_mono1)

lemma new_lease:
  assumes "near skew f c" "2 * skew + 1000000 \<le> DefaultLeaseDuration"
  shows "horizon skew f < unixMilli (c + DefaultLeaseDuration)" "unixMilli (c + DefaultLeaseDuration) = unixMilli c + 30000"
proof -
  have "ft_now f + skew + 1000000 \<le> c + DefaultLeaseDuration" using assms by (simp add: near_def)
  then have "(ft_now f + skew + 1000000) div 1000000 \<le> (c + DefaultLeaseDuration) div 1000000" by (rule zdiv_mono1) simp
  then show "horizon skew f < unixMilli (c + DefaultLeaseDuration)" by (simp add: horizon_def unixMilli_def)
  show "unixMilli (c + DefaultLeaseDuration) = unixMilli c + 30000" by (simp add: unixMilli_def DefaultLeaseDuration_def)
qed

text \<open>What is true of the running jobs: each is leased, and the lease has not ended by any clock.\<close>

definition leased :: "astate \<Rightarrow> int \<Rightarrow> string \<times> JobRecord \<times> int \<Rightarrow> bool" where
  "leased m now = (\<lambda>(w, rec, e). now < e \<and> (\<exists>a. m (ID rec) = Some a \<and> aj_queue a = Queue rec \<and> aj_loc a = Active e))"

definition fleet_inv :: "('s \<Rightarrow> dataset) \<Rightarrow> int \<Rightarrow> 's fleet \<Rightarrow> astate \<Rightarrow> bool" where
  "fleet_inv view skew f m \<longleftrightarrow> refines (view (ft_redis f)) m \<and> persistent (view (ft_redis f)) \<and>
     (\<forall>x\<in>set (ft_running f). leased m (horizon skew f) x) \<and> distinct (map (\<lambda>(_, rec, _). ID rec) (ft_running f))"

lemma leased_same: "leased m now x \<Longrightarrow> m' (ID (fst (snd x))) = m (ID (fst (snd x))) \<Longrightarrow> leased m' now x"
  by (cases x) (simp add: leased_def)

lemma leased_kept: "keeps_leased t m m' \<Longrightarrow> t \<le> now \<Longrightarrow> leased m now x \<Longrightarrow> leased m' now x"
  by (cases x) (fastforce simp: leased_def keeps_leased_def)

lemma fleet_invD: "fleet_inv view skew f m \<Longrightarrow> x \<in> set (ft_running f) \<Longrightarrow> leased m (horizon skew f) x"
  by (simp add: fleet_inv_def)

lemma fleet_inv_redis: "fleet_inv view skew f m \<Longrightarrow> refines (view (ft_redis f)) m" "fleet_inv view skew f m \<Longrightarrow> persistent (view (ft_redis f))"
  by (simp_all add: fleet_inv_def)

lemma horizon_update [simp]: "horizon skew (f\<lparr>ft_redis := s\<rparr>) = horizon skew f" "horizon skew (f\<lparr>ft_running := r\<rparr>) = horizon skew f"
  by (simp_all add: horizon_def)

context redis_server
begin

lemma foreign_step:
  assumes "foreign (cmd_key c)" "ttl_safe c" "refines (view s) m"
  shows "refines (view (snd (run flt (lcall exec c) s))) m"
    "persistent (view s) \<Longrightarrow> persistent (view (snd (run flt (lcall exec c) s)))"
proof -
  note v = sim_snd [OF sim_run [OF sim_lcall], of flt c s]
  have "keeps (agree (view s)) (run flt (lcall redis_doc c))" using assms(1) by (intro keep_intros disjI1)
  then have "agree (view s) (snd (run flt (lcall redis_doc c) (view s)))" using keepsD by fastforce
  then show "refines (view (snd (run flt (lcall exec c) s))) m" using refines_agree [OF assms(3)] v by simp
  have "keeps persistent (run flt (lcall redis_doc c))" using assms(2) by (intro keep_intros)
  then show "persistent (view s) \<Longrightarrow> persistent (view (snd (run flt (lcall exec c) s)))" using keepsD v by fastforce
qed

lemma quiet_step_keeps:
  assumes "quiet_step exec view now s s'" "refines (view s) m"
  shows "quiet_for now m (view s')"
  using assms
proof (induction rule: quiet_step.induct)
  case (s_foreign c s flt)
  then show ?case using foreign_step quiet_same by blast
qed (simp only: queue_sim [THEN sim_snd],
     metis queue_fault quiet_enqueue quiet_dequeue quiet_sweeps quiet_retry quiet_frames quiet_same)+

lemma qstep_persistent: "qstep exec view s s' \<Longrightarrow> refines (view s) m \<Longrightarrow> persistent (view s) \<Longrightarrow> persistent (view s')"
  using qstep_simulation by blast

lemma quiet_step_persistent: "quiet_step exec view now s s' \<Longrightarrow> refines (view s) m \<Longrightarrow> persistent (view s) \<Longrightarrow> persistent (view s')"
proof (induction rule: quiet_step.induct)
  case (s_foreign c s flt)
  then show ?case using foreign_step by blast
qed (blast intro: qstep_persistent qstep.intros)+

text \<open>Settling a job changes no other one.\<close>

lemma settles_other:
  assumes "settles exec w rec s s'" "refines (view s) m" "at_loc m (Queue rec) (ID rec) is_active"
  shows "\<exists>m'. refines (view s') m' \<and> (\<forall>i. i \<noteq> ID rec \<longrightarrow> m' i = m i)" "qstep exec view s s'"
proof -
  obtain a t where a: "m (ID rec) = Some a" "aj_queue a = Queue rec" "aj_loc a = Active t" using assms(3) by (auto simp: at_loc_def)
  have held: "holds (view s) (Queue rec) (ID rec)"
    using refines_active_iff [OF assms(2), of "Queue rec" "ID rec"] refines_wf [OF assms(2) a(1)] a by (auto simp: holds_def)
  then show "qstep exec view s s'" using assms(1) by (auto elim!: settles.cases intro: qstep.intros)
  have others: "\<exists>m'. refines d' m' \<and> (\<forall>i. i \<noteq> ID rec \<longrightarrow> m' i = m i)" if "refines d' (upd (ID rec) f m)" for d' f
    using that by (intro exI [of _ "upd (ID rec) f m"]) (simp add: upd_def)
  note ops = Ack_refines [OF assms(2) a] Nack_refines [OF assms(2) a] RescheduleJob_refines [OF assms(2) a] CancelJob_refines [OF assms(2) a]
  show "\<exists>m'. refines (view s') m' \<and> (\<forall>i. i \<noteq> ID rec \<longrightarrow> m' i = m i)"
    using assms(1)
    by (cases rule: settles.cases)
      (simp only: queue_sim [THEN sim_snd], metis queue_fault ops others assms(2) snd_conv)+
qed

end

text \<open>Every step of the fleet keeps the invariant.\<close>

context redis_server
begin

lemma fleet_take:
  assumes "fleet_inv view skew f m" "wf_queue q" "Dequeue exec NoFault (unixMilli c) q w (ft_redis f) = (Inr (Some rec), s')"
    and "near skew f c" "2 * skew + 1000000 \<le> DefaultLeaseDuration"
  shows "\<exists>m'. fleet_inv view skew (f\<lparr>ft_redis := s', ft_running := (w, rec, unixMilli c + 30000) # ft_running f\<rparr>) m'"
proof -
  let ?e = "unixMilli c + 30000" and ?s = "ft_redis f"
  note ref = fleet_inv_redis [OF assms(1)]
  have run: "Dequeue redis_doc NoFault (unixMilli c) q w (view ?s) = (Inr (Some rec), view s')"
    using sim_fst [OF sim_Dequeue] sim_snd [OF sim_Dequeue] assms(3) by (metis fst_conv snd_conv prod.collapse)
  obtain a where a: "m (ID rec) = Some a" "Queue rec = q" "aj_queue a = q" "aj_loc a = Ready"
    "refines (view s') (upd (ID rec) (to_active ?e) m)"
    by (rule Dequeue_cases [OF ref(1) assms(2), of "unixMilli c" w]) (use run in simp_all)
  have "qstep exec view ?s s'" using q_dequeue [OF assms(2), of exec view ?s NoFault "unixMilli c" w] assms(3) by simp
  then have "persistent (view s')" using qstep_persistent ref by blast
  moreover have other: "ID (fst (snd x)) \<noteq> ID rec" if "x \<in> set (ft_running f)" for x
    using fleet_invD [OF assms(1) that] a(1,4) by (cases x) (auto simp: leased_def)
  moreover have "leased (upd (ID rec) (to_active ?e) m) (horizon skew f) x" if "x \<in> set (ft_running f)" for x
    using leased_same [OF fleet_invD [OF assms(1) that]] other [OF that] by (simp add: upd_def)
  moreover have "leased (upd (ID rec) (to_active ?e) m) (horizon skew f) (w, rec, ?e)"
    using a new_lease [OF assms(4,5)] by (simp add: leased_def upd_def to_active_def)
  moreover have "ID rec \<notin> (\<lambda>(_, rec, _). ID rec) ` set (ft_running f)" using other by fastforce
  ultimately show ?thesis using a(5) assms(1)
    by (intro exI [of _ "upd (ID rec) (to_active ?e) m"]) (simp add: fleet_inv_def)
qed

lemma fleet_settle:
  assumes "fleet_inv view skew f m" "(w, rec, e) \<in> set (ft_running f)" "settles exec w rec (ft_redis f) s'"
  shows "\<exists>m'. fleet_inv view skew (f\<lparr>ft_redis := s', ft_running := remove1 (w, rec, e) (ft_running f)\<rparr>) m'"
proof -
  note ref = fleet_inv_redis [OF assms(1)]
  have "at_loc m (Queue rec) (ID rec) is_active" using fleet_invD [OF assms(1,2)] by (auto simp: leased_def at_loc_def)
  note other = settles_other [OF assms(3) ref(1) this]
  obtain m' where m': "refines (view s') m'" "\<And>i. i \<noteq> ID rec \<Longrightarrow> m' i = m i" using other(1) by blast
  have dist: "distinct (ft_running f)" "inj_on (\<lambda>(_, rec, _). ID rec) (set (ft_running f))"
    using assms(1) by (simp_all add: fleet_inv_def distinct_map)
  have "leased m' (horizon skew f) x" if "x \<in> set (ft_running f)" "x \<noteq> (w, rec, e)" for x
  proof -
    have "ID (fst (snd x)) \<noteq> ID rec" using inj_onD [OF dist(2) _ that(1) assms(2)] that(2) by (cases x) auto
    then show ?thesis using leased_same [OF fleet_invD [OF assms(1) that(1)]] m'(2) by simp
  qed
  moreover have "distinct (map (\<lambda>(_, rec, _). ID rec) (remove1 (w, rec, e) (ft_running f)))"
    using dist by (auto simp: distinct_map inj_on_diff)
  ultimately show ?thesis using m'(1) qstep_persistent [OF other(2) ref] dist(1)
    by (intro exI [of _ m']) (simp add: fleet_inv_def)
qed

text \<open>An extension that reaches Redis moves the end of the lease, whoever runs the job.\<close>

lemma ExtendLease_runs:
  assumes "refines (view s) m" "wf_queue q"
  obtains m' where "refines (view (snd (ExtendLease exec flt c q i DefaultLeaseDuration s))) m'"
    "m' = (case flt of ConnError _ \<Rightarrow> m
           | _ \<Rightarrow> if at_loc m q i is_active then upd i (\<lambda>a. a\<lparr>aj_loc := Active (unixMilli (c + DefaultLeaseDuration))\<rparr>) m else m)"
proof -
  let ?m = "if at_loc m q i is_active then upd i (\<lambda>a. a\<lparr>aj_loc := Active (unixMilli (c + DefaultLeaseDuration))\<rparr>) m else m"
  have "refines (view (snd (ExtendLease exec NoFault c q i DefaultLeaseDuration s))) ?m"
    using ExtendLease_refines [OF assms, of c i DefaultLeaseDuration] by (auto simp: sim_snd [OF sim_ExtendLease])
  moreover have "snd (ExtendLease exec (ReplyLost x) c q i DefaultLeaseDuration s) = snd (ExtendLease exec NoFault c q i DefaultLeaseDuration s)" for x
    by (auto simp: ExtendLease_def go_result_def split: prod.split sum.split)
  moreover have "snd (ExtendLease exec (ConnError x) c q i DefaultLeaseDuration s) = s" for x
    by (simp add: ExtendLease_def go_result_def)
  ultimately show thesis using that assms(1) by (cases flt) simp_all
qed

lemma extended_leased:
  assumes "leased m now (w, rec, e')" "now < e" "wf_queue q"
    and "m' = (if at_loc m q i is_active then upd i (\<lambda>a. a\<lparr>aj_loc := Active e\<rparr>) m else m)"
  shows "leased m' now (w, rec, if ID rec = i \<and> Queue rec = q then e else e')"
  using assms by (auto simp: leased_def upd_def at_loc_def)

lemma fleet_extend:
  assumes "fleet_inv view skew f m" "wf_queue q" "near skew f c" "2 * skew + 1000000 \<le> DefaultLeaseDuration"
  shows "\<exists>m'. fleet_inv view skew (f\<lparr>ft_redis := snd (ExtendLease exec flt c q i DefaultLeaseDuration (ft_redis f)),
        ft_running := extend_running flt i q (unixMilli (c + DefaultLeaseDuration)) (ft_running f)\<rparr>) m'"
proof -
  let ?e = "unixMilli (c + DefaultLeaseDuration)" and ?s = "snd (ExtendLease exec flt c q i DefaultLeaseDuration (ft_redis f))"
  note ref = fleet_inv_redis [OF assms(1)]
  obtain m' where m': "refines (view ?s) m'"
    "m' = (case flt of ConnError _ \<Rightarrow> m | _ \<Rightarrow> if at_loc m q i is_active then upd i (\<lambda>a. a\<lparr>aj_loc := Active ?e\<rparr>) m else m)"
    by (rule ExtendLease_runs [OF ref(1) assms(2)])
  have "persistent (view ?s)" using qstep_persistent [OF q_extend [OF assms(2)]] ref by blast
  moreover have "leased m' (horizon skew f) x" if run: "x \<in> set (extend_running flt i q ?e (ft_running f))" for x
  proof (cases "\<exists>z. flt = ConnError z")
    case True
    then show ?thesis using run m'(2) fleet_invD [OF assms(1), of x] by (auto simp: extend_running_def)
  next
    case False
    then have m2: "m' = (if at_loc m q i is_active then upd i (\<lambda>a. a\<lparr>aj_loc := Active ?e\<rparr>) m else m)"
      using m'(2) by (auto split: fault.splits)
    obtain w rec e' where x: "(w, rec, e') \<in> set (ft_running f)" "x = (w, rec, if ID rec = i \<and> Queue rec = q then ?e else e')"
      using run False by (auto simp: extend_running_def split: fault.splits)
    show ?thesis unfolding x(2) by (rule extended_leased [OF fleet_invD [OF assms(1) x(1)] new_lease(1) [OF assms(3,4)] assms(2) m2])
  qed
  moreover have "map (\<lambda>(_, rec, _). ID rec) (extend_running flt i q ?e (ft_running f)) = map (\<lambda>(_, rec, _). ID rec) (ft_running f)"
    by (cases flt) (auto simp: extend_running_def)
  ultimately show ?thesis using m'(1) assms(1) by (intro exI [of _ m']) (simp add: fleet_inv_def)
qed

lemma fleet_step_inv:
  assumes "fleet_step exec view skew f f'" "2 * skew + 1000000 \<le> DefaultLeaseDuration" "\<exists>m. fleet_inv view skew f m"
  shows "\<exists>m. fleet_inv view skew f' m"
proof -
  obtain m where m: "fleet_inv view skew f m" using assms(3) by blast
  note ref = fleet_inv_redis [OF m]
  show ?thesis using assms(1)
  proof cases
    case (f_quiet c s')
    obtain m' where "refines (view s') m'" "keeps_leased (unixMilli c) m m'"
      using quiet_step_keeps [OF f_quiet(3) ref(1)] by (auto simp: quiet_for_def)
    then show ?thesis
      using m leased_kept [OF _ near_horizon [OF f_quiet(2)]] quiet_step_persistent [OF f_quiet(3) ref] f_quiet(1)
      by (auto simp: fleet_inv_def)
  next
    case (f_die w)
    then show ?thesis using m by (auto simp: fleet_inv_def distinct_map_filter)
  next
    case (f_time t c s')
    then have "refines (view s') m" "persistent (view s')" using refines_tick [OF ref] ref(2) by simp_all
    then show ?thesis using m f_time by (intro exI [of _ m]) (fastforce simp: fleet_inv_def leased_def horizon_def)
  qed (use fleet_take [OF m _ _ _ assms(2)] fleet_settle [OF m] fleet_extend [OF m _ _ assms(2)] in blast)+
qed

lemma fleet_steps_inv:
  assumes "(fleet_step exec view skew)\<^sup>*\<^sup>* f f'" "2 * skew + 1000000 \<le> DefaultLeaseDuration" "\<exists>m. fleet_inv view skew f m"
  shows "\<exists>m. fleet_inv view skew f' m"
  using assms(1) by (induction rule: rtranclp_induct) (use assms(2,3) fleet_step_inv in blast)+

end

lemma fleet_inv_init: "refines (view s) m \<Longrightarrow> persistent (view s) \<Longrightarrow> fleet_inv view skew \<lparr>ft_redis = s, ft_now = t, ft_running = []\<rparr> m"
  by (simp add: fleet_inv_def)

text \<open>
  C9: A job runs in at most one place. Any number of workers take, finish, retry and reschedule jobs,
  extend leases and die, while clients enqueue, promoters promote, the recovery of any process
  sweeps, limiters, workflows and schedulers do their work and any call fails or succeeds, in any
  order, each by a clock that is off by up to almost half a lease: as long as leases are extended
  before they end, no two running handlers have the same job, and the lease of each of them in Redis
  has not ended by any clock.
\<close>

theorem one_worker_per_job:
  assumes "redis_server exec view" "reachable exec view s" "2 * skew + 1000000 \<le> DefaultLeaseDuration"
    and "(fleet_step exec view skew)\<^sup>*\<^sup>* \<lparr>ft_redis = s, ft_now = t, ft_running = []\<rparr> f"
  shows "distinct (map (\<lambda>(w, rec, e). ID rec) (ft_running f)) \<and>
    (\<forall>(w, rec, e)\<in>set (ft_running f). unixMilli (ft_now f + skew) < e \<and>
       zscore (zset_at (view (ft_redis f)) (leaseKey (Queue rec))) (ID rec) = Some e)"
proof -
  obtain m0 where "refines (view s) m0" "persistent (view s)" using reachable_refines [OF assms(1,2)] by blast
  then obtain m where m: "fleet_inv view skew f m"
    using redis_server.fleet_steps_inv [OF assms(1,4,3)] fleet_inv_init [of view s m0 skew t] by blast
  note ref = fleet_inv_redis(1) [OF m]
  have "unixMilli (ft_now f + skew) < e \<and> zscore (zset_at (view (ft_redis f)) (leaseKey (Queue rec))) (ID rec) = Some e"
    if run: "(w, rec, e) \<in> set (ft_running f)" for w rec e
  proof -
    obtain a where a: "unixMilli (ft_now f + skew) < e" "m (ID rec) = Some a" "aj_queue a = Queue rec" "aj_loc a = Active e"
      using fleet_invD [OF m run] by (auto simp: leased_def horizon_def)
    then show ?thesis using refines_lease_iff [OF ref, of "Queue rec" "ID rec"] refines_wf [OF ref a(2)] by auto
  qed
  then show ?thesis using m by (auto simp: fleet_inv_def)
qed

text \<open>
  Clocks off by up to a second: a job taken at second 1 with a lease until second 31, extended at
  second 20, still has its lease at second 45.
\<close>

theorem one_worker_per_job_witness:
  "\<exists>rec f. (fleet_step redis_doc id 1000000000)\<^sup>*\<^sup>* \<lparr>ft_redis = store1, ft_now = 1000000000, ft_running = []\<rparr> f \<and>
     ft_now f = 45000000000 \<and> ft_running f = [(''w1'', rec, 50000)] \<and>
     zscore (zset_at (ft_redis f) (leaseKey (Queue rec))) (ID rec) = Some 50000"
proof -
  let ?f0 = "\<lparr>ft_redis = store1, ft_now = 1000000000, ft_running = []\<rparr>" and ?step = "fleet_step redis_doc id 1000000000"
  obtain rec a s1 where take: "Dequeue redis_doc NoFault 1000 ''default'' ''w1'' store1 = (Inr (Some rec), s1)" "Queue rec = ''default''"
  proof (rule Dequeue_cases [OF refines_store1, of "''default''" 1000 "''w1''"])
    assume "Dequeue redis_doc NoFault 1000 ''default'' ''w1'' store1 = (Inr None, store1)"
    then show thesis using Dequeue_refines [OF refines_store1 _ _ next_store1, of mail_ajob 1000 "''w1''"] store1_paused by auto
  qed (use that in auto)
  let ?at = "\<lambda>t s. tick (max (clock s) t) s"
  let ?f1 = "\<lparr>ft_redis = s1, ft_now = 1000000000, ft_running = [(''w1'', rec, 31000)]\<rparr>"
  let ?f2 = "?f1\<lparr>ft_redis := ?at 20000 s1, ft_now := 20000000000\<rparr>"
  let ?s3 = "snd (ExtendLease redis_doc NoFault 20000000000 ''default'' (ID rec) DefaultLeaseDuration (?at 20000 s1))"
  let ?f3 = "?f2\<lparr>ft_redis := ?s3, ft_running := [(''w1'', rec, 50000)]\<rparr>"
  let ?f4 = "?f3\<lparr>ft_redis := ?at 45000 ?s3, ft_now := 45000000000\<rparr>"
  note ms = near_def unixMilli_def DefaultLeaseDuration_def extend_running_def
  have "?step ?f0 ?f1" using f_take [of 1000000000 ?f0 1000000000 "''default''" redis_doc "''w1''" rec s1 id] take by (simp add: ms)
  moreover have "?step ?f1 ?f2" using f_time [of ?f1 20000000000 1000000000 id "max (clock s1) 20000" "?at 20000 s1" redis_doc] by (simp add: ms)
  moreover have "?step ?f2 ?f3"
    using f_extend [of 1000000000 ?f2 20000000000 "''default''" redis_doc id NoFault "ID rec"] take(2) by (simp add: ms)
  moreover have "?step ?f3 ?f4"
    using f_time [of ?f3 45000000000 1000000000 id "max (clock ?s3) 45000" "?at 45000 ?s3" redis_doc] by (simp add: ms)
  ultimately have "?step\<^sup>*\<^sup>* ?f0 ?f4" by (meson converse_rtranclp_into_rtranclp rtranclp.rtrancl_refl)
  with one_worker_per_job [OF logical.redis_server_axioms reach_store1 _ this] show ?thesis
    by (intro exI [of _ rec] exI [of _ ?f4]) (simp add: DefaultLeaseDuration_def)
qed

text \<open>A tick of the heartbeat loop is a sequence of such steps, whatever it extends and whatever fails.\<close>

lemma extend_leases_steps:
  assumes "\<And>i. near skew f (T i)" "\<And>j q. (j, q) \<in> set inflight \<Longrightarrow> wf_queue q"
  shows "\<exists>f'. (fleet_step exec view skew)\<^sup>*\<^sup>* f f' \<and> ft_redis f' = extend_leases exec F T k inflight (ft_redis f) \<and> ft_now f' = ft_now f"
  using assms
proof (induction inflight arbitrary: k f)
  case (Cons jq inflight)
  obtain j q where jq: "jq = (j, q)" by (cases jq)
  let ?f = "f\<lparr>ft_redis := snd (ExtendLease exec (F k) (T k) q j DefaultLeaseDuration (ft_redis f)),
    ft_running := extend_running (F k) j q (unixMilli (T k + DefaultLeaseDuration)) (ft_running f)\<rparr>"
  have step: "fleet_step exec view skew f ?f" using Cons.prems jq by (intro f_extend) auto
  have "near skew ?f (T i)" for i using Cons.prems(1) [of i] by (simp add: near_def)
  moreover have "wf_queue q'" if "(j', q') \<in> set inflight" for j' q' using Cons.prems(2) that by (meson list.set_intros(2))
  ultimately obtain f' where "(fleet_step exec view skew)\<^sup>*\<^sup>* ?f f'"
    "ft_redis f' = extend_leases exec F T (Suc k) inflight (ft_redis ?f)" "ft_now f' = ft_now ?f"
    using Cons.IH [of ?f "Suc k"] by blast
  with step show ?case unfolding jq by (intro exI [of _ f']) (simp add: converse_rtranclp_into_rtranclp)
qed auto

lemma heartbeat_fleet_steps:
  assumes "\<And>i. near skew f (T i)" "\<And>j q. (j, q) \<in> set inflight \<Longrightarrow> wf_queue q"
  shows "\<exists>f'. (fleet_step exec view skew)\<^sup>*\<^sup>* f f' \<and> ft_redis f' = heartbeat_tick exec F stopping T w inflight (ft_redis f) \<and> ft_now f' = ft_now f"
proof -
  let ?f = "f\<lparr>ft_redis := snd (Heartbeat exec (F 0) (unixMilli (T 0)) w (ft_redis f))\<rparr>"
  have step: "fleet_step exec view skew f ?f" by (rule f_quiet [OF assms(1) s_heartbeat])
  have near: "near skew ?f (T i)" for i using assms(1) [of i] by (simp add: near_def)
  have "\<exists>f'. (fleet_step exec view skew)\<^sup>*\<^sup>* ?f f' \<and> ft_redis f' = extend_leases exec F T 1 inflight (ft_redis ?f) \<and> ft_now f' = ft_now ?f"
    using near assms(2) by (rule extend_leases_steps)
  then obtain f' where f': "(fleet_step exec view skew)\<^sup>*\<^sup>* ?f f'" "ft_redis f' = extend_leases exec F T 1 inflight (ft_redis ?f)" "ft_now f' = ft_now f"
    by auto
  have "heartbeat_tick exec F stopping T w inflight (ft_redis f) \<in> {ft_redis ?f, extend_leases exec F T 1 inflight (ft_redis ?f)}"
    by (auto simp: heartbeat_tick_def split: prod.split sum.split)
  then show ?thesis
  proof
    assume "heartbeat_tick exec F stopping T w inflight (ft_redis f) = ft_redis ?f"
    with step show ?thesis by (intro exI [of _ ?f]) auto
  next
    assume "heartbeat_tick exec F stopping T w inflight (ft_redis f) \<in> {extend_leases exec F T 1 inflight (ft_redis ?f)}"
    with step f' show ?thesis by (intro exI [of _ f']) (simp add: converse_rtranclp_into_rtranclp)
  qed
qed

end
