(* ===== verification/Server_Polling.thy ===== *)
theory Server_Polling
  imports Server_Loops "HOL-Library.Multiset"
begin

text \<open>
  Polling: the order in which the strict poller asks its queues, and how often the weighted one does.
\<close>

section \<open>Sorting\<close>

text \<open>What \<open>slices.SortFunc\<close> promises for a comparison that is a strict weak order; it need not be stable.\<close>

definition strict_weak :: "('a \<Rightarrow> 'a \<Rightarrow> int) \<Rightarrow> bool" where
  "strict_weak cmp \<longleftrightarrow> (\<forall>a. \<not> cmp a a < 0) \<and> (\<forall>a b c. cmp a b < 0 \<longrightarrow> cmp b c < 0 \<longrightarrow> cmp a c < 0) \<and>
     (\<forall>a b c. \<not> cmp a b < 0 \<longrightarrow> \<not> cmp b c < 0 \<longrightarrow> \<not> cmp a c < 0)"

locale sort_func =
  fixes sortFunc :: "('a \<Rightarrow> 'a \<Rightarrow> int) \<Rightarrow> 'a list \<Rightarrow> 'a list"
  assumes sort_perm: "mset (sortFunc cmp xs) = mset xs"
    and sort_sorted: "strict_weak cmp \<Longrightarrow> sorted_wrt (\<lambda>a b. \<not> cmp b a < 0) (sortFunc cmp xs)"
begin

lemma sort_set: "set (sortFunc cmp xs) = set xs"
  by (metis sort_perm set_mset_mset)

text \<open>Whatever stands behind an element is not smaller.\<close>

lemma smaller_before:
  assumes "strict_weak cmp" "sortFunc cmp xs = as @ x # bs" "y \<in> set xs" "cmp y x < 0"
  shows "y \<in> set as"
proof -
  have "sorted_wrt (\<lambda>a b. \<not> cmp b a < 0) (as @ x # bs)" using sort_sorted [OF assms(1), of xs] by (simp add: assms(2))
  then have "\<forall>b\<in>set bs. \<not> cmp b x < 0" by (simp add: sorted_wrt_append)
  moreover have "\<not> cmp x x < 0" using assms(1) by (simp add: strict_weak_def)
  ultimately have "y \<notin> set (x # bs)" using assms(4) by auto
  moreover have "y \<in> set (as @ x # bs)" using assms(3) sort_set [of cmp xs] by (simp only: assms(2))
  ultimately show ?thesis by simp
qed

end

text \<open>Insertion sort, which \<open>slices.SortFunc\<close> uses for up to 12 elements.\<close>

fun insert_by :: "('a \<Rightarrow> 'a \<Rightarrow> int) \<Rightarrow> 'a \<Rightarrow> 'a list \<Rightarrow> 'a list" where
  "insert_by cmp x [] = [x]"
| "insert_by cmp x (y # ys) = (if cmp x y < 0 then x # y # ys else y # insert_by cmp x ys)"

definition insertion_sort :: "('a \<Rightarrow> 'a \<Rightarrow> int) \<Rightarrow> 'a list \<Rightarrow> 'a list" where
  "insertion_sort cmp xs = fold (insert_by cmp) xs []"

lemma mset_insert_by: "mset (insert_by cmp x ys) = add_mset x (mset ys)"
  by (induction ys) auto

lemma set_insert_by: "set (insert_by cmp x ys) = insert x (set ys)"
  by (induction ys) auto

lemma sorted_insert_by:
  assumes "strict_weak cmp"
  shows "sorted_wrt (\<lambda>a b. \<not> cmp b a < 0) ys \<Longrightarrow> sorted_wrt (\<lambda>a b. \<not> cmp b a < 0) (insert_by cmp x ys)"
proof (induction ys)
  case (Cons y ys)
  have "\<not> cmp b x < 0" if "cmp x y < 0" "b \<in> set (y # ys)" for b
    using assms that Cons.prems unfolding strict_weak_def by (metis list.set_cases set_ConsD sorted_wrt.simps(2))
  then show ?case using Cons by (auto simp: set_insert_by)
qed simp

lemma insertion_sort_perm: "mset (fold (insert_by cmp) xs ys) = mset xs + mset ys"
  by (induction xs arbitrary: ys) (simp_all add: mset_insert_by)

lemma insertion_sort_sorted:
  "strict_weak cmp \<Longrightarrow> sorted_wrt (\<lambda>a b. \<not> cmp b a < 0) ys \<Longrightarrow> sorted_wrt (\<lambda>a b. \<not> cmp b a < 0) (fold (insert_by cmp) xs ys)"
  by (induction xs arbitrary: ys) (simp_all add: sorted_insert_by)

interpretation insertion: sort_func insertion_sort
  by unfold_locales (simp_all add: insertion_sort_def insertion_sort_perm insertion_sort_sorted)

lemma strict_weak_by_weight: "strict_weak by_weight"
  by (auto simp: strict_weak_def by_weight_def)

section \<open>Strict polling\<close>

text \<open>A queue that has nothing to give.\<close>

definition blocked :: "dataset \<Rightarrow> astate \<Rightarrow> string \<Rightarrow> bool" where
  "blocked d m q \<longleftrightarrow> lookup d (pausedKey q) \<noteq> None \<or> (\<forall>i. \<not> at_loc m q i (\<lambda>l. l = Ready))"

text \<open>What a round promises of what it returns: the first queue that is not blocked, if there is one.\<close>

definition strict_ok :: "dataset \<Rightarrow> astate \<Rightarrow> string list \<Rightarrow> (string \<times> JobRecord) option \<Rightarrow> bool" where
  "strict_ok d m qs x \<longleftrightarrow>
     (case x of
        None \<Rightarrow> \<forall>q\<in>set qs. blocked d m q
      | Some (q, rec) \<Rightarrow> \<exists>pre post. qs = pre @ q # post \<and> (\<forall>p\<in>set pre. blocked d m p) \<and> \<not> blocked d m q)"

lemma strict_okI:
  "qs = pre @ q # post \<Longrightarrow> \<forall>p\<in>set pre. blocked d m p \<Longrightarrow> \<not> blocked d m q \<Longrightarrow> strict_ok d m qs (Some (q, r))"
  by (auto simp: strict_ok_def)

lemma strict_ok_Cons:
  assumes "blocked d m q" "strict_ok d m qs x"
  shows "strict_ok d m (q # qs) x"
proof (cases x)
  case (Some pr)
  then obtain p r pre post where "x = Some (p, r)" "q # qs = (q # pre) @ p # post" "\<forall>p\<in>set (q # pre). blocked d m p" "\<not> blocked d m p"
    using assms by (cases pr) (auto simp: strict_ok_def)
  then show ?thesis using strict_okI [of "q # qs" "q # pre" p post] by simp
qed (use assms in \<open>simp add: strict_ok_def\<close>)

context redis_server
begin

lemma poll_blocked:
  assumes "refines (view s) m" "wf_queue q"
  shows "blocked (view s) m q \<Longrightarrow> \<exists>s'. Dequeue exec NoFault now q w s = (Inr None, s') \<and> view s' = view s"
    "\<not> blocked (view s) m q \<Longrightarrow> \<exists>rec s'. Dequeue exec NoFault now q w s = (Inr (Some rec), s')"
proof -
  let ?r = "Dequeue exec NoFault now q w s"
  note D = Dequeue_empty_iff [OF redis_server_axioms assms, of now w]
  show "\<exists>s'. ?r = (Inr None, s') \<and> view s' = view s" if "blocked (view s) m q"
    using D that by (intro exI [of _ "snd ?r"]) (simp add: blocked_def is_paused_def prod_eq_iff split: if_splits)
  show "\<exists>rec s'. ?r = (Inr (Some rec), s')" if "\<not> blocked (view s) m q"
    using D that by (cases ?r) (auto simp: blocked_def is_paused_def split: if_splits)
qed

lemma strict_round_ok:
  assumes "refines (view s) m" "\<And>q. q \<in> set qs \<Longrightarrow> wf_queue q"
  shows "strict_ok (view s) m qs (fst (strict_round exec (\<lambda>_. NoFault) T (\<lambda>_ s. s) w i qs s))"
  using assms
proof (induction qs arbitrary: i s)
  case (Cons q qs)
  have wf: "wf_queue q" using Cons.prems(2) by simp
  show ?case
  proof (cases "blocked (view s) m q")
    case True
    obtain s' where s': "Dequeue exec NoFault (unixMilli (T i)) q w s = (Inr None, s')" "view s' = view s"
      using poll_blocked(1) [OF Cons.prems(1) wf True] by blast
    have "strict_ok (view s') m qs (fst (strict_round exec (\<lambda>_. NoFault) T (\<lambda>_ s. s) w (Suc i) qs s'))"
      by (rule Cons.IH) (use Cons.prems s'(2) in simp_all)
    from strict_ok_Cons [OF True this [unfolded s'(2)]] show ?thesis by (simp add: s'(1))
  next
    case False
    obtain rec s' where "Dequeue exec NoFault (unixMilli (T i)) q w s = (Inr (Some rec), s')"
      using poll_blocked(2) [OF Cons.prems(1) wf False] by blast
    then show ?thesis using False strict_okI [of "q # qs" "[]" q qs] by simp
  qed
qed (simp add: strict_ok_def)

end

text \<open>
  C28: Strict priority holds: in a round of the strict poller a job is taken from a queue only when every
  queue of greater weight is paused or has no ready job, and a round takes nothing only when this is
  so for all queues; whatever the order in which the sorting leaves queues of equal weight.
\<close>

theorem strict_polling_prefers_weight:
  assumes "redis_server exec view" "sort_func sortFunc" "refines (view s) m" "\<And>qw. qw \<in> set (sc_queues (sv_cfg sv)) \<Longrightarrow> wf_queue (qw_name qw)"
  shows "case fst (strict_round exec (\<lambda>_. NoFault) T (\<lambda>_ s. s) w 0 (buildStrictQueues sortFunc sv) s) of
       None \<Rightarrow> \<forall>qw\<in>set (sc_queues (sv_cfg sv)). blocked (view s) m (qw_name qw)
     | Some (q, rec) \<Rightarrow> \<exists>qw\<in>set (sc_queues (sv_cfg sv)). qw_name qw = q \<and> \<not> blocked (view s) m q \<and>
         (\<forall>qw'\<in>set (sc_queues (sv_cfg sv)). qw_weight qw < qw_weight qw' \<longrightarrow> blocked (view s) m (qw_name qw'))"
proof -
  let ?ys = "sortFunc by_weight (sc_queues (sv_cfg sv))"
  have set: "set ?ys = set (sc_queues (sv_cfg sv))" by (rule sort_func.sort_set [OF assms(2)])
  have sorted: "\<exists>qw\<in>set ?ys. qw_name qw = q \<and> (\<forall>qw'\<in>set ?ys. qw_weight qw < qw_weight qw' \<longrightarrow> qw_name qw' \<in> set pre)"
    if split: "map qw_name ?ys = pre @ q # post" for q pre post
  proof -
    obtain as x bs where ys: "?ys = as @ x # bs" "map qw_name as = pre" "qw_name x = q"
      using split by (auto simp: map_eq_append_conv map_eq_Cons_conv)
    have "qw' \<in> set as" if "qw' \<in> set ?ys" "qw_weight x < qw_weight qw'" for qw'
      using sort_func.smaller_before [OF assms(2) strict_weak_by_weight ys(1), of qw'] that set by (simp add: by_weight_def)
    moreover have "x \<in> set ?ys" by (simp add: ys(1))
    ultimately show ?thesis unfolding ys(2) [symmetric] using ys(3) by auto
  qed
  have "q \<in> set (map qw_name ?ys) \<Longrightarrow> wf_queue q" for q using assms(4) set by auto
  from redis_server.strict_round_ok [OF assms(1,3) this, of "map qw_name ?ys" T w 0]
  have ok: "strict_ok (view s) m (map qw_name ?ys) (fst (strict_round exec (\<lambda>_. NoFault) T (\<lambda>_ s. s) w 0 (buildStrictQueues sortFunc sv) s))"
    by (simp add: buildStrictQueues_def)
  show ?thesis
  proof (cases "fst (strict_round exec (\<lambda>_. NoFault) T (\<lambda>_ s. s) w 0 (buildStrictQueues sortFunc sv) s)")
    case None
    then show ?thesis using ok set by (simp add: strict_ok_def)
  next
    case (Some qr)
    obtain q r where qr: "qr = (q, r)" by (cases qr)
    then obtain pre post where pre: "map qw_name ?ys = pre @ q # post" "\<forall>p\<in>set pre. blocked (view s) m p" "\<not> blocked (view s) m q"
      using ok Some by (auto simp: strict_ok_def)
    then show ?thesis using sorted [OF pre(1)] set by (auto simp: Some qr)
  qed
qed

theorem strict_polling_prefers_weight_witness:
  "\<exists>rec. fst (strict_round redis_doc (\<lambda>_. NoFault) sample_times (\<lambda>_ s. s) ''w1'' 0
     (buildStrictQueues insertion_sort idle_server) store1) = Some (''default'', rec)"
proof -
  let ?m = "[''j1'' \<mapsto> mail_ajob]"
  have qs: "sc_queues (sv_cfg idle_server) = [\<lparr>qw_name = ''default'', qw_weight = 1\<rparr>]"
    by (simp add: idle_server_def server_setup with_defaults_def at_least_one_def)
  have ref: "refines (id store1) ?m" using refines_store1 by simp
  have wf: "wf_queue (qw_name qw)" if "qw \<in> set (sc_queues (sv_cfg idle_server))" for qw using that by (simp add: qs)
  have "\<not> blocked store1 ?m ''default''" by (auto simp: blocked_def at_loc_def intro!: exI [of _ "''j1''"])
  then show ?thesis
    using strict_polling_prefers_weight [OF logical.redis_server_axioms insertion.sort_func_axioms ref wf, of idle_server sample_times "''w1''", unfolded qs]
    by (auto split: option.splits)
qed


section \<open>Weighted polling\<close>

lemma count_replicate: "count_list (replicate n x) y = (if x = y then n else 0)"
  by (induction n) auto

lemma count_weighted:
  "count_list (concat (map (\<lambda>qw. replicate (nat (qw_weight qw)) (qw_name qw)) qs)) q =
     (\<Sum>qw\<leftarrow>filter (\<lambda>qw. qw_name qw = q) qs. nat (qw_weight qw))"
  by (induction qs) (auto simp: count_replicate)

text \<open>A round of the weighted poller asks every queue as often as its weight says, and at least once.\<close>

lemma weighted_share:
  assumes "sv_cfg sv = with_defaults cfg" "qw \<in> set (sc_queues (sv_cfg sv))"
  shows "count_list (buildWeightedQueues sv) (qw_name qw) =
       (\<Sum>qw'\<leftarrow>filter (\<lambda>qw'. qw_name qw' = qw_name qw) (sc_queues (sv_cfg sv)). nat (qw_weight qw'))"
    "qw_name qw \<in> set (buildWeightedQueues sv)"
proof -
  have "1 \<le> qw_weight qw" using assms by (auto simp: with_defaults_def at_least_one_def split: if_splits)
  then show "qw_name qw \<in> set (buildWeightedQueues sv)" using assms(2) by (auto simp: buildWeightedQueues_def intro!: bexI [of _ qw])
qed (simp add: buildWeightedQueues_def count_weighted)

end
