(* ===== verification/Server_Process.thy ===== *)
theory Server_Process
  imports Server_Polling Cron_Run
begin

text \<open>
  The worker process as a whole (\<open>Start\<close> and \<open>Stop\<close> of \<^verbatim>\<open>server.go\<close>): its goroutines with the points they can be at, the
  semaphore channel and the wait group they share, the context that ends them, and the shutdown with its deadline, as
  a step relation. A step is one round trip to Redis, one handler with what settles its job, one tick of a loop, or one
  operation on the channel or the wait group; time and other processes interleave with them in any order.
\<close>

section \<open>The process\<close>

datatype loop = PromoteLoop | HeartbeatLoop | RecoveryLoop | CronLoop

datatype shutdown = Drained | TimedOut | ProcessCrashed

text \<open>
  Where the poller is: at the check of the context before a round; at the select for a slot, with whether the round
  has fetched a job and the queues it has still to ask; in the call of \<open>Dequeue\<close>, with a slot; or waiting for the
  poll interval.
\<close>

datatype poll_point =
    RoundStart
  | NextQueue bool "string list"
  | InDequeue bool string "string list"
  | PollWait

text \<open>
  Where the goroutine of a job is: before \<open>processJob\<close> has reached the handler, in the handler, after \<open>processJob\<close> with its
  slot of the semaphore still taken, after it has given the slot back.
\<close>

datatype job_point = Fresh JobRecord | Running JobRecord | Settled JobRecord | Released JobRecord

text \<open>Where a loop is: at its start (the scheduler seeds the first activations), at its select, or in a tick.\<close>

datatype loop_point = Seeding | Waiting | Ticking

text \<open>
  \<open>pr_sem\<close> is the number of elements in the channel, \<open>pr_wg\<close> the counter of the wait group. \<open>pr_taken\<close> records the jobs that
  goroutines were started for, the log has the canonical line of every job. The deadline is set when
  \<open>Start\<close> begins to wait for the goroutines. When a cron schedule does not parse, \<open>Start\<close> cancels the context and returns at
  once; the goroutines it has started by then are not followed.
\<close>

record 's process =
  pr_redis :: 's
  pr_clock :: int
  pr_cancelled :: bool
  pr_deadline :: "int option"
  pr_returned :: "shutdown option"
  pr_sem :: nat
  pr_wg :: nat
  pr_poll :: "poll_point option"
  pr_loops :: "loop \<rightharpoonup> loop_point"
  pr_jobs :: "job_point list"
  pr_inflight :: "string \<rightharpoonup> string"
  pr_recovery :: RecoveryConfig
  pr_entries :: "parsedEntry list"
  pr_taken :: "JobRecord list"
  pr_log :: "(JobRecord \<times> job_log) list"

type_synonym sort = "(QueueWeight \<Rightarrow> QueueWeight \<Rightarrow> int) \<Rightarrow> QueueWeight list \<Rightarrow> QueueWeight list"

definition pollLoop :: "sort \<Rightarrow> 's Server \<Rightarrow> string list" where
  "pollLoop sortFunc sv = (if sc_strictPriority (sv_cfg sv) then buildStrictQueues sortFunc sv else buildWeightedQueues sv)"

definition start_loops :: "'s Server \<Rightarrow> loop \<rightharpoonup> loop_point" where
  "start_loops sv = [PromoteLoop \<mapsto> Waiting, HeartbeatLoop \<mapsto> Waiting, RecoveryLoop \<mapsto> Waiting] ++
     (if sc_cron (sv_cfg sv) \<noteq> [] then [CronLoop \<mapsto> Seeding] else Map.empty)"

text \<open>\<open>Start\<close> up to its select: one \<open>wg.Add\<close> per goroutine.\<close>

definition Start :: "'s server \<Rightarrow> (string \<Rightarrow> string) \<Rightarrow> (string \<Rightarrow> string + (int \<Rightarrow> int)) \<Rightarrow> fault \<Rightarrow> int \<Rightarrow> 's Server \<Rightarrow>
    's \<Rightarrow> werr + 's process" where
  "Start exec quote parse flt now sv s =
     (case start_server exec quote parse flt now sv s of
        (Inl e, _) \<Rightarrow> Inl e
      | (Inr (recovery, entries), s1) \<Rightarrow>
          Inr \<lparr>pr_redis = s1, pr_clock = now, pr_cancelled = False, pr_deadline = None, pr_returned = None, pr_sem = 0,
            pr_wg = (if sc_cron (sv_cfg sv) \<noteq> [] then 5 else 4), pr_poll = Some RoundStart, pr_loops = start_loops sv, pr_jobs = [],
            pr_inflight = Map.empty, pr_recovery = recovery, pr_entries = entries, pr_taken = [], pr_log = []\<rparr>)"

definition Stop :: "'s process \<Rightarrow> 's process" where
  "Stop p = p\<lparr>pr_cancelled := True\<rparr>"

section \<open>The poller\<close>

text \<open>What the poller does with the reply: start a goroutine for the job, or give the slot back and go on.\<close>

definition poll_reply :: "'s Server \<Rightarrow> (qerr + JobRecord option) \<Rightarrow> bool \<Rightarrow> string list \<Rightarrow> 's process \<Rightarrow> 's process" where
  "poll_reply sv r fetched qs p =
     (case r of
        Inr (Some rec) \<Rightarrow>
          p\<lparr>pr_wg := Suc (pr_wg p), pr_jobs := Fresh rec # pr_jobs p, pr_taken := rec # pr_taken p,
            pr_poll := Some (if sc_strictPriority (sv_cfg sv) then RoundStart else NextQueue True qs)\<rparr>
      | _ \<Rightarrow> p\<lparr>pr_sem := pr_sem p - 1, pr_poll := Some (NextQueue fetched qs)\<rparr>)"

text \<open>
  A select with both the context and the channel (or the timer) ready takes either. A call of \<open>Dequeue\<close> may succeed after the
  context is cancelled, also when it was not yet in flight.
\<close>

inductive poll_step :: "'s server \<Rightarrow> sort \<Rightarrow> 's Server \<Rightarrow> 's process \<Rightarrow> 's process \<Rightarrow> bool" for exec sortFunc sv where
  p_round: "pr_poll p = Some RoundStart \<Longrightarrow> \<not> pr_cancelled p \<Longrightarrow>
     poll_step exec sortFunc sv p (p\<lparr>pr_poll := Some (NextQueue False (pollLoop sortFunc sv))\<rparr>)"
| p_acquire: "pr_poll p = Some (NextQueue fetched (q # qs)) \<Longrightarrow> int (pr_sem p) < sc_concurrency (sv_cfg sv) \<Longrightarrow>
     poll_step exec sortFunc sv p (p\<lparr>pr_sem := Suc (pr_sem p), pr_poll := Some (InDequeue fetched q qs)\<rparr>)"
| p_dequeue: "pr_poll p = Some (InDequeue fetched q qs) \<Longrightarrow>
     Dequeue exec flt (unixMilli (pr_clock p)) q (sv_workerID sv) (pr_redis p) = (r, s') \<Longrightarrow>
     poll_step exec sortFunc sv p (poll_reply sv r fetched qs (p\<lparr>pr_redis := s'\<rparr>))"
| p_round_end: "pr_poll p = Some (NextQueue fetched []) \<Longrightarrow>
     poll_step exec sortFunc sv p (p\<lparr>pr_poll := Some (if fetched then RoundStart else PollWait)\<rparr>)"
| p_wait: "pr_poll p = Some PollWait \<Longrightarrow> poll_step exec sortFunc sv p (p\<lparr>pr_poll := Some RoundStart\<rparr>)"
| p_return: "pr_poll p = Some pt \<Longrightarrow> pt = RoundStart \<or> pt = PollWait \<or> (\<exists>f q qs. pt = NextQueue f (q # qs)) \<Longrightarrow> pr_cancelled p \<Longrightarrow>
     poll_step exec sortFunc sv p (p\<lparr>pr_poll := None, pr_wg := pr_wg p - 1\<rparr>)"

section \<open>The goroutines of the jobs\<close>

definition goto :: "job_point \<Rightarrow> job_point \<Rightarrow> 's process \<Rightarrow> 's process" where
  "goto a b p = p\<lparr>pr_jobs := b # remove1 a (pr_jobs p)\<rparr>"

text \<open>The deferred calls give the slot back first and then count the wait group down. A panic that no middleware stops ends the process.\<close>

inductive job_step :: "'s server \<Rightarrow> libs \<Rightarrow> 's Server \<Rightarrow> 's process \<Rightarrow> 's process \<Rightarrow> bool" for exec L sv where
  j_settle: "Fresh rec \<in> set (pr_jobs p) \<Longrightarrow> begin_job exec L sv F T rec (pr_redis p) = (Inl line, s') \<Longrightarrow>
     job_step exec L sv p (goto (Fresh rec) (Settled rec) (p\<lparr>pr_redis := s', pr_log := (rec, line) # pr_log p\<rparr>))"
| j_start: "Fresh rec \<in> set (pr_jobs p) \<Longrightarrow> begin_job exec L sv F T rec (pr_redis p) = (Inr fn, s') \<Longrightarrow>
     job_step exec L sv p (goto (Fresh rec) (Running rec) (p\<lparr>pr_redis := s', pr_inflight := (pr_inflight p)(ID rec \<mapsto> Queue rec)\<rparr>))"
| j_finish: "Running rec \<in> set (pr_jobs p) \<Longrightarrow> sv_handlers sv (Kind rec) = Some h \<Longrightarrow>
     wrap_middleware (sv_middleware sv) h (raw_job rec) (pr_redis p) = ((Returned r, rj), s1) \<Longrightarrow>
     finish_job exec L sv F T uuid rec (Returned r) rj s1 = (line, s2) \<Longrightarrow>
     job_step exec L sv p (goto (Running rec) (Settled rec)
       (p\<lparr>pr_redis := s2, pr_inflight := (pr_inflight p)(ID rec := None), pr_log := (rec, line) # pr_log p\<rparr>))"
| j_panic: "Running rec \<in> set (pr_jobs p) \<Longrightarrow> sv_handlers sv (Kind rec) = Some h \<Longrightarrow>
     wrap_middleware (sv_middleware sv) h (raw_job rec) (pr_redis p) = ((Panicked r, rj), s1) \<Longrightarrow>
     job_step exec L sv p (p\<lparr>pr_redis := s1, pr_returned := Some ProcessCrashed\<rparr>)"
| j_release: "Settled rec \<in> set (pr_jobs p) \<Longrightarrow> 0 < pr_sem p \<Longrightarrow>
     job_step exec L sv p (goto (Settled rec) (Released rec) (p\<lparr>pr_sem := pr_sem p - 1\<rparr>))"
| j_done: "Released rec \<in> set (pr_jobs p) \<Longrightarrow>
     job_step exec L sv p (p\<lparr>pr_jobs := remove1 (Released rec) (pr_jobs p), pr_wg := pr_wg p - 1\<rparr>)"

section \<open>The loops\<close>

text \<open>A loop takes up a tick of its timer; with the context cancelled as well, its select may still choose the tick.\<close>

inductive tick_step :: "'s process \<Rightarrow> 's process \<Rightarrow> bool" where
  l_tick: "pr_loops p l = Some Waiting \<Longrightarrow> tick_step p (p\<lparr>pr_loops := (pr_loops p)(l \<mapsto> Ticking)\<rparr>)"

text \<open>The map of jobs in flight as \<open>Range\<close> visits it, in any order.\<close>

definition ranges :: "(string \<times> string) list \<Rightarrow> (string \<rightharpoonup> string) \<Rightarrow> bool" where
  "ranges jobs m \<longleftrightarrow> distinct (map fst jobs) \<and> map_of jobs = m"

text \<open>A heartbeat that fails after the context is cancelled ends its loop; the calls of a tick may succeed then as before.\<close>

inductive loop_step :: "'s server \<Rightarrow> 's Server \<Rightarrow> 's process \<Rightarrow> 's process \<Rightarrow> bool" for exec sv where
  l_seed: "pr_loops p CronLoop = Some Seeding \<Longrightarrow>
     loop_step exec sv p (p\<lparr>pr_redis := seedNextRuns exec G 0 (pr_clock p) (pr_entries p) (pr_redis p), pr_loops := (pr_loops p)(CronLoop \<mapsto> Waiting)\<rparr>)"
| l_heartbeat: "pr_loops p HeartbeatLoop = Some Ticking \<Longrightarrow> ranges jobs (pr_inflight p) \<Longrightarrow>
     \<not> (pr_cancelled p \<and> isl (fst (Heartbeat exec (G 0) (unixMilli (T 0)) (sv_workerID sv) (pr_redis p)))) \<Longrightarrow>
     loop_step exec sv p (p\<lparr>pr_redis := heartbeat_tick exec G (pr_cancelled p) T (sv_workerID sv) jobs (pr_redis p),
       pr_loops := (pr_loops p)(HeartbeatLoop \<mapsto> Waiting)\<rparr>)"
| l_heartbeat_end: "pr_loops p HeartbeatLoop = Some Ticking \<Longrightarrow> pr_cancelled p \<Longrightarrow>
     Heartbeat exec flt t (sv_workerID sv) (pr_redis p) = (Inl e, s') \<Longrightarrow>
     loop_step exec sv p (p\<lparr>pr_redis := s', pr_loops := (pr_loops p)(HeartbeatLoop := None), pr_wg := pr_wg p - 1\<rparr>)"
| l_promote: "pr_loops p PromoteLoop = Some Ticking \<Longrightarrow>
     loop_step exec sv p (p\<lparr>pr_redis := promote_tick exec G T sv (pr_redis p), pr_loops := (pr_loops p)(PromoteLoop \<mapsto> Waiting)\<rparr>)"
| l_recover: "pr_loops p RecoveryLoop = Some Ticking \<Longrightarrow>
     loop_step exec sv p (p\<lparr>pr_redis := snd (sweep exec G (pr_cancelled p) (unixMilli (pr_clock p)) (pr_recovery p) (pr_redis p)),
       pr_loops := (pr_loops p)(RecoveryLoop \<mapsto> Waiting)\<rparr>)"
| l_cron: "pr_loops p CronLoop = Some Ticking \<Longrightarrow>
     loop_step exec sv p (p\<lparr>pr_redis := snd (cron_tick exec H 0 (pr_clock p) (pr_entries p) (pr_redis p)), pr_loops := (pr_loops p)(CronLoop \<mapsto> Waiting)\<rparr>)"
| l_return: "pr_loops p l = Some Waiting \<Longrightarrow> pr_cancelled p \<Longrightarrow>
     loop_step exec sv p (p\<lparr>pr_loops := (pr_loops p)(l := None), pr_wg := pr_wg p - 1\<rparr>)"

section \<open>Shutdown, time and other processes\<close>

text \<open>\<open>Stop\<close>, a signal or the end of the context, and the two ways in which \<open>Start\<close> returns: \<open>wg.Wait\<close> has returned, or the time is over.\<close>

inductive main_step :: "'s server \<Rightarrow> 's Server \<Rightarrow> 's process \<Rightarrow> 's process \<Rightarrow> bool" for exec sv where
  m_stop: "main_step exec sv p (Stop p)"
| m_shutdown: "pr_deadline p = None \<Longrightarrow>
     main_step exec sv p (p\<lparr>pr_cancelled := True, pr_deadline := Some (pr_clock p + sc_shutdownTimeout (sv_cfg sv))\<rparr>)"
| m_drained: "pr_deadline p = Some t \<Longrightarrow> pr_returned p = None \<Longrightarrow> pr_wg p = 0 \<Longrightarrow>
     main_step exec sv p (p\<lparr>pr_redis := stop_server exec flt sv (pr_redis p), pr_returned := Some Drained\<rparr>)"
| m_timeout: "pr_deadline p = Some t \<Longrightarrow> t \<le> pr_clock p \<Longrightarrow> pr_returned p = None \<Longrightarrow>
     main_step exec sv p (p\<lparr>pr_redis := stop_server exec flt sv (pr_redis p), pr_returned := Some TimedOut\<rparr>)"

text \<open>What other processes may do to Redis at a time is a parameter.\<close>

inductive world_step :: "(int \<Rightarrow> 's \<Rightarrow> 's \<Rightarrow> bool) \<Rightarrow> 's process \<Rightarrow> 's process \<Rightarrow> bool" for others where
  w_time: "pr_clock p \<le> t \<Longrightarrow> world_step others p (p\<lparr>pr_clock := t\<rparr>)"
| w_other: "others (pr_clock p) (pr_redis p) s' \<Longrightarrow> world_step others p (p\<lparr>pr_redis := s'\<rparr>)"

definition go_step :: "'s server \<Rightarrow> libs \<Rightarrow> sort \<Rightarrow> 's Server \<Rightarrow> 's process \<Rightarrow> 's process \<Rightarrow> bool" where
  "go_step exec L sortFunc sv p p' \<longleftrightarrow> pr_returned p \<noteq> Some ProcessCrashed \<and>
     (poll_step exec sortFunc sv p p' \<or> job_step exec L sv p p' \<or> loop_step exec sv p p')"

definition proc_step :: "'s server \<Rightarrow> libs \<Rightarrow> sort \<Rightarrow> 's Server \<Rightarrow> (int \<Rightarrow> 's \<Rightarrow> 's \<Rightarrow> bool) \<Rightarrow> 's process \<Rightarrow> 's process \<Rightarrow> bool" where
  "proc_step exec L sortFunc sv others p p' \<longleftrightarrow> go_step exec L sortFunc sv p p' \<or>
     pr_returned p \<noteq> Some ProcessCrashed \<and> (tick_step p p' \<or> main_step exec sv p p' \<or> world_step others p p')"

section \<open>The invariant\<close>

text \<open>Who holds a slot of the semaphore, and which jobs have no log line yet.\<close>

fun slot :: "job_point \<Rightarrow> nat" where
  "slot (Fresh _) = 1"
| "slot (Running _) = 1"
| "slot (Settled _) = 1"
| "slot (Released _) = 0"

fun poll_slot :: "poll_point option \<Rightarrow> nat" where
  "poll_slot (Some (InDequeue _ _ _)) = 1"
| "poll_slot _ = 0"

fun unlogged :: "job_point \<Rightarrow> JobRecord multiset" where
  "unlogged (Fresh rec) = {#rec#}"
| "unlogged (Running rec) = {#rec#}"
| "unlogged _ = {#}"

definition over_jobs :: "(job_point \<Rightarrow> 'a::comm_monoid_add) \<Rightarrow> 's process \<Rightarrow> 'a" where
  "over_jobs f p = sum_list (map f (pr_jobs p))"

definition alive :: "'s process \<Rightarrow> nat" where
  "alive p = (if pr_poll p = None then 0 else 1) + card (dom (pr_loops p)) + length (pr_jobs p)"

definition proc_inv :: "'s Server \<Rightarrow> 's process \<Rightarrow> bool" where
  "proc_inv sv p \<longleftrightarrow>
     pr_sem p = poll_slot (pr_poll p) + over_jobs slot p \<and> int (pr_sem p) \<le> sc_concurrency (sv_cfg sv) \<and> pr_wg p = alive p \<and>
     mset (pr_taken p) = over_jobs unlogged p + mset (map fst (pr_log p)) \<and>
     (\<forall>rec. Running rec \<in> set (pr_jobs p) \<longrightarrow> sv_handlers sv (Kind rec) \<noteq> None) \<and> finite (dom (pr_inflight p)) \<and>
     (\<forall>l. pr_loops p l = Some Seeding \<longrightarrow> l = CronLoop) \<and>
     (pr_deadline p \<noteq> None \<longrightarrow> pr_cancelled p) \<and> (pr_returned p = Some Drained \<longrightarrow> alive p = 0)"

lemma over_jobs_upd [simp]:
  "over_jobs f (p\<lparr>pr_redis := s\<rparr>) = over_jobs f p" "over_jobs f (p\<lparr>pr_clock := t\<rparr>) = over_jobs f p"
  "over_jobs f (p\<lparr>pr_cancelled := c\<rparr>) = over_jobs f p" "over_jobs f (p\<lparr>pr_deadline := d\<rparr>) = over_jobs f p"
  "over_jobs f (p\<lparr>pr_returned := r\<rparr>) = over_jobs f p" "over_jobs f (p\<lparr>pr_sem := n\<rparr>) = over_jobs f p"
  "over_jobs f (p\<lparr>pr_wg := n\<rparr>) = over_jobs f p" "over_jobs f (p\<lparr>pr_poll := x\<rparr>) = over_jobs f p"
  "over_jobs f (p\<lparr>pr_loops := m\<rparr>) = over_jobs f p" "over_jobs f (p\<lparr>pr_inflight := i\<rparr>) = over_jobs f p"
  "over_jobs f (p\<lparr>pr_taken := k\<rparr>) = over_jobs f p" "over_jobs f (p\<lparr>pr_log := l\<rparr>) = over_jobs f p"
  "over_jobs f (p\<lparr>pr_jobs := j # js\<rparr>) = f j + over_jobs f (p\<lparr>pr_jobs := js\<rparr>)" "over_jobs f (p\<lparr>pr_jobs := []\<rparr>) = 0"
  by (simp_all add: over_jobs_def)

lemma over_jobs_remove: "j \<in> set (pr_jobs p) \<Longrightarrow> over_jobs f p = f j + over_jobs f (p\<lparr>pr_jobs := remove1 j (pr_jobs p)\<rparr>)"
  by (simp add: over_jobs_def sum_list_map_remove1)

lemma over_jobs_goto: "a \<in> set (pr_jobs p) \<Longrightarrow> f a + over_jobs f (goto a b p) = f b + over_jobs f p"
  using over_jobs_remove [of a p f] by (simp add: goto_def ac_simps)

lemma goto_sel [simp]:
  "pr_redis (goto a b p) = pr_redis p" "pr_clock (goto a b p) = pr_clock p" "pr_cancelled (goto a b p) = pr_cancelled p"
  "pr_deadline (goto a b p) = pr_deadline p" "pr_returned (goto a b p) = pr_returned p" "pr_sem (goto a b p) = pr_sem p"
  "pr_wg (goto a b p) = pr_wg p" "pr_poll (goto a b p) = pr_poll p" "pr_loops (goto a b p) = pr_loops p"
  "pr_inflight (goto a b p) = pr_inflight p" "pr_taken (goto a b p) = pr_taken p" "pr_log (goto a b p) = pr_log p"
  "pr_jobs (goto a b p) = b # remove1 a (pr_jobs p)"
  by (simp_all add: goto_def)

lemma finite_loops [simp]: "finite (A :: loop set)"
proof -
  have "(UNIV :: loop set) = {PromoteLoop, HeartbeatLoop, RecoveryLoop, CronLoop}" by (auto intro: loop.exhaust)
  then show ?thesis by (metis finite.emptyI finite.insertI finite_subset subset_UNIV)
qed

lemma length_out: "j \<in> set xs \<Longrightarrow> Suc (length (remove1 j xs)) = length xs"
  by (induction xs) auto

lemma alive_goto [simp]: "a \<in> set (pr_jobs p) \<Longrightarrow> alive (goto a b p) = alive p"
  using length_out [of a "pr_jobs p"] by (simp add: alive_def)

lemma alive_upd [simp]:
  "alive (p\<lparr>pr_redis := s\<rparr>) = alive p" "alive (p\<lparr>pr_clock := t\<rparr>) = alive p" "alive (p\<lparr>pr_cancelled := c\<rparr>) = alive p"
  "alive (p\<lparr>pr_deadline := d\<rparr>) = alive p" "alive (p\<lparr>pr_returned := r\<rparr>) = alive p" "alive (p\<lparr>pr_sem := n\<rparr>) = alive p"
  "alive (p\<lparr>pr_wg := n\<rparr>) = alive p" "alive (p\<lparr>pr_inflight := i\<rparr>) = alive p" "alive (p\<lparr>pr_taken := k\<rparr>) = alive p"
  "alive (p\<lparr>pr_log := l\<rparr>) = alive p"
  by (simp_all add: alive_def)

lemma alive_0: "alive p = 0 \<longleftrightarrow> pr_poll p = None \<and> pr_loops p = Map.empty \<and> pr_jobs p = []"
  by (auto simp: alive_def)

lemma begin_job_handler: "begin_job exec L sv F T rec s = (Inr fn, s') \<Longrightarrow> sv_handlers sv (Kind rec) \<noteq> None"
  by (auto simp: begin_job_def split: option.splits)

lemma poll_step_inv:
  assumes "poll_step exec sortFunc sv p p'" "proc_inv sv p"
  shows "proc_inv sv p'"
  using assms
proof (cases rule: poll_step.cases)
  case (p_dequeue fetched q qs flt r s')
  have al: "alive p \<noteq> 0" using p_dequeue(2) by (simp add: alive_0)
  show ?thesis
  proof (cases "\<exists>rec. r = Inr (Some rec)")
    case True
    then show ?thesis using assms(2) p_dequeue(1,2) al by (auto simp: poll_reply_def proc_inv_def alive_def)
  next
    case False
    then have "poll_reply sv r fetched qs (p\<lparr>pr_redis := s'\<rparr>) = p\<lparr>pr_redis := s', pr_sem := pr_sem p - 1, pr_poll := Some (NextQueue fetched qs)\<rparr>"
      by (auto simp: poll_reply_def split: sum.split option.split)
    then show ?thesis using assms(2) p_dequeue(1,2) al by (auto simp: proc_inv_def alive_def)
  qed
next
  case (p_return pt)
  then show ?thesis using assms(2) by (auto simp: proc_inv_def alive_def)
qed (auto simp: proc_inv_def alive_def)

lemma job_step_inv:
  assumes "job_step exec L sv p p'" "proc_inv sv p"
  shows "proc_inv sv p'"
  using assms
proof (cases rule: job_step.cases)
  case (j_settle rec F T line s')
  let ?p = "p\<lparr>pr_redis := s', pr_log := (rec, line) # pr_log p\<rparr>"
  show ?thesis using assms(2) j_settle over_jobs_goto [of "Fresh rec" ?p slot "Settled rec"] over_jobs_goto [of "Fresh rec" ?p unlogged "Settled rec"]
    by (auto simp: proc_inv_def alive_0 dest: notin_set_remove1)
next
  case (j_start rec F T fn s')
  let ?p = "p\<lparr>pr_redis := s', pr_inflight := (pr_inflight p)(ID rec \<mapsto> Queue rec)\<rparr>"
  show ?thesis
    using assms(2) j_start begin_job_handler [OF j_start(3)] over_jobs_goto [of "Fresh rec" ?p slot "Running rec"]
      over_jobs_goto [of "Fresh rec" ?p unlogged "Running rec"]
    by (auto simp: proc_inv_def alive_0 dest: notin_set_remove1)
next
  case (j_finish rec h r rj s1 F T uuid line s2)
  let ?p = "p\<lparr>pr_redis := s2, pr_inflight := (pr_inflight p)(ID rec := None), pr_log := (rec, line) # pr_log p\<rparr>"
  show ?thesis using assms(2) j_finish over_jobs_goto [of "Running rec" ?p slot "Settled rec"] over_jobs_goto [of "Running rec" ?p unlogged "Settled rec"]
    by (auto simp: proc_inv_def alive_0 dest: notin_set_remove1)
next
  case (j_release rec)
  let ?p = "p\<lparr>pr_sem := pr_sem p - 1\<rparr>"
  show ?thesis using assms(2) j_release over_jobs_goto [of "Settled rec" ?p slot "Released rec"] over_jobs_goto [of "Settled rec" ?p unlogged "Released rec"]
    by (auto simp: proc_inv_def alive_0 dest: notin_set_remove1)
next
  case (j_done rec)
  show ?thesis using assms(2) j_done over_jobs_remove [of "Released rec" p slot] over_jobs_remove [of "Released rec" p unlogged]
      length_out [of "Released rec" "pr_jobs p"]
    by (auto simp: proc_inv_def alive_def dest: notin_set_remove1)
qed (auto simp: proc_inv_def)

lemma loop_moves:
  assumes "proc_inv sv p" "pr_loops p l \<noteq> None" "x \<noteq> Seeding"
  shows "proc_inv sv (p\<lparr>pr_redis := s, pr_loops := (pr_loops p)(l \<mapsto> x)\<rparr>)" "proc_inv sv (p\<lparr>pr_loops := (pr_loops p)(l \<mapsto> x)\<rparr>)"
proof -
  have "insert l (dom (pr_loops p)) = dom (pr_loops p)" using assms(2) by auto
  moreover have "alive p \<noteq> 0" using assms(2) by (auto simp: alive_0)
  ultimately show "proc_inv sv (p\<lparr>pr_redis := s, pr_loops := (pr_loops p)(l \<mapsto> x)\<rparr>)" "proc_inv sv (p\<lparr>pr_loops := (pr_loops p)(l \<mapsto> x)\<rparr>)"
    using assms(1,3) by (auto simp: proc_inv_def alive_def)
qed

lemma loop_ends:
  assumes "proc_inv sv p" "pr_loops p l \<noteq> None"
  shows "proc_inv sv (p\<lparr>pr_redis := s, pr_loops := (pr_loops p)(l := None), pr_wg := pr_wg p - 1\<rparr>)"
    "proc_inv sv (p\<lparr>pr_loops := (pr_loops p)(l := None), pr_wg := pr_wg p - 1\<rparr>)"
proof -
  have "l \<in> dom (pr_loops p)" using assms(2) by auto
  then have "Suc (card (dom (pr_loops p) - {l})) = card (dom (pr_loops p))" by (intro card_Suc_Diff1) simp_all
  moreover have "alive p \<noteq> 0" using assms(2) by (auto simp: alive_0)
  ultimately show "proc_inv sv (p\<lparr>pr_redis := s, pr_loops := (pr_loops p)(l := None), pr_wg := pr_wg p - 1\<rparr>)"
    "proc_inv sv (p\<lparr>pr_loops := (pr_loops p)(l := None), pr_wg := pr_wg p - 1\<rparr>)"
    using assms(1) by (auto simp: proc_inv_def alive_def)
qed

lemma loop_step_inv: "loop_step exec sv p p' \<Longrightarrow> proc_inv sv p \<Longrightarrow> proc_inv sv p'"
  by (erule loop_step.cases) (simp_all add: loop_moves loop_ends [simplified])

lemma tick_step_inv: "tick_step p p' \<Longrightarrow> proc_inv sv p \<Longrightarrow> proc_inv sv p'"
  by (erule tick_step.cases) (simp add: loop_moves)

lemma main_step_inv: "main_step exec sv p p' \<Longrightarrow> proc_inv sv p \<Longrightarrow> proc_inv sv p'"
  by (erule main_step.cases) (auto simp: proc_inv_def Stop_def)

lemma world_step_inv: "world_step others p p' \<Longrightarrow> proc_inv sv p \<Longrightarrow> proc_inv sv p'"
  by (erule world_step.cases) (auto simp: proc_inv_def)

lemma proc_step_inv: "proc_step exec L sortFunc sv others p p' \<Longrightarrow> proc_inv sv p \<Longrightarrow> proc_inv sv p'"
  unfolding proc_step_def go_step_def
  by (auto intro: poll_step_inv job_step_inv loop_step_inv tick_step_inv main_step_inv world_step_inv)

lemma proc_steps_inv: "(proc_step exec L sortFunc sv others)\<^sup>*\<^sup>* p p' \<Longrightarrow> proc_inv sv p \<Longrightarrow> proc_inv sv p'"
  by (induction rule: rtranclp_induct) (auto intro: proc_step_inv)

lemma Start_inv:
  assumes "Start exec quote parse flt now sv s = Inr p" "0 \<le> sc_concurrency (sv_cfg sv)"
  shows "proc_inv sv p"
  using assms by (auto simp: Start_def proc_inv_def over_jobs_def alive_def start_loops_def split: prod.splits sum.splits if_splits)

section \<open>Concurrency\<close>

fun processing :: "job_point \<Rightarrow> bool" where
  "processing (Fresh _) = True"
| "processing (Running _) = True"
| "processing _ = False"

lemma processing_slots: "length (filter processing (pr_jobs p)) \<le> over_jobs slot p"
proof -
  have "length (filter processing xs) \<le> sum_list (map slot xs)" for xs
  proof (induction xs)
    case (Cons j xs)
    then show ?case by (cases j) auto
  qed simp
  then show ?thesis by (simp add: over_jobs_def)
qed

lemma settled_slot: "proc_inv sv p \<Longrightarrow> Settled rec \<in> set (pr_jobs p) \<Longrightarrow> 0 < pr_sem p"
  using over_jobs_remove [of "Settled rec" p slot] by (simp add: proc_inv_def)

text \<open>
  C29: Never more goroutines than the configured number (10 when it is not positive) are processing a job, whatever the
  interleaving of polling, starting, settling and releasing, of the loops, of the shutdown and of what other processes do to
  Redis: the channel limits only the slots that are taken, and every goroutine that is processing a job holds one.
  And a goroutine never waits to give its slot back.
\<close>

theorem concurrency_is_bounded:
  assumes "Start exec quote parse flt now sv s = Inr p0" "(proc_step exec L sortFunc sv others)\<^sup>*\<^sup>* p0 p" "sv_cfg sv = with_defaults cfg"
  shows "int (length (filter processing (pr_jobs p))) \<le> (if sc_concurrency cfg \<le> 0 then 10 else sc_concurrency cfg) \<and>
     (\<forall>rec. Settled rec \<in> set (pr_jobs p) \<longrightarrow> 0 < pr_sem p)"
proof -
  have c: "sc_concurrency (sv_cfg sv) = (if sc_concurrency cfg \<le> 0 then 10 else sc_concurrency cfg)"
    by (simp add: assms(3) with_defaults_def)
  then have inv: "proc_inv sv p" using Start_inv [OF assms(1)] by (auto intro: proc_steps_inv [OF assms(2)])
  then have "int (length (filter processing (pr_jobs p))) \<le> sc_concurrency (sv_cfg sv)"
    using processing_slots [of p] by (simp add: proc_inv_def)
  then show ?thesis unfolding c using settled_slot [OF inv] by blast
qed

section \<open>Shutdown\<close>

text \<open>How often the poller can still call \<open>Dequeue\<close> once the context is cancelled: the round it is in ends, and no other begins.\<close>

fun polls_left :: "poll_point option \<Rightarrow> nat" where
  "polls_left (Some (NextQueue _ qs)) = length qs"
| "polls_left (Some (InDequeue _ _ qs)) = Suc (length qs)"
| "polls_left _ = 0"

lemma proc_step_cancelled:
  assumes "proc_step exec L sortFunc sv others p p'" "pr_cancelled p"
  shows "pr_cancelled p' \<and> length (pr_taken p') + polls_left (pr_poll p') \<le> length (pr_taken p) + polls_left (pr_poll p)"
proof -
  consider "poll_step exec sortFunc sv p p'" | "job_step exec L sv p p'" | "loop_step exec sv p p'" | "tick_step p p'"
    | "main_step exec sv p p'" | "world_step others p p'" using assms(1) by (auto simp: proc_step_def go_step_def)
  then show ?thesis
  proof cases
    case 1
    then show ?thesis using assms(2)
      by (cases rule: poll_step.cases) (auto simp: poll_reply_def split: sum.splits option.splits)
  next
    case 2
    then show ?thesis using assms(2) by (cases rule: job_step.cases) auto
  next
    case 3
    then show ?thesis using assms(2) by (cases rule: loop_step.cases) auto
  next
    case 4
    then show ?thesis using assms(2) by (cases rule: tick_step.cases) auto
  next
    case 5
    then show ?thesis using assms(2) by (cases rule: main_step.cases) (auto simp: Stop_def)
  next
    case 6
    then show ?thesis using assms(2) by (cases rule: world_step.cases) auto
  qed
qed

lemma proc_steps_cancelled:
  "(proc_step exec L sortFunc sv others)\<^sup>*\<^sup>* p p' \<Longrightarrow> pr_cancelled p \<Longrightarrow>
   pr_cancelled p' \<and> length (pr_taken p') + polls_left (pr_poll p') \<le> length (pr_taken p) + polls_left (pr_poll p)"
  by (induction rule: rtranclp_induct) (auto dest: proc_step_cancelled)

text \<open>Jobs are only ever added to those taken.\<close>

lemma taken_grows:
  assumes "(proc_step exec L sortFunc sv others)\<^sup>*\<^sup>* p p'"
  shows "suffix (pr_taken p) (pr_taken p')"
  using assms
proof (induction rule: rtranclp_induct)
  case (step p1 p2)
  have "suffix (pr_taken p1) (pr_taken p2)"
    using step(2)
    by (auto simp: proc_step_def go_step_def poll_reply_def Stop_def suffix_ConsI split: sum.splits option.splits
        elim!: poll_step.cases job_step.cases loop_step.cases tick_step.cases main_step.cases world_step.cases)
  with step(3) show ?case by (rule suffix_order.trans)
qed simp

text \<open>
  C30: A graceful shutdown is graceful: once the context is cancelled no more jobs are taken than the poller has
  queues left in the round it is in (a call in flight included), and when \<open>Start\<close> returns because the wait group
  is down to zero, the poller, every loop and every goroutine of a job have ended, and every job that was ever taken has been
  settled, with exactly one log line each.
\<close>

theorem shutdown_settles_every_job:
  assumes "Start exec quote parse flt now sv s = Inr p0" "0 \<le> sc_concurrency (sv_cfg sv)"
    and "(proc_step exec L sortFunc sv others)\<^sup>*\<^sup>* p0 p" "pr_cancelled p" "(proc_step exec L sortFunc sv others)\<^sup>*\<^sup>* p p'"
  shows "length (pr_taken p') \<le> length (pr_taken p) + polls_left (pr_poll p) \<and>
     (pr_returned p' = Some Drained \<longrightarrow>
        pr_poll p' = None \<and> pr_loops p' = Map.empty \<and> pr_jobs p' = [] \<and> mset (map fst (pr_log p')) = mset (pr_taken p'))"
proof -
  have "proc_inv sv p'" using proc_steps_inv [OF _ Start_inv [OF assms(1,2)]] assms(3,5) by (meson rtranclp_trans)
  moreover have "length (pr_taken p') \<le> length (pr_taken p) + polls_left (pr_poll p)" using proc_steps_cancelled [OF assms(5,4)] by simp
  ultimately show ?thesis by (auto simp: proc_inv_def alive_0 over_jobs_def)
qed

text \<open>What the goroutines have still to do; a job that the poller may yet take is part of the poller's work.\<close>

fun poll_work :: "poll_point option \<Rightarrow> nat" where
  "poll_work None = 0"
| "poll_work (Some RoundStart) = 1"
| "poll_work (Some PollWait) = 2"
| "poll_work (Some (NextQueue _ qs)) = 3 + 6 * length qs"
| "poll_work (Some (InDequeue _ _ qs)) = 8 + 6 * length qs"

fun loop_work :: "loop_point option \<Rightarrow> nat" where
  "loop_work None = 0"
| "loop_work (Some Waiting) = 1"
| "loop_work (Some _) = 2"

fun job_work :: "job_point \<Rightarrow> nat" where
  "job_work (Fresh _) = 4"
| "job_work (Running _) = 3"
| "job_work (Settled _) = 2"
| "job_work (Released _) = 1"

definition loops_work :: "(loop \<rightharpoonup> loop_point) \<Rightarrow> nat" where
  "loops_work m = loop_work (m PromoteLoop) + loop_work (m HeartbeatLoop) + loop_work (m RecoveryLoop) + loop_work (m CronLoop)"

definition drain_work :: "'s process \<Rightarrow> nat" where
  "drain_work p = poll_work (pr_poll p) + loops_work (pr_loops p) + over_jobs job_work p"

text \<open>Every handler returns; the middleware \<open>Recover\<close> turns its panic into an error.\<close>

definition handlers_return :: "'s Server \<Rightarrow> bool" where
  "handlers_return sv \<longleftrightarrow> (\<forall>kind h rj s. sv_handlers sv kind = Some h \<longrightarrow>
     (\<exists>r rj' s'. wrap_middleware (sv_middleware sv) h rj s = ((Returned r, rj'), s')))"

lemma handlers_return_Recover: "sv_middleware sv = Recover # mws \<Longrightarrow> handlers_return sv"
  by (auto simp: handlers_return_def wrap_middleware_def Recover_def split: prod.split exit.split)

lemma loops_work_upd: "loops_work (m(l := x)) + loop_work (m l) = loop_work x + loops_work m"
  by (cases l) (simp_all add: loops_work_def)

lemma poll_step_drains:
  assumes "poll_step exec sortFunc sv p p'" "pr_cancelled p"
  shows "drain_work p' < drain_work p"
  using assms
  by (cases rule: poll_step.cases) (auto simp: drain_work_def poll_reply_def over_jobs_def split: sum.splits option.splits)

lemma job_step_drains:
  assumes "job_step exec L sv p p'" "handlers_return sv"
  shows "drain_work p' < drain_work p"
  using assms(1)
proof (cases rule: job_step.cases)
  case (j_settle rec F T line s')
  then show ?thesis using over_jobs_goto [of "Fresh rec" "p\<lparr>pr_redis := s', pr_log := (rec, line) # pr_log p\<rparr>" job_work "Settled rec"]
    by (simp add: drain_work_def)
next
  case (j_start rec F T fn s')
  then show ?thesis
    using over_jobs_goto [of "Fresh rec" "p\<lparr>pr_redis := s', pr_inflight := (pr_inflight p)(ID rec \<mapsto> Queue rec)\<rparr>" job_work "Running rec"]
    by (simp add: drain_work_def)
next
  case (j_finish rec h r rj s1 F T uuid line s2)
  then show ?thesis
    using over_jobs_goto [of "Running rec" "p\<lparr>pr_redis := s2, pr_inflight := (pr_inflight p)(ID rec := None), pr_log := (rec, line) # pr_log p\<rparr>"
        job_work "Settled rec"]
    by (simp add: drain_work_def)
next
  case (j_panic rec h r rj s1)
  then show ?thesis using assms(2) unfolding handlers_return_def by (metis Pair_inject exit.distinct(1))
next
  case (j_release rec)
  then show ?thesis using over_jobs_goto [of "Settled rec" "p\<lparr>pr_sem := pr_sem p - 1\<rparr>" job_work "Released rec"]
    by (simp add: drain_work_def)
next
  case (j_done rec)
  then show ?thesis using over_jobs_remove [of "Released rec" p job_work] by (simp add: drain_work_def over_jobs_def)
qed

lemma loop_step_drains: "loop_step exec sv p p' \<Longrightarrow> drain_work p' < drain_work p"
proof (erule loop_step.cases, goal_cases)
  case (1 pa G)
  then show ?case using loops_work_upd [of "pr_loops p" CronLoop "Some Waiting"] by (simp add: drain_work_def)
next
  case (2 pa jobs G T)
  then show ?case using loops_work_upd [of "pr_loops p" HeartbeatLoop "Some Waiting"] by (simp add: drain_work_def)
next
  case (3 pa flt t e s')
  then show ?case using loops_work_upd [of "pr_loops p" HeartbeatLoop None] by (simp add: drain_work_def)
next
  case (4 pa G T)
  then show ?case using loops_work_upd [of "pr_loops p" PromoteLoop "Some Waiting"] by (simp add: drain_work_def)
next
  case (5 pa G)
  then show ?case using loops_work_upd [of "pr_loops p" RecoveryLoop "Some Waiting"] by (simp add: drain_work_def)
next
  case (6 pa H)
  then show ?case using loops_work_upd [of "pr_loops p" CronLoop "Some Waiting"] by (simp add: drain_work_def)
next
  case (7 pa l)
  then show ?case using loops_work_upd [of "pr_loops p" l None] by (simp add: drain_work_def)
qed

lemma go_step_drains: "go_step exec L sortFunc sv p p' \<Longrightarrow> pr_cancelled p \<Longrightarrow> handlers_return sv \<Longrightarrow> drain_work p' < drain_work p"
  by (auto simp: go_step_def dest: poll_step_drains job_step_drains loop_step_drains)

lemma tick_step_work: "tick_step p p' \<Longrightarrow> drain_work p' = Suc (drain_work p)"
proof (erule tick_step.cases)
  fix pa l assume "p = pa" "p' = pa\<lparr>pr_loops := (pr_loops pa)(l \<mapsto> Ticking)\<rparr>" "pr_loops pa l = Some Waiting"
  then show ?thesis using loops_work_upd [of "pr_loops p" l "Some Ticking"] by (simp add: drain_work_def)
qed

lemma env_step_work: "main_step exec sv p p' \<or> world_step others p p' \<Longrightarrow> drain_work p' = drain_work p"
  by (auto simp: drain_work_def Stop_def elim!: main_step.cases world_step.cases)

text \<open>Without a panic nothing but a return ends the process.\<close>

lemma go_step_returned:
  assumes "go_step exec L sortFunc sv p p'" "handlers_return sv"
  shows "pr_returned p' = pr_returned p \<and> pr_deadline p' = pr_deadline p \<and> pr_cancelled p' = pr_cancelled p"
proof -
  consider "poll_step exec sortFunc sv p p'" | "job_step exec L sv p p'" | "loop_step exec sv p p'" using assms(1) by (auto simp: go_step_def)
  then show ?thesis
  proof cases
    case 1
    then show ?thesis by (cases rule: poll_step.cases) (auto simp: poll_reply_def split: sum.splits option.splits)
  next
    case 2
    then show ?thesis
    proof (cases rule: job_step.cases)
      case (j_panic rec h r rj s1)
      then show ?thesis using assms(2) unfolding handlers_return_def by (metis Pair_inject exit.distinct(1))
    qed auto
  next
    case 3
    then show ?thesis by (cases rule: loop_step.cases) auto
  qed
qed

lemma proc_step_no_crash:
  assumes "proc_step exec L sortFunc sv others p p'" "handlers_return sv" "pr_returned p \<noteq> Some ProcessCrashed"
  shows "pr_returned p' \<noteq> Some ProcessCrashed"
  using assms go_step_returned [of exec L sortFunc sv p p']
  by (auto simp: proc_step_def Stop_def elim!: tick_step.cases main_step.cases world_step.cases)

lemma proc_steps_no_crash:
  "(proc_step exec L sortFunc sv others)\<^sup>*\<^sup>* p p' \<Longrightarrow> handlers_return sv \<Longrightarrow> pr_returned p \<noteq> Some ProcessCrashed \<Longrightarrow>
   pr_returned p' \<noteq> Some ProcessCrashed"
  by (induction rule: rtranclp_induct) (auto dest: proc_step_no_crash)

lemma ranges_exists:
  assumes "finite (dom m)"
  obtains jobs where "ranges jobs m"
proof -
  obtain ids where ids: "set ids = dom m" "distinct ids" using finite_distinct_list [OF assms] by blast
  have "map_of (map (\<lambda>i. (i, the (m i))) ids) = m"
    using ids(1) by (auto simp: fun_eq_iff map_of_map_restrict restrict_map_def domIff)
  with ids(2) have "ranges (map (\<lambda>i. (i, the (m i))) ids) m" by (simp add: ranges_def comp_def)
  then show thesis by (rule that)
qed

lemma poller_enabled:
  assumes "pr_poll p = Some pt" "pr_cancelled p"
  shows "\<exists>p'. poll_step exec sortFunc sv p p'"
proof (cases pt)
  case (NextQueue f qs)
  then show ?thesis using assms poll_step.p_return [OF assms(1) _ assms(2), of exec sortFunc sv]
    by (cases qs) (blast intro: poll_step.p_round_end)+
next
  case (InDequeue f q qs)
  obtain r s' where "Dequeue exec NoFault (unixMilli (pr_clock p)) q (sv_workerID sv) (pr_redis p) = (r, s')" by fastforce
  then show ?thesis using assms(1) InDequeue by (auto intro: poll_step.p_dequeue)
qed (use assms in \<open>auto intro: poll_step.p_return\<close>)

lemma loop_enabled:
  assumes "pr_loops p l = Some x" "pr_cancelled p" "proc_inv sv p"
  shows "\<exists>p'. loop_step exec sv p p'"
proof (cases x)
  case Seeding
  then show ?thesis using assms by (auto simp: proc_inv_def intro: loop_step.l_seed)
next
  case Ticking
  show ?thesis
  proof (cases l)
    case HeartbeatLoop
    obtain jobs where jobs: "ranges jobs (pr_inflight p)" using ranges_exists assms(3) by (auto simp: proc_inv_def)
    obtain r s' where h: "Heartbeat exec NoFault (unixMilli (pr_clock p)) (sv_workerID sv) (pr_redis p) = (r, s')" by fastforce
    show ?thesis
    proof (cases r)
      case (Inl e)
      then show ?thesis using assms h Ticking HeartbeatLoop by (auto intro: loop_step.l_heartbeat_end)
    next
      case (Inr u)
      then have "\<not> (pr_cancelled p \<and> isl (fst (Heartbeat exec ((\<lambda>_. NoFault) (0 :: nat)) (unixMilli ((\<lambda>_. pr_clock p) (0 :: nat))) (sv_workerID sv) (pr_redis p))))"
        by (simp add: h)
      then show ?thesis using loop_step.l_heartbeat [OF _ jobs, where G = "\<lambda>_. NoFault" and T = "\<lambda>_. pr_clock p"] assms(1) Ticking HeartbeatLoop by blast
    qed
  qed (use assms Ticking in \<open>auto intro: loop_step.l_promote loop_step.l_recover loop_step.l_cron\<close>)
qed (use assms in \<open>auto intro: loop_step.l_return\<close>)

lemma job_enabled:
  assumes "j \<in> set (pr_jobs p)" "proc_inv sv p" "handlers_return sv"
  shows "\<exists>p'. job_step exec L sv p p'"
proof (cases j)
  case (Fresh rec)
  obtain r s' where "begin_job exec L sv undefined undefined rec (pr_redis p) = (r, s')" by fastforce
  then show ?thesis using assms(1) Fresh by (cases r) (auto intro: job_step.j_settle job_step.j_start)
next
  case (Running rec)
  then obtain h where h: "sv_handlers sv (Kind rec) = Some h" using assms(1,2) by (auto simp: proc_inv_def)
  then obtain r rj s1 where r: "wrap_middleware (sv_middleware sv) h (raw_job rec) (pr_redis p) = ((Returned r, rj), s1)"
    using assms(3) unfolding handlers_return_def by blast
  obtain line s2 where "finish_job exec L sv undefined undefined undefined rec (Returned r) rj s1 = (line, s2)" by fastforce
  then show ?thesis using job_step.j_finish [OF _ h r] assms(1) Running by blast
next
  case (Settled rec)
  then show ?thesis using settled_slot [OF assms(2)] assms(1) by (auto intro: job_step.j_release)
qed (use assms(1) in \<open>auto intro: job_step.j_done\<close>)

lemma go_step_enabled:
  assumes "pr_cancelled p" "proc_inv sv p" "handlers_return sv" "pr_returned p \<noteq> Some ProcessCrashed" "pr_wg p \<noteq> 0"
  shows "\<exists>p'. go_step exec L sortFunc sv p p'"
proof -
  have "alive p \<noteq> 0" using assms(2,5) by (simp add: proc_inv_def)
  then consider pt where "pr_poll p = Some pt" | l x where "pr_loops p l = Some x" | j where "j \<in> set (pr_jobs p)"
    unfolding alive_0 by (metis ex_in_conv not_Some_eq set_empty)
  then show ?thesis
    unfolding go_step_def using assms(4) poller_enabled [OF _ assms(1)] loop_enabled [OF _ assms(1,2)] job_enabled [OF _ assms(2,3)]
    by cases blast+
qed

text \<open>A run with \<open>n\<close> steps of the goroutines, \<open>k\<close> of them taking up a tick, and any number of other steps.\<close>

inductive drain_run :: "'s server \<Rightarrow> libs \<Rightarrow> sort \<Rightarrow> 's Server \<Rightarrow> (int \<Rightarrow> 's \<Rightarrow> 's \<Rightarrow> bool) \<Rightarrow> nat \<Rightarrow> nat \<Rightarrow> 's process \<Rightarrow> 's process \<Rightarrow> bool"
  for exec L sortFunc sv others where
  d_start: "drain_run exec L sortFunc sv others 0 0 p p"
| d_go: "drain_run exec L sortFunc sv others n k p p' \<Longrightarrow> go_step exec L sortFunc sv p' p'' \<Longrightarrow> drain_run exec L sortFunc sv others (Suc n) k p p''"
| d_tick: "drain_run exec L sortFunc sv others n k p p' \<Longrightarrow> pr_returned p' \<noteq> Some ProcessCrashed \<Longrightarrow> tick_step p' p'' \<Longrightarrow>
     drain_run exec L sortFunc sv others (Suc n) (Suc k) p p''"
| d_env: "drain_run exec L sortFunc sv others n k p p' \<Longrightarrow> pr_returned p' \<noteq> Some ProcessCrashed \<Longrightarrow> main_step exec sv p' p'' \<or> world_step others p' p'' \<Longrightarrow>
     drain_run exec L sortFunc sv others n k p p''"

lemma drain_run_steps: "drain_run exec L sortFunc sv others n k p p' \<Longrightarrow> (proc_step exec L sortFunc sv others)\<^sup>*\<^sup>* p p'"
  by (induction rule: drain_run.induct) (auto simp: proc_step_def intro: rtranclp.rtrancl_into_rtrancl)

lemma drain_run_work:
  assumes "drain_run exec L sortFunc sv others n k p p'" "pr_cancelled p" "handlers_return sv"
  shows "n + drain_work p' \<le> drain_work p + 2 * k"
  using assms
proof (induction rule: drain_run.induct)
  case (d_go n k p p' p'')
  then have "pr_cancelled p'" using proc_steps_cancelled [OF drain_run_steps] by blast
  then have "drain_work p'' < drain_work p'" using go_step_drains d_go.hyps(2) d_go.prems(2) by blast
  then show ?case using d_go by simp
next
  case (d_tick n k p p' p'')
  then show ?case using tick_step_work [OF d_tick(3)] by simp
next
  case (d_env n k p p' p'')
  then show ?case using env_step_work [OF d_env(3)] by simp
qed simp

lemma Start_running: "Start exec quote parse flt now sv s = Inr p \<Longrightarrow> pr_returned p = None"
  by (auto simp: Start_def split: prod.splits sum.splits)

text \<open>
  C31: Draining ends when the handlers return: after the context is cancelled, the poller, the loops and the goroutines of
  the jobs together take at most as many steps as they have work left (the jobs the poller may still take included), plus two
  for every tick that a loop still takes up because its select chose the timer over the context; this
  whatever else happens in between. And until the wait group is down to zero at least one of them can take a step that
  is not a new tick: none waits for another for ever.
\<close>

theorem shutdown_drains:
  assumes "Start exec quote parse flt now sv s = Inr p0" "0 \<le> sc_concurrency (sv_cfg sv)" "handlers_return sv"
    and "(proc_step exec L sortFunc sv others)\<^sup>*\<^sup>* p0 p" "pr_cancelled p" "drain_run exec L sortFunc sv others n k p p'"
  shows "n + drain_work p' \<le> drain_work p + 2 * k \<and> (pr_wg p' = 0 \<or> (\<exists>p''. go_step exec L sortFunc sv p' p''))"
proof -
  have run: "(proc_step exec L sortFunc sv others)\<^sup>*\<^sup>* p0 p'" using assms(4) drain_run_steps [OF assms(6)] by (meson rtranclp_trans)
  then have "proc_inv sv p'" by (rule proc_steps_inv [OF _ Start_inv [OF assms(1,2)]])
  moreover have "pr_cancelled p'" using proc_steps_cancelled [OF drain_run_steps [OF assms(6)] assms(5)] by simp
  moreover have "pr_returned p' \<noteq> Some ProcessCrashed" using proc_steps_no_crash [OF run assms(3)] Start_running [OF assms(1)] by simp
  ultimately show ?thesis using drain_run_work [OF assms(6,5,3)] go_step_enabled assms(3) by blast
qed

text \<open>So the goroutines can always finish.\<close>

lemma can_drain:
  assumes "pr_cancelled p" "proc_inv sv p" "handlers_return sv" "pr_returned p \<noteq> Some ProcessCrashed"
  shows "\<exists>p'. (go_step exec L sortFunc sv)\<^sup>*\<^sup>* p p' \<and> pr_wg p' = 0 \<and> pr_returned p' = pr_returned p \<and> pr_deadline p' = pr_deadline p"
  using assms
proof (induction "drain_work p" arbitrary: p rule: less_induct)
  case less
  show ?case
  proof (cases "pr_wg p = 0")
    case False
    then obtain p1 where p1: "go_step exec L sortFunc sv p p1" using go_step_enabled less.prems by blast
    note same = go_step_returned [OF p1 less.prems(3)]
    have "proc_inv sv p1" using proc_step_inv [of exec L sortFunc sv "\<lambda>_ _ _. False"] p1 less.prems(2) unfolding proc_step_def by blast
    moreover have "drain_work p1 < drain_work p" using go_step_drains [OF p1] less.prems(1,3) by blast
    ultimately obtain p' where "(go_step exec L sortFunc sv)\<^sup>*\<^sup>* p1 p'" "pr_wg p' = 0" "pr_returned p' = pr_returned p1" "pr_deadline p' = pr_deadline p1"
      using less.hyps [of p1] same less.prems by auto
    then show ?thesis using p1 same by (metis converse_rtranclp_into_rtranclp)
  qed blast
qed

section \<open>Leases during the shutdown\<close>

text \<open>The other processes are recoveries, which sweep by the same clock and do nothing else.\<close>

definition sweeping :: "'s server \<Rightarrow> RecoveryConfig \<Rightarrow> int \<Rightarrow> 's \<Rightarrow> 's \<Rightarrow> bool" where
  "sweeping exec cfg now s s' \<longleftrightarrow> s' = snd (sweep exec (\<lambda>_. NoFault) False (unixMilli now) cfg s)"

text \<open>
  C32: Draining can outlast the leases: the heartbeat loop may return as soon as the context is cancelled, so a job that is still
  in its handler when its lease ends, before the deadline of the shutdown, is made ready again at that moment by the sweep of
  another process, while \<open>Start\<close> still waits and the handler goes on running; nothing else need happen.
\<close>

theorem shutdown_outlives_lease:
  fixes cfg :: RecoveryConfig
  assumes "redis_server exec view" "refines (view (pr_redis p)) m" "m (ID rec) = Some a" "aj_loc a = Active e" "Running rec \<in> set (pr_jobs p)"
    and "pr_cancelled p" "pr_returned p = None" "pr_deadline p = Some t" "pr_clock p \<le> e * 1000000" "e * 1000000 < t"
    and "pr_loops p HeartbeatLoop \<in> {None, Some Waiting}"
    and "\<And>q. q \<in> set (rc_queues cfg) \<Longrightarrow> wf_queue q" "aj_queue a \<in> set (rc_queues cfg)" "few_expired m (aj_queue a) e (rc_limit cfg)"
  shows "\<exists>p' m'. (proc_step exec L sortFunc sv (sweeping exec cfg))\<^sup>*\<^sup>* p p' \<and> pr_loops p' HeartbeatLoop = None \<and>
     Running rec \<in> set (pr_jobs p') \<and> pr_returned p' = None \<and> pr_deadline p' = Some t \<and> pr_clock p' = e * 1000000 \<and>
     refines (view (pr_redis p')) m' \<and> m' (ID rec) = Some (to_ready a)"
proof -
  let ?step = "proc_step exec L sortFunc sv (sweeping exec cfg)"
  let ?p1 = "if pr_loops p HeartbeatLoop = None then p else p\<lparr>pr_loops := (pr_loops p)(HeartbeatLoop := None), pr_wg := pr_wg p - 1\<rparr>"
  let ?s = "snd (sweep exec (\<lambda>_. NoFault) False e cfg (pr_redis p))"
  let ?p2 = "?p1\<lparr>pr_clock := e * 1000000\<rparr>"
  let ?p3 = "?p2\<lparr>pr_redis := ?s\<rparr>"
  have same: "pr_returned ?p1 = None" "pr_clock ?p1 = pr_clock p" "pr_redis ?p1 = pr_redis p" "pr_jobs ?p1 = pr_jobs p"
    "pr_deadline ?p1 = Some t" "pr_loops ?p1 HeartbeatLoop = None" using assms(7,8) by simp_all
  have "?step\<^sup>*\<^sup>* p ?p1"
    using loop_step.l_return [of p HeartbeatLoop exec sv] assms(6,7,11) by (auto simp: proc_step_def go_step_def)
  also have "?step ?p1 ?p2"
    using world_step.w_time [of ?p1 "e * 1000000" "sweeping exec cfg"] assms(9) same(1,2) by (simp only: proc_step_def) simp
  also have "?step ?p2 ?p3"
  proof -
    have "sweeping exec cfg (pr_clock ?p2) (pr_redis ?p2) ?s" using same(3) by (simp add: sweeping_def unixMilli_def)
    then have "world_step (sweeping exec cfg) ?p2 ?p3" by (rule world_step.w_other)
    then show ?thesis using same(1) by (simp add: proc_step_def)
  qed
  finally have run: "?step\<^sup>*\<^sup>* p ?p3" .
  obtain m' where "refines (view ?s) m'" "swept_all e (rc_limit cfg) (rc_queues cfg) m m'"
    using redis_server.sweep_swept [OF assms(1,2,12)] by blast
  moreover from this(2) have "m' (ID rec) = Some (to_ready a)" using swept_allD(3) assms(3,4,13,14) by blast
  ultimately show ?thesis using run same assms(5) by (intro exI [of _ ?p3] exI [of _ m']) simp
qed

section \<open>A run\<close>

text \<open>A server with one handler takes a job at second 1 and calls the handler; at second 2 the shutdown begins.\<close>

definition mail_sv :: "dataset Server" where
  "mail_sv = mail_server (\<lambda>job rj s. ((Returned None, rj), s))"

abbreviation mail_step :: "dataset process \<Rightarrow> dataset process \<Rightarrow> bool" where
  "mail_step \<equiv> proc_step redis_doc sample_libs insertion_sort mail_sv (sweeping redis_doc (NewRecovery \<lparr>rc_interval = 0, rc_queues = [''default''], rc_limit = 0\<rparr>))"

definition started :: "dataset process" where
  "started = \<lparr>pr_redis = snd (Heartbeat redis_doc NoFault 1000 ''w1'' store1), pr_clock = 1000000000, pr_cancelled = False,
     pr_deadline = None, pr_returned = None, pr_sem = 0, pr_wg = 4, pr_poll = Some RoundStart,
     pr_loops = [PromoteLoop \<mapsto> Waiting, HeartbeatLoop \<mapsto> Waiting, RecoveryLoop \<mapsto> Waiting], pr_jobs = [], pr_inflight = Map.empty,
     pr_recovery = NewRecovery \<lparr>rc_interval = 0, rc_queues = [''default''], rc_limit = 0\<rparr>, pr_entries = [], pr_taken = [], pr_log = []\<rparr>"

definition in_handler :: "JobRecord \<Rightarrow> dataset \<Rightarrow> dataset process" where
  "in_handler rec s = started\<lparr>pr_redis := s, pr_sem := 1, pr_wg := 5, pr_poll := Some (NextQueue True []), pr_jobs := [Running rec],
     pr_inflight := [ID rec \<mapsto> Queue rec], pr_taken := [rec]\<rparr>"

lemma mail_sv_cfg:
  "sc_cron (sv_cfg mail_sv) = []" "sc_concurrency (sv_cfg mail_sv) = 10" "sv_workerID mail_sv = ''w1''"
  "sc_shutdownTimeout (sv_cfg mail_sv) = 30000000000" "sc_strictPriority (sv_cfg mail_sv) = False"
  "buildWeightedQueues mail_sv = [''default'']" "map qw_name (sc_queues (sv_cfg mail_sv)) = [''default'']"
  by (simp_all add: mail_sv_def server_setup with_defaults_def at_least_one_def buildWeightedQueues_def)

lemma mail_sv_defaults: "sv_cfg mail_sv = with_defaults
    \<lparr>sc_concurrency = 0, sc_queues = [], sc_strictPriority = False, sc_cron = [], sc_pollInterval = 0, sc_shutdownTimeout = 0\<rparr>"
  by (simp add: mail_sv_def server_setup)

lemma mail_sv_returns: "handlers_return mail_sv"
  by (rule handlers_return_Recover [of _ "[]"]) (simp add: mail_sv_def)

lemma Start_mail: "Start redis_doc quote parse NoFault 1000000000 mail_sv store1 = Inr started"
  using mail_sv_cfg(7) by (simp add: Start_def start_server_def mail_sv_cfg start_loops_def started_def Let_def unixMilli_def)

lemma started_takes_job:
  obtains rec s where "mail_step\<^sup>*\<^sup>* started (in_handler rec s)" "ID rec = ''j1''" "refines s [''j1'' \<mapsto> to_active 31000 mail_ajob]"
proof -
  let ?d = "pr_redis started"
  have ref: "refines (id ?d) [''j1'' \<mapsto> mail_ajob]"
    using frame_refines(1) [OF refines_store1, of 1000 "''w1''"] by (auto simp: started_def)
  have np: "\<not> is_paused id ?d ''default''"
    using store1_paused refines_store1
    by (simp add: is_paused_def started_def Heartbeat_def go_result_def lcall_def redis_doc.simps view_simps key_simps split: if_splits)
  have "int64_job mail_ajob" by (simp add: int64_job_def int64_def min_int64_def max_int64_def)
  then obtain rec s where d: "Dequeue redis_doc NoFault 1000 ''default'' ''w1'' ?d = (Inr (Some rec), s)"
    and s: "refines s [''j1'' \<mapsto> to_active 31000 mail_ajob]" and rec: "describes rec ''j1'' (to_active 31000 mail_ajob)"
    using redis_server.dequeue_contract [OF logical.redis_server_axioms ref _ np next_store1, of mail_ajob 1000 "''w1''"]
    by (auto simp: upd_def)
  have kind: "Kind rec = ''mail''" "ID rec = ''j1''" using rec by (simp_all add: describes_def to_active_def mail_ajob_def new_job_def)
  let ?p1 = "started\<lparr>pr_poll := Some (NextQueue False [''default''])\<rparr>"
  let ?p2 = "started\<lparr>pr_sem := 1, pr_poll := Some (InDequeue False ''default'' [])\<rparr>"
  let ?p3 = "started\<lparr>pr_redis := s, pr_sem := 1, pr_wg := 5, pr_poll := Some (NextQueue True []), pr_jobs := [Fresh rec], pr_taken := [rec]\<rparr>"
  have "poll_step redis_doc insertion_sort mail_sv started ?p1"
    using poll_step.p_round [of started redis_doc insertion_sort mail_sv] by (simp add: pollLoop_def mail_sv_cfg started_def)
  moreover have "poll_step redis_doc insertion_sort mail_sv ?p1 ?p2"
    using poll_step.p_acquire [of ?p1 False "''default''" "[]" mail_sv redis_doc insertion_sort] by (simp add: mail_sv_cfg started_def)
  moreover have "poll_step redis_doc insertion_sort mail_sv ?p2 ?p3"
    using poll_step.p_dequeue [of ?p2 False "''default''" "[]" redis_doc NoFault mail_sv "Inr (Some rec)" s insertion_sort] d
    by (simp add: mail_sv_cfg started_def poll_reply_def unixMilli_def)
  moreover have "job_step redis_doc sample_libs mail_sv ?p3 (in_handler rec s)"
  proof -
    have "begin_job redis_doc sample_libs mail_sv no_job_faults sample_times rec s =
        (Inr (wrap_middleware (sv_middleware mail_sv) (typed_handler ''mail'' (\<lambda>_. Inr ()) (\<lambda>job rj s. ((Returned None, rj), s)))), s)"
      by (simp add: begin_job_def kind mail_sv_def rate_limited_def fireHooks_def)
    then show ?thesis
      using job_step.j_start [of rec ?p3 redis_doc sample_libs mail_sv] by (simp add: goto_def in_handler_def started_def)
  qed
  ultimately have "mail_step\<^sup>*\<^sup>* started (in_handler rec s)"
    by (intro converse_rtranclp_into_rtranclp [of mail_step started ?p1] converse_rtranclp_into_rtranclp [of mail_step ?p1 ?p2]
        converse_rtranclp_into_rtranclp [of mail_step ?p2 ?p3] r_into_rtranclp) (auto simp: proc_step_def go_step_def started_def)
  then show thesis using kind(2) s by (rule that)
qed

definition stopping :: "JobRecord \<Rightarrow> dataset \<Rightarrow> dataset process" where
  "stopping rec s = (in_handler rec s)\<lparr>pr_clock := 2000000000, pr_cancelled := True, pr_deadline := Some 32000000000\<rparr>"

lemma stopping_steps: "mail_step\<^sup>*\<^sup>* (in_handler rec s) (stopping rec s)"
proof -
  let ?p = "(in_handler rec s)\<lparr>pr_clock := 2000000000\<rparr>"
  have "mail_step (in_handler rec s) ?p"
    using world_step.w_time [of "in_handler rec s" 2000000000] by (simp add: proc_step_def in_handler_def started_def)
  moreover have "mail_step ?p (stopping rec s)"
    using main_step.m_shutdown [of ?p redis_doc mail_sv] by (simp add: proc_step_def in_handler_def started_def stopping_def mail_sv_cfg)
  ultimately show ?thesis by (intro converse_rtranclp_into_rtranclp [of mail_step "in_handler rec s" ?p] r_into_rtranclp)
qed

lemma stopping_sel:
  "pr_redis (stopping rec s) = s" "pr_jobs (stopping rec s) = [Running rec]" "pr_cancelled (stopping rec s)" "pr_returned (stopping rec s) = None"
  "pr_deadline (stopping rec s) = Some 32000000000" "pr_clock (stopping rec s) = 2000000000" "pr_loops (stopping rec s) HeartbeatLoop = Some Waiting"
  "pr_wg (stopping rec s) = 5" "pr_taken (stopping rec s) = [rec]" "pr_poll (stopping rec s) = Some (NextQueue True [])"
  by (simp_all add: stopping_def in_handler_def started_def)

theorem concurrency_is_bounded_witness:
  "\<exists>rec s. mail_step\<^sup>*\<^sup>* started (in_handler rec s) \<and> int (length (filter processing [Running rec])) \<le> 10"
proof -
  obtain rec s where run: "mail_step\<^sup>*\<^sup>* started (in_handler rec s)" by (rule started_takes_job)
  from concurrency_is_bounded [OF Start_mail run mail_sv_defaults] run show ?thesis by (auto simp: in_handler_def)
qed

theorem shutdown_settles_every_job_witness:
  "\<exists>rec p'. mail_step\<^sup>*\<^sup>* started p' \<and> pr_returned p' = Some Drained \<and> pr_taken p' = [rec] \<and> mset (map fst (pr_log p')) = {#rec#}"
proof -
  obtain rec s where "mail_step\<^sup>*\<^sup>* started (in_handler rec s)" by (rule started_takes_job)
  then have run: "mail_step\<^sup>*\<^sup>* started (stopping rec s)" using stopping_steps by (rule rtranclp_trans)
  have inv: "proc_inv mail_sv (stopping rec s)" by (rule proc_steps_inv [OF run Start_inv [OF Start_mail]]) (simp add: mail_sv_cfg)
  obtain p1 where p1: "(go_step redis_doc sample_libs insertion_sort mail_sv)\<^sup>*\<^sup>* (stopping rec s) p1" "pr_wg p1 = 0" "pr_returned p1 = None"
    "pr_deadline p1 = Some 32000000000"
    using can_drain [OF stopping_sel(3) inv mail_sv_returns, of redis_doc sample_libs insertion_sort] by (auto simp: stopping_sel)
  have steps1: "mail_step\<^sup>*\<^sup>* (stopping rec s) p1"
    by (rule rtranclp_mono [THEN predicate2D, OF _ p1(1)]) (auto simp: proc_step_def)
  let ?p2 = "p1\<lparr>pr_redis := stop_server redis_doc NoFault mail_sv (pr_redis p1), pr_returned := Some Drained\<rparr>"
  have "mail_step p1 ?p2" using main_step.m_drained [OF p1(4,3,2)] p1(3) by (simp add: proc_step_def)
  with steps1 have run2: "mail_step\<^sup>*\<^sup>* (stopping rec s) ?p2" by (rule rtranclp.rtrancl_into_rtrancl)
  have concl: "length (pr_taken ?p2) \<le> length (pr_taken (stopping rec s)) + polls_left (pr_poll (stopping rec s)) \<and>
     (pr_returned ?p2 = Some Drained \<longrightarrow>
        pr_poll ?p2 = None \<and> pr_loops ?p2 = Map.empty \<and> pr_jobs ?p2 = [] \<and> mset (map fst (pr_log ?p2)) = mset (pr_taken ?p2))"
    by (rule shutdown_settles_every_job [OF Start_mail _ run _ run2]) (simp_all add: mail_sv_cfg stopping_sel)
  have "suffix (pr_taken (stopping rec s)) (pr_taken ?p2)" using taken_grows [OF run2] .
  then have "pr_taken ?p2 = [rec]" using concl by (auto simp: suffix_def stopping_sel)
  moreover have "mail_step\<^sup>*\<^sup>* started ?p2" using run run2 by (rule rtranclp_trans)
  ultimately show ?thesis using concl by (intro exI [of _ rec] exI [of _ ?p2]) simp
qed

theorem shutdown_drains_witness:
  "\<exists>rec s p'. mail_step\<^sup>*\<^sup>* started (stopping rec s) \<and>
     drain_run redis_doc sample_libs insertion_sort mail_sv (\<lambda>_ _ _. False) 1 0 (stopping rec s) p' \<and> 1 + drain_work p' \<le> drain_work (stopping rec s)"
proof -
  obtain rec s where "mail_step\<^sup>*\<^sup>* started (in_handler rec s)" by (rule started_takes_job)
  then have run: "mail_step\<^sup>*\<^sup>* started (stopping rec s)" using stopping_steps by (rule rtranclp_trans)
  have inv: "proc_inv mail_sv (stopping rec s)" by (rule proc_steps_inv [OF run Start_inv [OF Start_mail]]) (simp add: mail_sv_cfg)
  obtain p' where "go_step redis_doc sample_libs insertion_sort mail_sv (stopping rec s) p'"
    using go_step_enabled [OF stopping_sel(3) inv mail_sv_returns, of redis_doc sample_libs insertion_sort] by (auto simp: stopping_sel)
  then have d: "drain_run redis_doc sample_libs insertion_sort mail_sv
      (sweeping redis_doc (NewRecovery \<lparr>rc_interval = 0, rc_queues = [''default''], rc_limit = 0\<rparr>)) 1 0 (stopping rec s) p'"
    and d': "drain_run redis_doc sample_libs insertion_sort mail_sv (\<lambda>_ _ _. False) 1 0 (stopping rec s) p'"
    using drain_run.d_go [OF drain_run.d_start] by simp_all
  from shutdown_drains [OF Start_mail _ mail_sv_returns run _ d] have "1 + drain_work p' \<le> drain_work (stopping rec s)"
    by (simp add: mail_sv_cfg stopping_sel)
  with run d' show ?thesis by blast
qed

theorem shutdown_outlives_lease_witness:
  "\<exists>rec s p' m'. mail_step\<^sup>*\<^sup>* started (stopping rec s) \<and> mail_step\<^sup>*\<^sup>* (stopping rec s) p' \<and> Running rec \<in> set (pr_jobs p') \<and>
     pr_returned p' = None \<and> pr_clock p' = 31000000000 \<and> refines (pr_redis p') m' \<and> m' ''j1'' = Some (to_ready (to_active 31000 mail_ajob))"
proof -
  obtain rec s where run: "mail_step\<^sup>*\<^sup>* started (in_handler rec s)" and id: "ID rec = ''j1''" and ref: "refines s [''j1'' \<mapsto> to_active 31000 mail_ajob]"
    by (rule started_takes_job)
  let ?m = "[''j1'' \<mapsto> to_active 31000 mail_ajob]" and ?cfg = "NewRecovery \<lparr>rc_interval = 0, rc_queues = [''default''], rc_limit = 0\<rparr>"
  have cfg: "rc_queues ?cfg = [''default'']" "rc_limit ?cfg = 100" by (simp_all add: NewRecovery_def)
  have a: "aj_queue (to_active 31000 mail_ajob) = ''default''" "aj_loc (to_active 31000 mail_ajob) = Active 31000" by (simp_all add: to_active_def)
  have "few_expired ?m (aj_queue (to_active 31000 mail_ajob)) 31000 (rc_limit ?cfg)" using few_expired_store2 by (simp add: cfg a(1))
  moreover have "wf_queue q" if "q \<in> set (rc_queues ?cfg)" for q using that by (simp add: cfg)
  ultimately obtain p' m' where p': "mail_step\<^sup>*\<^sup>* (stopping rec s) p'" "Running rec \<in> set (pr_jobs p')" "pr_returned p' = None"
    "pr_clock p' = 31000 * 1000000" "refines (id (pr_redis p')) m'" "m' (ID rec) = Some (to_ready (to_active 31000 mail_ajob))"
    using shutdown_outlives_lease [OF logical.redis_server_axioms _ _ a(2), of "stopping rec s" ?m rec 32000000000 ?cfg] ref
    by (fastforce simp: stopping_sel cfg a(1) id)
  have "mail_step\<^sup>*\<^sup>* started (stopping rec s)" using run stopping_steps by (rule rtranclp_trans)
  with p' show ?thesis by (intro exI [of _ rec] exI [of _ s] exI [of _ p'] exI [of _ m']) (simp add: id)
qed

end
