(* ===== verification/Server_Workflow.thy ===== *)
theory Server_Workflow
  imports Server_Props Workflow_Group Queue_Locks
begin

text \<open>
  The worker and the workflows together: \<open>processJob\<close> settles a job in the queue and then tells the
  workflow manager, each over its own keys of the same store.
\<close>

section \<open>Settling a job leaves the workflows alone\<close>

definition workflows_kept :: "dataset \<Rightarrow> dataset \<Rightarrow> bool" where
  "workflows_kept d d' \<longleftrightarrow>
     (\<forall>x. lookup d' (workflowKey x) = lookup d (workflowKey x) \<and> lookup d' (counterKey x) = lookup d (counterKey x) \<and>
       lookup d' (depsKey x) = lookup d (depsKey x))"

lemma workflows_kept_trans: "workflows_kept d d' \<Longrightarrow> workflows_kept d' d'' \<Longrightarrow> workflows_kept d d''"
  by (simp add: workflows_kept_def)

lemma workflows_keptD:
  assumes "workflows_kept d d'"
  shows "stored J d' r = stored J d r" "counter d' x n = counter d x n" "chain_at J d' r k = chain_at J d r k"
  using assms by (simp_all add: workflows_kept_def stored_def counter_def chain_at_def)

lemma kept_after_ack: "wf_queue q \<Longrightarrow> unique_ok u \<Longrightarrow> workflows_kept d (after_ack q i w now u d)"
  unfolding workflows_kept_def
  by (auto simp: after_ack_def move_defs key_simps drop_lock_def unique_ok_def)

lemma kept_after_nack: "wf_queue q \<Longrightarrow> unique_ok (aj_unique a) \<Longrightarrow> workflows_kept d (after_nack q i w err t skip a d)"
  unfolding workflows_kept_def
  by (auto simp: after_nack_def nack_common_def Let_def move_defs key_simps drop_lock_def unique_ok_def)

lemma Ack_keeps_workflows:
  assumes "refines d m" "m i = Some a" "at_loc m q i is_active"
  shows "workflows_kept d (snd (Ack redis_doc NoFault now q i w d))"
proof -
  obtain t where a: "aj_queue a = q" "aj_loc a = Active t" using assms(2,3) by (auto simp: at_loc_def)
  obtain h where v: "jview_of d i = place h q (aj_prio a) (Active t)" and h: "hash_of h i a"
    and wf: "wf_id i" "wf_queue q" "unique_ok (aj_unique a)" "shape d"
    using refines_jobE [OF assms(1,2)] a by auto
  have "snd (Ack redis_doc NoFault now q i w d) = after_ack q i w (itoa now) (aj_unique a) d"
    using v h wf run_ackScript [OF wf(4,2,1)] by (simp add: Ack_def go_result_def place_def hash_of_def)
  then show ?thesis using kept_after_ack [OF wf(2,3)] by simp
qed

lemma Nack_keeps_workflows:
  assumes "refines d m" "m i = Some a" "at_loc m q i is_active"
  shows "workflows_kept d (snd (Nack redis_doc NoFault now q i w err backoff skip d))"
proof -
  have a: "aj_queue a = q" using assms(2,3) by (auto simp: at_loc_def)
  have "snd (Nack redis_doc NoFault now q i w err backoff skip d) = after_nack q i w err (now + backoff) skip a d"
    using run_nackScript [OF assms(1,2) a, of w err backoff now skip] by (simp add: Nack_def go_result_def)
  then show ?thesis using kept_after_nack refines_jobE [OF assms(1,2)] a by metis
qed

lemma SetResult_keeps_workflows: "workflows_kept d (snd (SetResult redis_doc flt i v ttl d))"
proof -
  have "lookup (snd (SetResult redis_doc flt i v ttl d)) k = lookup d k" if "k \<noteq> resultKey i" for k
    unfolding SetResult_def using that by (intro keeps_lookup keep_intros) simp_all
  then show ?thesis by (simp add: workflows_kept_def key_simps)
qed

section \<open>Advancing a chain\<close>

context redis_server
begin

lemma ack_and_result:
  assumes "refines (view s) m" "m (ID rec) = Some a" "at_loc m (Queue rec) (ID rec) is_active"
  obtains s1 s2 where "Ack exec NoFault now (Queue rec) (ID rec) w s = (Inr (), s1)"
    and "s2 = (if res \<noteq> '''' then snd (SetResult exec NoFault (ID rec) res ttl s1) else s1)"
    and "refines (view s2) (m(ID rec \<mapsto> to_completed a))" "workflows_kept (view s) (view s2)"
proof -
  obtain s1 where s1: "Ack exec NoFault now (Queue rec) (ID rec) w s = (Inr (), s1)" "refines (view s1) (m(ID rec \<mapsto> to_completed a))"
    using q.ack_law [OF assms(1,3)] assms(2) by (fastforce simp: upd_def)
  have "view s1 = snd (Ack redis_doc NoFault now (Queue rec) (ID rec) w (view s))"
    using sim_snd [OF sim_Ack, of NoFault now "Queue rec" "ID rec" w s] s1(1) by simp
  then have k1: "workflows_kept (view s) (view s1)" using Ack_keeps_workflows [OF assms] by simp
  have k2: "workflows_kept (view s1) (view (snd (SetResult exec NoFault (ID rec) res ttl s1)))"
    using SetResult_keeps_workflows by (simp add: sim_snd [OF sim_SetResult])
  show ?thesis
    using s1 k1 workflows_kept_trans [OF k1 k2] SetResult_keeps [OF s1(2)] by (intro that [OF s1(1) refl]) simp_all
qed

lemma complete_chain_job:
  assumes "json_codec (lib_json L)" "refines (view s) m" "m (ID rec) = Some a" "at_loc m (Queue rec) (ID rec) is_active"
    and "chain_at (lib_json L) (view s) r k" "WorkflowID rec = w_id r" "w_id r \<noteq> ''''" "wf_id uuid" "m uuid = None"
    and "Suc k < length (w_tasks r) \<Longrightarrow> wf_queue (task_queue_name (w_tasks r ! Suc k))" "quiet view (onComplete (sv_hooks sv))"
  shows "\<exists>s'. complete_job exec L sv no_job_faults T uuid rec rj s = (LogCompleted, s') \<and>
     (if Suc k < length (w_tasks r)
      then chain_at (lib_json L) (view s') (r\<lparr>w_current := int (Suc k)\<rparr>) (Suc k) \<and>
        refines (view s') (m(ID rec \<mapsto> to_completed a, uuid \<mapsto> new_job (task_job uuid (unixMilli (T 2)) (w_tasks r ! Suc k) (w_id r)) ''''))
      else stored (lib_json L) (view s') (r\<lparr>w_current := int (Suc k), w_state := ''completed''\<rparr>) \<and>
        refines (view s') (m(ID rec \<mapsto> to_completed a)))"
proof -
  let ?res = "rj_result rj"
  obtain s1 s2 where s: "Ack exec NoFault (unixMilli (T 1)) (Queue rec) (ID rec) (sv_workerID sv) s = (Inr (), s1)"
    "s2 = (if ?res \<noteq> '''' then snd (SetResult exec NoFault (ID rec) ?res (7 * 24 * 3600 * 1000000000) s1) else s1)"
    "refines (view s2) (m(ID rec \<mapsto> to_completed a))" "workflows_kept (view s) (view s2)"
    by (rule ack_and_result [OF assms(2-4)])
  have ch: "chain_at (lib_json L) (view s2) r k" using assms(5) workflows_keptD(3) [OF s(4)] by simp
  have fresh: "(m(ID rec \<mapsto> to_completed a)) uuid = None" using assms(3,9) by auto
  obtain d' where d': "OnJobCompleted redis_doc (lib_json L) calm uuid (unixMilli (T 2)) (w_id r) (ID rec) (view s2) = (Inr (), d')"
    "if Suc k < length (w_tasks r)
      then chain_at (lib_json L) d' (r\<lparr>w_current := int (Suc k)\<rparr>) (Suc k) \<and>
        refines d' (m(ID rec \<mapsto> to_completed a, uuid \<mapsto> new_job (task_job uuid (unixMilli (T 2)) (w_tasks r ! Suc k) (w_id r)) ''''))
      else stored (lib_json L) d' (r\<lparr>w_current := int (Suc k), w_state := ''completed''\<rparr>) \<and> refines d' (m(ID rec \<mapsto> to_completed a))"
    using run_chain_step [OF assms(1) s(3) ch assms(8) fresh assms(10)] by blast
  obtain s3 where s3: "OnJobCompleted exec (lib_json L) calm uuid (unixMilli (T 2)) (w_id r) (ID rec) s2 = (Inr (), s3)" "view s3 = d'"
    using sim_result [OF sim_OnJobCompleted d'(1)] by blast
  have "complete_job exec L sv no_job_faults T uuid rec rj s = (LogCompleted, fireHooks (onComplete (sv_hooks sv)) (job_event rec None) s3)"
    using s(1,2) s3(1) assms(6,7) by (cases "?res = ''''") (simp_all add: complete_job_def Let_def)
  then show ?thesis using d'(2) s3(2) view_fireHooks [OF assms(11)] by (simp del: fun_upd_apply of_nat_Suc)
qed

lemma fail_workflow_job:
  assumes "json_codec (lib_json L)" "refines (view s) m" "m (ID rec) = Some a" "at_loc m (Queue rec) (ID rec) is_active"
    and "stored (lib_json L) (view s) r" "WorkflowID rec = w_id r" "w_id r \<noteq> ''''" "exhausted (IsSkipRetry err) a"
    and "quiet view (onDead (sv_hooks sv))"
  shows "\<exists>s' b. fail_job exec L sv no_job_faults T rec err s = (LogNacked ''dead'' b, s') \<and>
     stored (lib_json L) (view s') (r\<lparr>w_state := ''failed''\<rparr>) \<and>
     refines (view s') (m(ID rec \<mapsto> to_failed (IsSkipRetry err) (unixMilli (T 1) + b) a))"
proof -
  let ?skip = "IsSkipRetry err"
  let ?b = "backoff_ms L ?skip (Attempt rec)"
  obtain s1 where s1: "Nack exec NoFault (unixMilli (T 1)) (Queue rec) (ID rec) (sv_workerID sv) (Error err) ?b ?skip s = (Inr ''dead'', s1)"
    "refines (view s1) (m(ID rec \<mapsto> to_failed ?skip (unixMilli (T 1) + ?b) a))"
    using q.nack_law [OF assms(2-4), of "unixMilli (T 1)" "sv_workerID sv" "Error err" ?b ?skip] assms(3,8)
    by (auto simp: upd_def)
  let ?s2 = "fireHooks (onDead (sv_hooks sv)) (job_event rec (Some err)) s1"
  have v2: "view ?s2 = view s1" by (rule view_fireHooks [OF assms(9)])
  have "view s1 = snd (Nack redis_doc NoFault (unixMilli (T 1)) (Queue rec) (ID rec) (sv_workerID sv) (Error err) ?b ?skip (view s))"
    using sim_snd [OF sim_Nack, of NoFault "unixMilli (T 1)" "Queue rec" "ID rec" "sv_workerID sv" "Error err" ?b ?skip s] s1(1) by simp
  then have "workflows_kept (view s) (view s1)" using Nack_keeps_workflows [OF assms(2-4)] by simp
  then have st: "stored (lib_json L) (view ?s2) r" using assms(5) v2 workflows_keptD(1) by metis
  let ?r = "r\<lparr>w_state := ''failed''\<rparr>"
  obtain s3 where s3: "OnJobFailed exec (lib_json L) calm (w_id r) ?s2 = (Inr (), s3)" "view s3 = save_wf (lib_json L) ?r (view ?s2)"
    using sim_result [OF sim_OnJobFailed run_fail [OF assms(1) st]] by blast
  have "fail_job exec L sv no_job_faults T rec err s = (LogNacked ''dead'' ?b, s3)"
    using s1(1) s3(1) assms(6,7) by (simp add: fail_job_def Let_def)
  moreover have "stored (lib_json L) (view s3) ?r"
    using save_wf_simps(1) [of "lib_json L" ?r] stored_ok [OF assms(5)] by (simp add: s3(2))
  moreover have "refines (view s3) (m(ID rec \<mapsto> to_failed ?skip (unixMilli (T 1) + ?b) a))"
    using refines_agree [OF s1(2)] by (simp add: s3(2) v2 del: fun_upd_apply)
  ultimately show ?thesis by blast
qed

end

text \<open>
  C7: The worker drives its chain. When the handler of a chain's current job returns without error the job
  is completed and exactly the next task is enqueued, or the workflow is completed when there is
  none; when it fails for good the job is a dead letter, the workflow is marked failed and nothing is
  enqueued. No other job changes.
\<close>

theorem worker_drives_chain:
  assumes "redis_server exec view" "json_codec (lib_json L)" "quiet_hooks view sv"
    and "sv_handlers sv (Kind rec) = Some h" "sv_rateLimits sv (Kind rec) = None"
    and "wrap_middleware (sv_middleware sv) h (raw_job rec) (fireHooks (onStart (sv_hooks sv)) (job_event rec None) s) = ((Returned e, rj), s1)"
    and "refines (view s1) m" "m (ID rec) = Some a" "at_loc m (Queue rec) (ID rec) is_active"
    and "chain_at (lib_json L) (view s1) r k" "WorkflowID rec = w_id r" "w_id r \<noteq> ''''" "wf_id uuid" "m uuid = None"
    and "Suc k < length (w_tasks r) \<Longrightarrow> wf_queue (task_queue_name (w_tasks r ! Suc k))"
  shows "case e of
     None \<Rightarrow> \<exists>s'. processJob exec L sv no_job_faults T uuid rec s = (LogCompleted, s') \<and>
       (if Suc k < length (w_tasks r)
        then chain_at (lib_json L) (view s') (r\<lparr>w_current := int (Suc k)\<rparr>) (Suc k) \<and>
          refines (view s') (m(ID rec \<mapsto> to_completed a, uuid \<mapsto> new_job (task_job uuid (unixMilli (T 2)) (w_tasks r ! Suc k) (w_id r)) ''''))
        else stored (lib_json L) (view s') (r\<lparr>w_current := int (Suc k), w_state := ''completed''\<rparr>) \<and>
          refines (view s') (m(ID rec \<mapsto> to_completed a)))
   | Some err \<Rightarrow> IsReschedule err = None \<and> IsCancel err = None \<and> exhausted (IsSkipRetry err) a \<longrightarrow>
       (\<exists>s' b. processJob exec L sv no_job_faults T uuid rec s = (LogNacked ''dead'' b, s') \<and>
         stored (lib_json L) (view s') (r\<lparr>w_state := ''failed''\<rparr>) \<and>
         refines (view s') (m(ID rec \<mapsto> to_failed (IsSkipRetry err) (unixMilli (T 1) + b) a)))"
proof -
  have run: "processJob exec L sv no_job_faults T uuid rec s = finish_job exec L sv no_job_faults T uuid rec (Returned e) rj s1"
    using assms(4-6) by (simp add: processJob_def begin_job_def rate_limited_def)
  have hooks: "quiet view (onComplete (sv_hooks sv))" "quiet view (onDead (sv_hooks sv))"
    using assms(3) by (simp_all add: quiet_hooks_def)
  have st: "stored (lib_json L) (view s1) r" using assms(10) by (simp add: chain_at_def)
  show ?thesis
  proof (cases e)
    case None
    with redis_server.complete_chain_job [OF assms(1,2,7-15) hooks(1), of T rj] run show ?thesis
      by (simp add: finish_job_def del: fun_upd_apply of_nat_Suc)
  next
    case (Some err)
    with redis_server.fail_workflow_job [OF assms(1,2,7-9) st assms(11,12) _ hooks(2), of err T] run show ?thesis
      by (simp add: finish_job_def del: fun_upd_apply of_nat_Suc)
  qed
qed

definition chain_job :: JobRecord where
  "chain_job = mail_job\<lparr>WorkflowID := ''wf''\<rparr>"

definition chain_store :: dataset where
  "chain_store = save_wf go_json sample_chain store2"

lemma chain_job_sel [simp]: "ID chain_job = ''j1''" "Queue chain_job = ''default''" "Kind chain_job = ''mail''" "WorkflowID chain_job = ''wf''"
  by (simp_all add: chain_job_def)

lemma store2_no_counter: "lookup store2 (counterKey x) = None"
proof -
  have "lookup store2 (counterKey x) = lookup store1 (counterKey x)"
    unfolding store2_def Dequeue_def dequeueScript_def
    by (rule keeps_lookup, intro keep_intros) (simp_all add: key_simps)
  then show ?thesis by (simp add: store1_after after_enqueue_def insert_job_def move_defs take_lock_def key_simps)
qed

lemma chain_store_state:
  "refines chain_store [''j1'' \<mapsto> to_active 31000 mail_ajob]" "stored go_json chain_store sample_chain" "chain_at go_json chain_store sample_chain 0"
proof -
  show "refines chain_store [''j1'' \<mapsto> to_active 31000 mail_ajob]"
    unfolding chain_store_def using refines_agree [OF refines_store2] by simp
  show st: "stored go_json chain_store sample_chain" by (simp add: chain_store_def)
  have "lookup chain_store (counterKey ''wf'') = None"
    using store2_no_counter by (simp add: chain_store_def sample_chain_def)
  then show "chain_at go_json chain_store sample_chain 0"
    using st by (simp add: chain_at_def counter_def sample_chain_def)
qed

theorem worker_drives_chain_witness:
  "\<exists>s'. processJob redis_doc sample_libs (mail_server (\<lambda>job rj s. ((Returned None, rj), s))) no_job_faults sample_times ''u9'' chain_job chain_store =
       (LogCompleted, s') \<and> chain_at go_json s' (sample_chain\<lparr>w_current := 1\<rparr>) 1"
proof -
  let ?sv = "mail_server (\<lambda>job rj s. ((Returned None, rj), s))"
  let ?h = "typed_handler ''mail'' (\<lambda>_. Inr ()) (\<lambda>job rj s. ((Returned None, rj), s))"
  let ?m = "[''j1'' \<mapsto> to_active 31000 mail_ajob]"
  have J: "lib_json sample_libs = go_json" by (simp add: sample_libs_def)
  have h: "sv_handlers ?sv (Kind chain_job) = Some ?h" "sv_rateLimits ?sv (Kind chain_job) = None" by simp_all
  have run: "wrap_middleware (sv_middleware ?sv) ?h (raw_job chain_job) (fireHooks (onStart (sv_hooks ?sv)) (job_event chain_job None) chain_store) =
      ((Returned None, raw_job chain_job), chain_store)"
    by (simp add: wrap_middleware_def typed_handler_def Recover_def fireHooks_def)
  have st: "refines (id chain_store) ?m" "?m (ID chain_job) = Some (to_active 31000 mail_ajob)" "at_loc ?m (Queue chain_job) (ID chain_job) is_active"
    using chain_store_state(1) store2_active by simp_all
  have ch: "chain_at (lib_json sample_libs) (id chain_store) sample_chain 0" "json_codec (lib_json sample_libs)"
    using chain_store_state(3) go.json_codec_axioms by (simp_all add: J)
  have w: "WorkflowID chain_job = w_id sample_chain" "w_id sample_chain \<noteq> ''''" "wf_id ''u9''" "?m ''u9'' = None"
    by (simp_all add: sample_chain_def wf_id_def suffix_def)
  have q: "wf_queue (task_queue_name (w_tasks sample_chain ! Suc 0))"
    by (simp add: sample_chain_def sample_task_def task_queue_name_def)
  from worker_drives_chain [OF logical.redis_server_axioms ch(2) mail_server_sel(4) h run st ch(1) w q, of sample_times]
  obtain s' where "processJob redis_doc sample_libs ?sv no_job_faults sample_times ''u9'' chain_job chain_store = (LogCompleted, s')"
    "chain_at go_json s' (sample_chain\<lparr>w_current := int (Suc 0)\<rparr>) (Suc 0)"
    by (auto simp: J sample_chain_def simp del: fun_upd_apply)
  then show ?thesis by (intro exI [of _ s']) simp
qed

section \<open>A missing handler\<close>

text \<open>
  A job of a workflow whose kind has no handler is buried without telling the workflow manager: the
  job is a dead letter, but the record of its workflow stays what it was, for a running workflow
  running, and no completion of another job can finish it.
\<close>

lemma missing_handler_strands_workflow:
  assumes "redis_server exec view" "refines (view s) m" "m (ID rec) = Some a" "at_loc m (Queue rec) (ID rec) is_active"
    and "sv_handlers sv (Kind rec) = None" "stored J (view s) r"
  shows "\<exists>s'. processJob exec L sv no_job_faults T uuid rec s = (LogNoHandler, s') \<and> stored J (view s') r \<and>
     refines (view s') (m(ID rec \<mapsto> to_failed True (unixMilli (T 1)) a))"
proof -
  obtain res s1 where s1: "Nack exec NoFault (unixMilli (T 1)) (Queue rec) (ID rec) (sv_workerID sv) ''no handler registered'' 0 True s = (Inr res, s1)"
    "refines (view s1) (m(ID rec \<mapsto> to_failed True (unixMilli (T 1)) a))"
    using redis_server.nack_contract [OF assms(1-4), of "unixMilli (T 1)" "sv_workerID sv" "''no handler registered''" 0 True] assms(3)
    by (auto simp: upd_def)
  have "workflows_kept (view s) (view s1)"
    using Nack_keeps_workflows [OF assms(2-4)] s1(1)
      sim_snd [OF redis_server.sim_Nack [OF assms(1)], of NoFault "unixMilli (T 1)" "Queue rec" "ID rec" "sv_workerID sv" "''no handler registered''" 0 True s]
    by (metis snd_conv)
  with assms(5,6) s1 workflows_keptD(1) show ?thesis by (auto simp: processJob_def begin_job_def)
qed

end
