(* ===== verification/Inspector.thy ===== *)
theory Inspector
  imports Queue_Inspect
begin

text \<open>\<^verbatim>\<open>inspector.go\<close>: the read and management operations on queues and dead letters.\<close>

record QueueInfo =
  qi_name :: string
  qi_ready :: int
  qi_active :: int
  qi_delayed :: int
  qi_dead :: int
  qi_completed :: int
  qi_enqueued :: int

text \<open>Reading a Go map: 0 for a missing key.\<close>

definition stat_or_0 :: "(string \<rightharpoonup> int) \<Rightarrow> string \<Rightarrow> int" where
  "stat_or_0 stats k = (case stats k of None \<Rightarrow> 0 | Some n \<Rightarrow> n)"

definition inspect_Queue :: "'s server \<Rightarrow> fault \<Rightarrow> string \<Rightarrow> 's \<Rightarrow> (qerr + QueueInfo) \<times> 's" where
  "inspect_Queue exec flt name s =
     (case QueueStats exec flt name s of
        (Inl e, s') \<Rightarrow> (Inl e, s')
      | (Inr stats, s') \<Rightarrow>
          (Inr \<lparr>qi_name = name, qi_ready = stat_or_0 stats ''ready'', qi_active = stat_or_0 stats ''active'',
             qi_delayed = stat_or_0 stats ''delayed'', qi_dead = stat_or_0 stats ''dead'',
             qi_completed = stat_or_0 stats ''completed'', qi_enqueued = stat_or_0 stats ''enqueued''\<rparr>, s'))"

text \<open>Times are nanoseconds.\<close>

record DeadJob =
  dj_ID :: string
  dj_Kind :: string
  dj_Queue :: string
  dj_Payload :: string
  dj_Attempt :: int
  dj_MaxRetries :: int
  dj_LastError :: string
  dj_CreatedAt :: int
  dj_CompletedAt :: int

definition deadJobFromRecord :: "JobRecord \<Rightarrow> DeadJob" where
  "deadJobFromRecord rec =
     \<lparr>dj_ID = ID rec, dj_Kind = Kind rec, dj_Queue = Queue rec, dj_Payload = Payload rec, dj_Attempt = Attempt rec,
      dj_MaxRetries = MaxRetries rec, dj_LastError = LastError rec, dj_CreatedAt = CreatedAt rec * 1000000,
      dj_CompletedAt = CompletedAt rec * 1000000\<rparr>"

definition inspect_Dead :: "'s server \<Rightarrow> fault \<Rightarrow> (nat \<Rightarrow> fault) \<Rightarrow> string \<Rightarrow> int \<Rightarrow> int \<Rightarrow> 's \<Rightarrow> (qerr + DeadJob list) \<times> 's" where
  "inspect_Dead exec flt flts queueName offset limit s =
     (case ListDead exec flt flts queueName offset limit s of
        (Inl e, s') \<Rightarrow> (Inl e, s') | (Inr recs, s') \<Rightarrow> (Inr (map deadJobFromRecord recs), s'))"

definition inspect_PeekDead :: "'s server \<Rightarrow> fault \<Rightarrow> fault \<Rightarrow> string \<Rightarrow> 's \<Rightarrow> (qerr + DeadJob option) \<times> 's" where
  "inspect_PeekDead exec flt flt2 queueName s =
     (case PeekDead exec flt flt2 queueName s of
        (Inl e, s') \<Rightarrow> (Inl e, s') | (Inr rec, s') \<Rightarrow> (Inr (map_option deadJobFromRecord rec), s'))"

definition inspect_Retry :: "'s server \<Rightarrow> fault \<Rightarrow> string \<Rightarrow> string \<Rightarrow> 's \<Rightarrow> (qerr + unit) \<times> 's" where
  "inspect_Retry exec flt queueName jobID = RetryDead exec flt queueName jobID"

definition inspect_PurgeDead :: "'s server \<Rightarrow> fault \<Rightarrow> string \<Rightarrow> 's \<Rightarrow> (qerr + int) \<times> 's" where
  "inspect_PurgeDead exec flt queueName = PurgeDead exec flt queueName"

definition inspect_DeadCount :: "'s server \<Rightarrow> fault \<Rightarrow> string \<Rightarrow> 's \<Rightarrow> (qerr + int) \<times> 's" where
  "inspect_DeadCount exec flt queueName = DeadCount exec flt queueName"

definition inspect_Pause :: "'s server \<Rightarrow> fault \<Rightarrow> string \<Rightarrow> 's \<Rightarrow> (qerr + unit) \<times> 's" where
  "inspect_Pause exec flt queueName = Pause exec flt queueName"

definition inspect_Resume :: "'s server \<Rightarrow> fault \<Rightarrow> string \<Rightarrow> 's \<Rightarrow> (qerr + unit) \<times> 's" where
  "inspect_Resume exec flt queueName = Resume exec flt queueName"

definition inspect_JobResult :: "'s server \<Rightarrow> fault \<Rightarrow> string \<Rightarrow> 's \<Rightarrow> (qerr + string option) \<times> 's" where
  "inspect_JobResult exec flt jobID = GetResult exec flt jobID"

section \<open>Pausing\<close>

lemma run_Pause:
  "Pause redis_doc NoFault q d = (Inr (), put_ttl d (pausedKey q) (RString ''1'') None)"
  by (simp add: Pause_def go_result_def lcall_def redis_doc.simps)

lemma run_Resume: "Resume redis_doc NoFault q d = (Inr (), del d (pausedKey q))"
  by (simp add: Resume_def go_result_def lcall_def redis_doc.simps)

text \<open>What the operations leave of the pause flag of a queue.\<close>

lemma paused_moves:
  assumes "wf_queue q" "wf_queue q'"
  shows "lookup (leave_active q' w i d) (pausedKey q) = lookup d (pausedKey q)"
    "lookup (write_job i fs d) (pausedKey q) = lookup d (pausedKey q)"
    "lookup (bump_stat q' f d) (pausedKey q) = lookup d (pausedKey q)"
    "lookup (push_dead q' i d) (pausedKey q) = lookup d (pausedKey q)"
    "lookup (put_delayed q' t i d) (pausedKey q) = lookup d (pausedKey q)"
    "unique_ok u \<Longrightarrow> lookup (drop_lock u i d) (pausedKey q) = lookup d (pausedKey q)"
  using assms by (auto simp: move_defs drop_lock_def unique_ok_def key_simps)

lemma settle_frame:
  assumes "refines d m" "holds d q' i" "wf_queue q"
  shows "lookup (snd (Ack redis_doc NoFault now q' i w d)) (pausedKey q) = lookup d (pausedKey q)"
    "lookup (snd (CancelJob redis_doc NoFault now q' i w reason d)) (pausedKey q) = lookup d (pausedKey q)"
    "lookup (snd (Nack redis_doc NoFault now q' i w err backoff skip d)) (pausedKey q) = lookup d (pausedKey q)"
    "lookup (snd (RescheduleJob redis_doc NoFault q' i w t d)) (pausedKey q) = lookup d (pausedKey q)"
proof -
  obtain a e where a: "m i = Some a" "aj_queue a = q'" "aj_loc a = Active e" using holds_active [OF assms(1,2)] by metis
  have wf: "wf_queue q'" "unique_ok (aj_unique a)" using refines_wf [OF assms(1) a(1)] a(2) by auto
  note moves = paused_moves [OF assms(3) wf(1)] wf(2)
  show "lookup (snd (Ack redis_doc NoFault now q' i w d)) (pausedKey q) = lookup d (pausedKey q)"
    by (simp add: held_runs [OF assms(1) a] after_ack_def moves)
  show "lookup (snd (CancelJob redis_doc NoFault now q' i w reason d)) (pausedKey q) = lookup d (pausedKey q)"
    by (simp add: held_runs [OF assms(1) a] after_cancel_def moves)
  show "lookup (snd (Nack redis_doc NoFault now q' i w err backoff skip d)) (pausedKey q) = lookup d (pausedKey q)"
    by (simp add: held_runs [OF assms(1) a] after_nack_def nack_common_def Let_def moves)
  show "lookup (snd (RescheduleJob redis_doc NoFault q' i w t d)) (pausedKey q) = lookup d (pausedKey q)"
    unfolding RescheduleJob_def rescheduleScript_def
    by (rule keeps_lookup, intro keep_intros) (simp_all add: assms(3) wf(1) key_simps)
qed

lemma Enqueue_frame:
  assumes "wf_queue q" "wf_queue (Queue job)"
  shows "lookup (snd (Enqueue redis_doc flt job uk period d)) (pausedKey q) = lookup d (pausedKey q)"
proof -
  have "pausedKey q \<noteq> []" by (simp add: pausedKey_def)
  then show ?thesis
    unfolding Enqueue_def enqueue_call_def enqueueScript_def Let_def split_def
    by - (rule keeps_lookup, intro keep_intros; simp add: assms key_simps)
qed

lemma other_frame:
  assumes "wf_queue q"
  shows "wf_queue q' \<Longrightarrow> lookup (snd (ExtendLease redis_doc flt t q' i ext d)) (pausedKey q) = lookup d (pausedKey q)"
    "wf_queue q' \<Longrightarrow> lookup (snd (RetryDead redis_doc flt q' i d)) (pausedKey q) = lookup d (pausedKey q)"
    "wf_queue q' \<Longrightarrow> lookup (snd (PurgeDead redis_doc flt q' d)) (pausedKey q) = lookup d (pausedKey q)"
    "lookup (snd (Heartbeat redis_doc flt now w d)) (pausedKey q) = lookup d (pausedKey q)"
    "lookup (snd (SetResult redis_doc flt i v ttl d)) (pausedKey q) = lookup d (pausedKey q)"
    "q' \<noteq> q \<Longrightarrow> lookup (snd (Pause redis_doc flt q' d)) (pausedKey q) = lookup d (pausedKey q)"
    "q' \<noteq> q \<Longrightarrow> lookup (snd (Resume redis_doc flt q' d)) (pausedKey q) = lookup d (pausedKey q)"
  unfolding ExtendLease_def extendLeaseScript_def RetryDead_def retryDeadScript_def PurgeDead_def purgeDeadScript_def purge_one_def
    Heartbeat_def SetResult_def Pause_def Resume_def
  by (rule keeps_lookup, intro keep_intros; simp add: assms key_simps)+

lemma DeregisterWorker_frame:
  assumes "wf_queue q"
  shows "lookup (snd (DeregisterWorker redis_doc NoFault w d)) (pausedKey q) = lookup d (pausedKey q)"
  using assms
  by (simp add: DeregisterWorker_def go_result_def pipe_exec_def redis_doc.simps typed_def key_simps split: option.splits)

text \<open>A queue stays paused under every operation that does not resume it.\<close>

lemma qop_keeps_paused:
  assumes "redis_server exec view" "qop exec view x s s'" "timely view (settle_log s x)" "x \<noteq> Unpause q"
    and "refines (view s) m" "persistent (view s)" "wf_queue q" "lookup (view s) (pausedKey q) \<noteq> None"
  shows "lookup (view s') (pausedKey q) \<noteq> None"
proof -
  note sim = redis_server.queue_sim [OF assms(1), THEN sim_snd]
  note frames = settle_frame [OF assms(5) _ assms(7)] paused_frame [OF assms(7)] Enqueue_frame [OF assms(7)] other_frame [OF assms(7)]
    DeregisterWorker_frame [OF assms(7)]
  show ?thesis using assms(2)
  proof (cases rule: qop.cases)
    case (op_tick t)
    then show ?thesis using assms(6-8) by (simp add: lookup_tick)
  next
    case (op_pause q' flt)
    have "lookup (snd (Pause redis_doc NoFault q' (view s))) (pausedKey q) \<noteq> None"
      using frames(14) [of q'] assms(8) by (cases "q' = q") (simp_all add: run_Pause)
    then show ?thesis unfolding op_pause sim using queue_fault(14) [of redis_doc flt q' "view s"] assms(8) by metis
  qed (use assms(3,4,8) in \<open>simp add: sim, metis queue_fault frames fresh_def\<close>)+
qed

text \<open>Runs in which nobody resumes the queue, and jobs are settled while they are active.\<close>

inductive while_paused :: "'s server \<Rightarrow> ('s \<Rightarrow> dataset) \<Rightarrow> string \<Rightarrow> 's \<Rightarrow> 's \<Rightarrow> bool" for exec view q where
  wp_start: "while_paused exec view q s s"
| wp_op: "while_paused exec view q s s1 \<Longrightarrow> qop exec view x s1 s2 \<Longrightarrow> x \<noteq> Unpause q \<Longrightarrow> timely view (settle_log s1 x) \<Longrightarrow>
     while_paused exec view q s s2"

lemma while_paused_inv:
  assumes "redis_server exec view" "wf_queue q" "while_paused exec view q s s'"
    and "\<exists>m. refines (view s) m" "persistent (view s)" "lookup (view s) (pausedKey q) \<noteq> None"
  shows "(\<exists>m. refines (view s') m) \<and> persistent (view s') \<and> lookup (view s') (pausedKey q) \<noteq> None"
  using assms(3-)
proof (induction rule: while_paused.induct)
  case (wp_op s s1 x s2)
  then obtain m where m: "refines (view s1) m" "persistent (view s1)" "lookup (view s1) (pausedKey q) \<noteq> None" by blast
  then have "lookup (view s2) (pausedKey q) \<noteq> None"
    using qop_keeps_paused [OF assms(1) wp_op(2,4,3) _ _ assms(2)] by blast
  then show ?case
    using redis_server.qstep_simulation [OF assms(1) qop_qstep [OF wp_op(2,4)] m(1,2)] by (auto simp: follows_def)
qed blast

text \<open>
  C37: Pausing a queue stops it until it is resumed: after the pause, however much time passes and whatever
  operations run in between on any queue (workers settling jobs that are active, other pauses and resumes included),
  as long as this queue is not resumed every dequeue of it returns no job and changes nothing; and the first dequeue
  after it is resumed returns the most urgent job that is ready then.
\<close>

theorem paused_queue_waits:
  assumes "redis_server exec view" "refines (view s) m" "persistent (view s)" "wf_queue q"
    and "inspect_Pause exec NoFault q s = (r, s1)" "while_paused exec view q s1 s2"
  shows "r = Inr () \<and> fst (Dequeue exec NoFault now q w s2) = Inr None \<and> view (snd (Dequeue exec NoFault now q w s2)) = view s2 \<and>
     (\<exists>m2. refines (view s2) m2 \<and>
        (\<forall>i a. is_next m2 q i \<and> m2 i = Some a \<and> int64_job a \<longrightarrow>
          (\<exists>s3 s4 rec. inspect_Resume exec NoFault q s2 = (Inr (), s3) \<and> Dequeue exec NoFault now q w s3 = (Inr (Some rec), s4) \<and>
             ID rec = i \<and> refines (view s4) (upd i (to_active (now + 30000)) m2))))"
proof -
  have s1: "r = Inr ()" "view s1 = put_ttl (view s) (pausedKey q) (RString ''1'') None"
    using sim_result [OF redis_server.sim_Pause [OF assms(1)] run_Pause] assms(5) unfolding inspect_Pause_def by (metis prod.inject)+
  have "refines (view s1) m" using frame_refines(3) [OF assms(2,4)] by (simp add: run_Pause s1(2))
  moreover have "persistent (view s1)" using assms(3) by (simp add: s1(2))
  ultimately obtain m2 where m2: "refines (view s2) m2" and p: "lookup (view s2) (pausedKey q) \<noteq> None"
    using while_paused_inv [OF assms(1,4,6)] by (auto simp: s1(2))
  have none: "Dequeue redis_doc NoFault now q w (view s2) = (Inr None, view s2)" using run_Dequeue_paused [OF p] .
  have "\<exists>s3 s4 rec. inspect_Resume exec NoFault q s2 = (Inr (), s3) \<and> Dequeue exec NoFault now q w s3 = (Inr (Some rec), s4) \<and>
      ID rec = i \<and> refines (view s4) (upd i (to_active (now + 30000)) m2)"
    if i: "is_next m2 q i" "m2 i = Some a" "int64_job a" for i a
  proof -
    obtain s3 where s3: "Resume exec NoFault q s2 = (Inr (), s3)" "view s3 = del (view s2) (pausedKey q)"
      by (rule sim_result [OF redis_server.sim_Resume [OF assms(1)] run_Resume])
    have "refines (view s3) m2" using frame_refines(4) [OF m2 assms(4)] by (simp add: run_Resume s3(2))
    moreover have "\<not> is_paused view s3 q" by (simp add: is_paused_def s3(2))
    ultimately show ?thesis
      using redis_server.dequeue_contract [OF assms(1) _ assms(4) _ i(1,2), of s3 now w] i(3) s3(1)
      unfolding inspect_Resume_def describes_def by blast
  qed
  then show ?thesis
    using s1(1) m2 none sim_fst [OF redis_server.sim_Dequeue [OF assms(1)]] sim_snd [OF redis_server.sim_Dequeue [OF assms(1)]] by auto
qed

text \<open>An hour later, after a heartbeat, the queue is still paused.\<close>

theorem paused_queue_waits_witness:
  "fst (Dequeue redis_doc NoFault 9000 ''default'' ''w1''
     (tick 3600000 (snd (Heartbeat redis_doc NoFault 2000 ''w1'' (snd (inspect_Pause redis_doc NoFault ''default'' store1)))))) = Inr None"
proof -
  let ?s1 = "snd (inspect_Pause redis_doc NoFault ''default'' store1)"
  let ?s2 = "snd (Heartbeat redis_doc NoFault 2000 ''w1'' ?s1)"
  have "clock ?s2 = 1000"
    by (simp add: inspect_Pause_def run_Pause Heartbeat_def go_result_def lcall_def redis_doc.simps typed_def put_ttl_def
        split: prod.splits)
  then have "qop redis_doc id OtherOp ?s2 (tick 3600000 ?s2)" by (intro qop.op_tick) simp_all
  moreover have "qop redis_doc id OtherOp ?s1 ?s2" by (rule qop.op_heartbeat)
  ultimately have run: "while_paused redis_doc id ''default'' ?s1 (tick 3600000 ?s2)"
    using while_paused.wp_op [OF while_paused.wp_op [OF while_paused.wp_start]] by (metis qlabel.distinct(5) settle_log.simps(3) timely_simps(1))
  have "persistent (id store1)" using persistent_store1 by simp
  moreover have "refines (id store1) [''j1'' \<mapsto> mail_ajob]" using refines_store1 by simp
  moreover have "inspect_Pause redis_doc NoFault ''default'' store1 = (fst (inspect_Pause redis_doc NoFault ''default'' store1), ?s1)" by simp
  ultimately show ?thesis
    using paused_queue_waits [OF logical.redis_server_axioms _ _ _ _ run, of store1 "[''j1'' \<mapsto> mail_ajob]"
        "fst (inspect_Pause redis_doc NoFault ''default'' store1)" 9000 "''w1''"] by (meson sample_names(1))
qed

end
