(* ===== verification/Grpc.thy ===== *)
theory Grpc
  imports Inspector Client
begin

text \<open>
  \<^verbatim>\<open>internal/server/grpc.go\<close> and \<^verbatim>\<open>interceptors.go\<close>: the gRPC service. The messages are the
  records of the protobuf file, with its 32 and 64 bit integers as words. A handler returns a status
  or its response; \<open>Internal what e\<close> is the status with the text \<open>what: e\<close>.
\<close>

section \<open>Messages\<close>

datatype status = InvalidArgument string | AlreadyExists string | NotFound string | Canceled string | Internal string qerr | PanicStatus string

record EnqueueRequest =
  er_kind :: string
  er_payload :: string
  er_queue :: string
  er_priority :: "32 word"
  er_scheduledAt :: "64 word"
  er_maxRetries :: "32 word"
  er_uniquePeriodMs :: "64 word"

record pbJob =
  pb_id :: string
  pb_kind :: string
  pb_payload :: string
  pb_queue :: string
  pb_priority :: "32 word"
  pb_state :: string
  pb_attempt :: "32 word"
  pb_maxRetries :: "32 word"
  pb_createdAt :: "64 word"
  pb_scheduledAt :: "64 word"
  pb_startedAt :: "64 word"
  pb_completedAt :: "64 word"
  pb_lastError :: string

record QueueStatsResponse =
  qs_queue :: string
  qs_ready :: int
  qs_active :: int
  qs_delayed :: int
  qs_dead :: int
  qs_completed :: int
  qs_failed :: int

definition recordToProto :: "JobRecord \<Rightarrow> pbJob" where
  "recordToProto rec =
     \<lparr>pb_id = ID rec, pb_kind = Kind rec, pb_payload = Payload rec, pb_queue = Queue rec,
      pb_priority = word_of_int (Priority rec), pb_state = State rec, pb_attempt = word_of_int (Attempt rec),
      pb_maxRetries = word_of_int (MaxRetries rec), pb_createdAt = word_of_int (CreatedAt rec),
      pb_scheduledAt = word_of_int (ScheduledAt rec), pb_startedAt = word_of_int (StartedAt rec),
      pb_completedAt = word_of_int (CompletedAt rec), pb_lastError = LastError rec\<rparr>"

section \<open>Handlers\<close>

definition grpc_job :: "string \<Rightarrow> int \<Rightarrow> EnqueueRequest \<Rightarrow> JobRecord" where
  "grpc_job uuid nowMs req =
     \<lparr>ID = uuid, Kind = er_kind req, Queue = (if er_queue req = '''' then ''default'' else er_queue req),
      Priority = sint (er_priority req), State = ''pending'', Payload = er_payload req, Attempt = 0,
      MaxRetries = (if sint (er_maxRetries req) = 0 then 3 else sint (er_maxRetries req)), CreatedAt = nowMs,
      ScheduledAt = sint (er_scheduledAt req), StartedAt = 0, CompletedAt = 0, LastError = '''', UniqueKey = '''', WorkflowID = ''''\<rparr>"

definition grpc_Enqueue :: "'s server \<Rightarrow> (string \<Rightarrow> string) \<Rightarrow> fault \<Rightarrow> string \<Rightarrow> int \<Rightarrow> EnqueueRequest \<Rightarrow> 's \<Rightarrow> (status + string) \<times> 's" where
  "grpc_Enqueue exec sha flt uuid nowMs req s =
     (if er_kind req = '''' then (Inl (InvalidArgument ''kind is required''), s)
      else
        (let unique = 0 < sint (er_uniquePeriodMs req);
             uniquePeriod = (if unique then sint (er_uniquePeriodMs req * ns 1000000) else 0);
             uniqueKey = (if unique then unique_name sha (er_kind req) (er_payload req) else '''')
         in case Enqueue exec flt (grpc_job uuid nowMs req) uniqueKey uniquePeriod s of
              (Inl e, s') \<Rightarrow> (Inl (if e = ErrDuplicate then AlreadyExists ''duplicate job'' else Internal ''enqueue'' e), s')
            | (Inr _, s') \<Rightarrow> (Inr uuid, s')))"

text \<open>
  The polling loop of \<open>Dequeue\<close>, with the time at which it answers. A round has the fault of its dequeue and the time that
  call takes, the random number of its sleep (\<open>rand.IntN(200)\<close>), how much later than asked for the timer wakes it,
  whether and how soon the context ends during the sleep, and what the rest of the system does until the next round; times
  are nanoseconds. \<open>None\<close>: more rounds than given.
\<close>

record 's round =
  rd_fault :: fault
  rd_call :: nat
  rd_rand :: nat
  rd_late :: nat
  rd_cancelled :: "nat option"
  rd_env :: "'s \<Rightarrow> 's"

fun dequeue_loop :: "'s server \<Rightarrow> string \<Rightarrow> string \<Rightarrow> int \<Rightarrow> 's round list \<Rightarrow> int \<Rightarrow> 's \<Rightarrow> ((status + pbJob option) \<times> int \<times> 's) option" where
  "dequeue_loop exec queue workerID deadline [] t s = None"
| "dequeue_loop exec queue workerID deadline (r # rs) t s =
     (let t1 = t + int (rd_call r) in
      case Dequeue exec (rd_fault r) (unixMilli t) queue workerID s of
        (Inl e, s1) \<Rightarrow> Some (Inl (Internal ''dequeue'' e), t1, s1)
      | (Inr (Some rec), s1) \<Rightarrow> Some (Inr (Some (recordToProto rec)), t1, s1)
      | (Inr None, s1) \<Rightarrow>
          if deadline < t1 then Some (Inr None, t1, s1)
          else (let jitter = 100 + int (rd_rand r); t2 = t1 + jitter * 1000000 + int (rd_late r) in
            case rd_cancelled r of
              Some n \<Rightarrow> Some (Inl (Canceled ''context cancelled''), min (t1 + int n) t2, s1)
            | None \<Rightarrow> dequeue_loop exec queue workerID deadline rs t2 (rd_env r s1)))"

definition poll_timeout :: "64 word \<Rightarrow> int" where
  "poll_timeout timeoutMs =
     (let timeout = sint (timeoutMs * ns 1000000) in if timeout \<le> 0 then 30 * 1000000000 else timeout)"

definition grpc_Dequeue :: "'s server \<Rightarrow> int \<Rightarrow> string \<Rightarrow> string \<Rightarrow> 64 word \<Rightarrow> 's round list \<Rightarrow> 's \<Rightarrow>
    ((status + pbJob option) \<times> int \<times> 's) option" where
  "grpc_Dequeue exec start queue workerID timeoutMs rounds s =
     (if queue = '''' then Some (Inl (InvalidArgument ''queue is required''), start, s)
      else if workerID = '''' then Some (Inl (InvalidArgument ''worker_id is required''), start, s)
      else dequeue_loop exec queue workerID (start + poll_timeout timeoutMs) rounds start s)"

definition ids_required :: status where
  "ids_required = InvalidArgument ''job_id, queue, and worker_id are required''"

definition grpc_Ack :: "'s server \<Rightarrow> fault \<Rightarrow> int \<Rightarrow> string \<Rightarrow> string \<Rightarrow> string \<Rightarrow> 's \<Rightarrow> (status + unit) \<times> 's" where
  "grpc_Ack exec flt nowMs queue jobID workerID s =
     (if jobID = '''' \<or> queue = '''' \<or> workerID = '''' then (Inl ids_required, s)
      else case Ack exec flt nowMs queue jobID workerID s of
             (Inl e, s') \<Rightarrow> (Inl (Internal ''ack'' e), s') | (Inr _, s') \<Rightarrow> (Inr (), s'))"

definition grpc_Nack :: "'s server \<Rightarrow> fault \<Rightarrow> int \<Rightarrow> string \<Rightarrow> string \<Rightarrow> string \<Rightarrow> string \<Rightarrow> bool \<Rightarrow> 's \<Rightarrow> (status + string) \<times> 's" where
  "grpc_Nack exec flt nowMs queue jobID workerID err skipRetry s =
     (if jobID = '''' \<or> queue = '''' \<or> workerID = '''' then (Inl ids_required, s)
      else case Nack exec flt nowMs queue jobID workerID err 1000 skipRetry s of
             (Inl e, s') \<Rightarrow> (Inl (Internal ''nack'' e), s') | (Inr result, s') \<Rightarrow> (Inr result, s'))"

definition grpc_Heartbeat :: "'s server \<Rightarrow> fault \<Rightarrow> int \<Rightarrow> string \<Rightarrow> 's \<Rightarrow> (status + unit) \<times> 's" where
  "grpc_Heartbeat exec flt nowMs workerID s =
     (if workerID = '''' then (Inl (InvalidArgument ''worker_id is required''), s)
      else case Heartbeat exec flt nowMs workerID s of
             (Inl e, s') \<Rightarrow> (Inl (Internal ''heartbeat'' e), s') | (Inr _, s') \<Rightarrow> (Inr (), s'))"

definition grpc_GetJob :: "'s server \<Rightarrow> fault \<Rightarrow> string \<Rightarrow> 's \<Rightarrow> (status + pbJob) \<times> 's" where
  "grpc_GetJob exec flt jobID s =
     (if jobID = '''' then (Inl (InvalidArgument ''job_id is required''), s)
      else case GetJob exec flt jobID s of
             (Inl e, s') \<Rightarrow> (Inl (Internal ''get job'' e), s')
           | (Inr None, s') \<Rightarrow> (Inl (NotFound ''job not found''), s')
           | (Inr (Some rec), s') \<Rightarrow> (Inr (recordToProto rec), s'))"

definition grpc_QueueStats :: "'s server \<Rightarrow> fault \<Rightarrow> string \<Rightarrow> 's \<Rightarrow> (status + QueueStatsResponse) \<times> 's" where
  "grpc_QueueStats exec flt queue s =
     (if queue = '''' then (Inl (InvalidArgument ''queue is required''), s)
      else case QueueStats exec flt queue s of
             (Inl e, s') \<Rightarrow> (Inl (Internal ''queue stats'' e), s')
           | (Inr stats, s') \<Rightarrow>
               (Inr \<lparr>qs_queue = queue, qs_ready = stat_or_0 stats ''ready'', qs_active = stat_or_0 stats ''active'',
                  qs_delayed = stat_or_0 stats ''delayed'', qs_dead = stat_or_0 stats ''dead'',
                  qs_completed = stat_or_0 stats ''completed'', qs_failed = stat_or_0 stats ''failed''\<rparr>, s'))"

section \<open>Interceptors\<close>

datatype 'a rpc = RpcReturn "status + 'a" | RpcPanic string

datatype grpc_log = GrpcInfo string | GrpcWarn string status | GrpcError string status

text \<open>\<open>status.Code\<close> is \<open>Internal\<close>.\<close>

definition is_internal :: "status \<Rightarrow> bool" where
  "is_internal st = (case st of Internal _ _ \<Rightarrow> True | PanicStatus _ \<Rightarrow> True | _ \<Rightarrow> False)"

definition RecoveryInterceptor :: "('req \<Rightarrow> 's \<Rightarrow> 'a rpc \<times> 's) \<Rightarrow> 'req \<Rightarrow> 's \<Rightarrow> 'a rpc \<times> 's" where
  "RecoveryInterceptor handler req s =
     (case handler req s of
        (RpcPanic r, s') \<Rightarrow> (RpcReturn (Inl (PanicStatus (''panic: '' @ r))), s')
      | (RpcReturn x, s') \<Rightarrow> (RpcReturn x, s'))"

text \<open>The log is a part of the state that the logging interceptor adds to.\<close>

definition LoggingInterceptor :: "string \<Rightarrow> ('req \<Rightarrow> 's \<Rightarrow> 'a rpc \<times> 's) \<Rightarrow> 'req \<Rightarrow> 's \<times> grpc_log list \<Rightarrow> 'a rpc \<times> ('s \<times> grpc_log list)" where
  "LoggingInterceptor methodName handler req = (\<lambda>(s, logs).
     case handler req s of
       (RpcPanic r, s') \<Rightarrow> (RpcPanic r, (s', logs))
     | (RpcReturn (Inl st), s') \<Rightarrow>
         (RpcReturn (Inl st), (s', logs @ [if is_internal st then GrpcError methodName st else GrpcWarn methodName st]))
     | (RpcReturn (Inr x), s') \<Rightarrow> (RpcReturn (Inr x), (s', logs @ [GrpcInfo methodName])))"


section \<open>Long polling ends\<close>

text \<open>Every round takes at least 100 ms, so enough rounds reach past the deadline.\<close>

lemma dequeue_loop_returns:
  "deadline - t < int (length rs) * 100000000 - 100000000 \<Longrightarrow> rs \<noteq> [] \<Longrightarrow> \<exists>x. dequeue_loop exec queue w deadline rs t s = Some x"
proof (induction rs arbitrary: t s)
  case (Cons r rs)
  let ?t = "t + int (rd_call r) + (100 + int (rd_rand r)) * 1000000 + int (rd_late r)"
  have "\<exists>x. dequeue_loop exec queue w deadline rs ?t s' = Some x" if "\<not> deadline < t + int (rd_call r)" for s'
  proof (rule Cons.IH)
    show "deadline - ?t < int (length rs) * 100000000 - 100000000" using Cons.prems(1) by simp
    show "rs \<noteq> []" using Cons.prems(1) that by auto
  qed
  then show ?case by (auto simp: Let_def split: prod.splits sum.splits option.splits)
qed simp

lemma dequeue_loop_empty: "dequeue_loop exec queue w deadline rs t s = Some (Inr None, t', s') \<Longrightarrow> deadline < t'"
  by (induction rs arbitrary: t s) (auto simp: Let_def split: prod.splits sum.splits option.splits if_splits)

definition prompt :: "nat \<Rightarrow> nat \<Rightarrow> 's round \<Rightarrow> bool" where
  "prompt c l r \<longleftrightarrow> rd_rand r < 200 \<and> rd_call r \<le> c \<and> rd_late r \<le> l"

lemma dequeue_loop_time:
  assumes "\<forall>r\<in>set rs. prompt c l r" "dequeue_loop exec queue w deadline rs t s = Some (x, t', s')"
    and "t \<le> deadline + 299000000 + int l"
  shows "t' \<le> deadline + 299000000 + int l + int c"
  using assms
proof (induction rs arbitrary: t s)
  case (Cons r rs)
  have r: "prompt c l r" "\<forall>r\<in>set rs. prompt c l r" using Cons.prems(1) by simp_all
  let ?t1 = "t + int (rd_call r)" and ?t2 = "t + int (rd_call r) + (100 + int (rd_rand r)) * 1000000 + int (rd_late r)"
  have t1: "?t1 \<le> deadline + 299000000 + int l + int c" using Cons.prems(3) r(1) by (simp add: prompt_def)
  have t2: "?t2 \<le> deadline + 299000000 + int l" if "\<not> deadline < ?t1" using that r(1) by (simp add: prompt_def)
  show ?case
    using Cons.prems(2) t1 t2 Cons.IH [OF r(2) _ t2] by (auto simp: Let_def split: prod.splits sum.splits option.splits if_splits)
qed simp

text \<open>
  C34: Long polling ends and keeps its deadline: as every round of the loop sleeps at least 100 ms, Dequeue answers after
  at most three rounds more than its timeout has tenths of a second, whatever the queue, the faults and the
  other workers do; it answers with no job only after the deadline; and every answer comes at the latest 299 ms after the
  deadline, apart from the time the calls and the timer are late.
\<close>

theorem grpc_Dequeue_returns:
  assumes "poll_timeout timeoutMs div 100000000 + 3 \<le> int (length rounds)"
    and "\<forall>r\<in>set rounds. rd_rand r < 200 \<and> rd_call r \<le> c \<and> rd_late r \<le> l"
  shows "\<exists>r t s'. grpc_Dequeue exec start queue w timeoutMs rounds s = Some (r, t, s') \<and>
     (r = Inr None \<longrightarrow> start + poll_timeout timeoutMs < t) \<and>
     t \<le> start + poll_timeout timeoutMs + 299000000 + int l + int c"
proof -
  let ?d = "start + poll_timeout timeoutMs"
  have pos: "0 \<le> poll_timeout timeoutMs" by (simp add: poll_timeout_def Let_def)
  have "poll_timeout timeoutMs < (poll_timeout timeoutMs div 100000000 + 1) * 100000000" by (simp add: algebra_simps)
  then have "?d - start < int (length rounds) * 100000000 - 100000000" "rounds \<noteq> []" using assms(1) pos by auto
  then obtain r t s' where x: "dequeue_loop exec queue w ?d rounds start s = Some (r, t, s')"
    using dequeue_loop_returns [of ?d start rounds exec queue w s] by (metis prod_cases3)
  have "r = Inr None \<longrightarrow> ?d < t" using dequeue_loop_empty [of exec queue w ?d rounds start s t s'] x by auto
  moreover have "t \<le> ?d + 299000000 + int l + int c"
    using dequeue_loop_time [OF _ x, of c l] assms(2) pos by (simp add: prompt_def)
  ultimately show ?thesis using x pos by (auto simp: grpc_Dequeue_def)
qed

definition idle_round :: "dataset round" where
  "idle_round = \<lparr>rd_fault = NoFault, rd_call = 1000000, rd_rand = 50, rd_late = 0, rd_cancelled = None, rd_env = id\<rparr>"

theorem grpc_Dequeue_returns_witness:
  "\<exists>r t s'. grpc_Dequeue redis_doc 0 ''default'' ''w1'' 200 (replicate 5 idle_round) store0 = Some (r, t, s') \<and>
     (r = Inr None \<longrightarrow> 200000000 < t) \<and> t \<le> 500000000"
proof -
  have "poll_timeout 200 = 200000000" by (simp add: poll_timeout_def ns_def)
  then show ?thesis
    using grpc_Dequeue_returns [of 200 "replicate 5 idle_round" 1000000 0 redis_doc 0 "''default''" "''w1''" store0]
    by (simp add: idle_round_def)
qed

section \<open>Through the wire and back\<close>

text \<open>
  C33: A job enqueued over gRPC, with a schedule that a Lua number holds exactly (up to \<open>2 ^ 53\<close> milliseconds) and no
  unique period or the lock of its key free, reads back over gRPC as it was sent: kind, payload, queue
  (default when empty), priority, schedule and retry limit (3 when 0), in the widths of the protobuf messages, with
  no attempt and no error.
\<close>

theorem grpc_Enqueue_GetJob_roundtrip:
  assumes "redis_server exec view" "refines (view s) m" "fresh (view s) (grpc_job uuid nowMs req)" "int64 nowMs"
    and "er_kind req \<noteq> ''''" "uuid \<noteq> ''''" "\<bar>sint (er_scheduledAt req)\<bar> \<le> 2 ^ 53"
    and "sint (er_uniquePeriodMs req) \<le> 0 \<or> lookup (view s) (uniqueKey (unique_name sha (er_kind req) (er_payload req))) = None"
  shows "\<exists>s'. grpc_Enqueue exec sha NoFault uuid nowMs req s = (Inr uuid, s') \<and>
     fst (grpc_GetJob exec NoFault uuid s') = Inr
       \<lparr>pb_id = uuid, pb_kind = er_kind req, pb_payload = er_payload req,
        pb_queue = (if er_queue req = '''' then ''default'' else er_queue req), pb_priority = er_priority req, pb_state = ''pending'',
        pb_attempt = 0, pb_maxRetries = (if er_maxRetries req = 0 then 3 else er_maxRetries req), pb_createdAt = word_of_int nowMs,
        pb_scheduledAt = er_scheduledAt req, pb_startedAt = 0, pb_completedAt = 0, pb_lastError = ''''\<rparr>"
proof -
  let ?job = "grpc_job uuid nowMs req"
  let ?uk = "if 0 < sint (er_uniquePeriodMs req) then unique_name sha (er_kind req) (er_payload req) else ''''"
    and ?per = "if 0 < sint (er_uniquePeriodMs req) then sint (er_uniquePeriodMs req * ns 1000000) else 0"
  have "takes_lock ?uk ?per \<Longrightarrow> lookup (view s) (uniqueKey ?uk) = None" using assms(8) by (auto simp: takes_lock_def)
  then obtain d' where "Enqueue redis_doc NoFault ?job ?uk ?per (view s) = (Inr (), d')"
    using Enqueue_refines [OF assms(2), of ?job ?uk ?per] assms(3) fresh_None [OF assms(2,3)] by (auto simp: fresh_def)
  then obtain s' where s': "Enqueue exec NoFault ?job ?uk ?per s = (Inr (), s')"
    by (rule sim_result [OF redis_server.sim_Enqueue [OF assms(1)]])
  have rng: "int64 (sint x)" for x :: "64 word"
    using sint_range_size [of x] by (simp add: int64_def min_int64_def max_int64_def wsst_TYs(3))
  have rng32: "int64 (sint x)" for x :: "32 word"
    using sint_range_size [of x] by (simp add: int64_def min_int64_def max_int64_def wsst_TYs(3))
  have "list_all int64 [Priority ?job, MaxRetries ?job, CreatedAt ?job, ScheduledAt ?job]"
    using rng rng32 assms(4) by (simp add: grpc_job_def) (simp add: int64_def min_int64_def max_int64_def)
  from GetJob_after_Enqueue [OF assms(1-3) this s']
  obtain s2 u where "GetJob exec NoFault uuid s' = (Inr (Some (?job\<lparr>Attempt := 0, StartedAt := 0, CompletedAt := 0, LastError := '''', UniqueKey := u\<rparr>)), s2)"
    by (cases "GetJob exec NoFault uuid s'") (auto simp: grpc_job_def)
  moreover have "sint (er_maxRetries req) = 0 \<longleftrightarrow> er_maxRetries req = 0" by (rule signed_eq_0_iff)
  ultimately show ?thesis
    using s' assms(5,6) by (simp add: grpc_Enqueue_def grpc_GetJob_def recordToProto_def grpc_job_def Let_def)
qed

definition mail_request :: EnqueueRequest where
  "mail_request = \<lparr>er_kind = ''mail'', er_payload = ''to:ada'', er_queue = '''', er_priority = 7, er_scheduledAt = 0,
     er_maxRetries = 0, er_uniquePeriodMs = 0\<rparr>"

theorem grpc_Enqueue_GetJob_roundtrip_witness:
  "\<exists>s' job. grpc_Enqueue redis_doc id NoFault ''j1'' 1000 mail_request store0 = (Inr ''j1'', s') \<and>
     fst (grpc_GetJob redis_doc NoFault ''j1'' s') = Inr job \<and> pb_priority job = 7 \<and> pb_queue job = ''default'' \<and> pb_maxRetries job = 3"
proof -
  have "fresh (id store0) (grpc_job ''j1'' 1000 mail_request)" by (simp add: fresh_def grpc_job_def mail_request_def)
  moreover have "int64 1000" by (simp add: int64_def min_int64_def max_int64_def)
  moreover have "refines (id store0) Map.empty" using refines_store0 by simp
  ultimately show ?thesis
    using grpc_Enqueue_GetJob_roundtrip [OF logical.redis_server_axioms, of store0 Map.empty "''j1''" 1000 mail_request id]
    by (auto simp: mail_request_def)
qed

end
