(* ===== verification/Grpc_Workers.thy ===== *)
theory Grpc_Workers
  imports Grpc Server_Workflow Server_Loops
begin

text \<open>
  Workers that use the gRPC service, with the recovery of the gRPC server process and with workflows:
  no call of the service extends a lease or advances a workflow.
\<close>

text \<open>Any heartbeats of any workers, with any faults.\<close>

fun grpc_heartbeats :: "'s server \<Rightarrow> (fault \<times> int \<times> string) list \<Rightarrow> 's \<Rightarrow> 's" where
  "grpc_heartbeats exec [] s = s"
| "grpc_heartbeats exec ((flt, nowMs, w) # beats) s = grpc_heartbeats exec beats (snd (grpc_Heartbeat exec flt nowMs w s))"

lemma snd_grpc_Heartbeat:
  "snd (grpc_Heartbeat exec flt nowMs w s) = (if w = '''' then s else snd (Heartbeat exec flt nowMs w s))"
  by (simp add: grpc_Heartbeat_def split: prod.split sum.split)

context redis_server
begin

lemma Heartbeat_keeps_queue: "refines (view s) m \<Longrightarrow> refines (view (snd (Heartbeat exec flt nowMs w s))) m"
  using frame_refines(1) queue_fault sim_snd [OF sim_Heartbeat] by (metis snd_conv)

lemma heartbeats_keep_queue: "refines (view s) m \<Longrightarrow> refines (view (grpc_heartbeats exec beats s)) m"
  by (induction beats arbitrary: s rule: list.induct) (auto simp: snd_grpc_Heartbeat Heartbeat_keeps_queue)

end

text \<open>
  A heartbeat over gRPC does not extend a lease: a job whose lease has ended is taken back by the next
  sweep, whatever heartbeats its worker has sent meanwhile, and is handed out again.
\<close>

lemma grpc_heartbeats_do_not_extend:
  assumes "redis_server exec view" "refines (view s) m" "\<And>q. q \<in> set (rc_queues cfg) \<Longrightarrow> wf_queue q"
    and "m i = Some a" "aj_loc a = Active t" "t \<le> now" "aj_queue a \<in> set (rc_queues cfg)" "few_expired m (aj_queue a) now (rc_limit cfg)"
  shows "\<exists>m'. refines (view (snd (sweep exec (\<lambda>_. NoFault) cancelled now cfg (grpc_heartbeats exec beats s)))) m' \<and> m' i = Some (to_ready a)"
proof -
  have "refines (view (grpc_heartbeats exec beats s)) m" by (rule redis_server.heartbeats_keep_queue [OF assms(1,2)])
  from redis_server.sweep_swept [OF assms(1) this assms(3)] obtain m' where
    "refines (view (snd (sweep exec (\<lambda>_. NoFault) cancelled now cfg (grpc_heartbeats exec beats s)))) m'"
    "swept_all now (rc_limit cfg) (rc_queues cfg) m m'" by blast
  then show ?thesis using swept_allD(3) assms(4-8) by blast
qed

text \<open>
  A job of a workflow that is finished over gRPC is completed in the queue, but its workflow does not
  move: record, counter and open headers stay as they were, and no task is enqueued.
\<close>

lemma grpc_Ack_strands_workflow:
  assumes "redis_server exec view" "refines (view s) m" "m i = Some a" "at_loc m q i is_active" "i \<noteq> ''''" "q \<noteq> ''''" "w \<noteq> ''''"
  shows "\<exists>s'. grpc_Ack exec NoFault nowMs q i w s = (Inr (), s') \<and> refines (view s') (upd i to_completed m) \<and> workflows_kept (view s) (view s')"
proof -
  obtain t where a: "aj_queue a = q" "aj_loc a = Active t" using assms(3,4) by (auto simp: at_loc_def)
  obtain d' where "Ack redis_doc NoFault nowMs q i w (view s) = (Inr (), d')" "refines d' (upd i to_completed m)"
    using Ack_refines [OF assms(2,3) a] by blast
  moreover from this have "workflows_kept (view s) d'" using Ack_keeps_workflows [OF assms(2-4), of nowMs w] by simp
  moreover obtain s' where "Ack exec NoFault nowMs q i w s = (Inr (), s')" "view s' = d'"
    using sim_result [OF redis_server.sim_Ack [OF assms(1)] calculation(1)] by metis
  ultimately show ?thesis using assms(5-7) by (auto simp: grpc_Ack_def)
qed

end
