(* ===== verification/Config.thy ===== *)
theory Config
  imports Queue Go_Time
begin

text \<open>
  \<^verbatim>\<open>internal/config/config.go\<close>: loading the YAML configuration. The parser \<open>yaml\<close> is a third-party
  package and an argument; so are reading the file (its contents or the error) and the format \<open>%q\<close>
  (\<open>quote\<close>). The queues are the entries of a map, in the order the loop meets them.
\<close>

record QueueConfig =
  qc_maxRetries :: int
  qc_backoff :: string
  qc_backoffBase :: string
  qc_priorityDefault :: int

record CronConfig =
  cc_name :: string
  cc_schedule :: string
  cc_queue :: string
  cc_kind :: string
  cc_payload :: string

record Config =
  cf_redisAddr :: string
  cf_redisPassword :: string
  cf_redisDB :: int
  cf_grpcPort :: string
  cf_logLevel :: string
  cf_queues :: "(string \<times> QueueConfig) list"
  cf_heartbeatInterval :: string
  cf_staleThreshold :: string
  cf_recoveryInterval :: string
  cf_concurrency :: int
  cf_pollInterval :: string
  cf_cron :: "CronConfig list"

definition or_default :: "string \<Rightarrow> string \<Rightarrow> string" where
  "or_default s d = (if s = '''' then d else s)"

definition applyDefaults :: "Config \<Rightarrow> Config" where
  "applyDefaults cfg =
     cfg\<lparr>cf_redisAddr := or_default (cf_redisAddr cfg) ''localhost:6379'',
         cf_grpcPort := or_default (cf_grpcPort cfg) ''50051'',
         cf_logLevel := or_default (cf_logLevel cfg) ''info'',
         cf_concurrency := (if cf_concurrency cfg \<le> 0 then 10 else cf_concurrency cfg),
         cf_heartbeatInterval := or_default (cf_heartbeatInterval cfg) ''15s'',
         cf_staleThreshold := or_default (cf_staleThreshold cfg) ''60s'',
         cf_recoveryInterval := or_default (cf_recoveryInterval cfg) ''30s'',
         cf_pollInterval := or_default (cf_pollInterval cfg) ''500ms''\<rparr>"

definition check_duration :: "(string \<Rightarrow> string) \<Rightarrow> string \<Rightarrow> string \<Rightarrow> qerr option" where
  "check_duration quote what s =
     (case time_ParseDuration s of Inl e \<Rightarrow> Some (Wrapped (''winter: invalid '' @ what @ '' '' @ quote s) e) | Inr _ \<Rightarrow> None)"

fun check_queues :: "(string \<Rightarrow> string) \<Rightarrow> (string \<times> QueueConfig) list \<Rightarrow> qerr option" where
  "check_queues quote [] = None"
| "check_queues quote ((name, qcfg) # qs) =
     (if qc_backoffBase qcfg \<noteq> ''''
      then (case time_ParseDuration (qc_backoffBase qcfg) of
              Inl e \<Rightarrow> Some (Wrapped (''winter: invalid backoff_base for queue '' @ quote name) e)
            | Inr _ \<Rightarrow> check_queues quote qs)
      else check_queues quote qs)"

fun check_cron :: "(string \<Rightarrow> string) \<Rightarrow> CronConfig list \<Rightarrow> qerr option" where
  "check_cron quote [] = None"
| "check_cron quote (c # cs) =
     (if cc_name c = '''' then Some (Plain ''winter: cron entry missing name'')
      else if cc_schedule c = '''' then Some (Plain (''winter: cron entry '' @ quote (cc_name c) @ '' missing schedule''))
      else if cc_kind c = '''' then Some (Plain (''winter: cron entry '' @ quote (cc_name c) @ '' missing kind''))
      else check_cron quote cs)"

text \<open>The first check that fails.\<close>

fun first_error :: "qerr option list \<Rightarrow> qerr option" where
  "first_error [] = None"
| "first_error (None # es) = first_error es"
| "first_error (Some e # es) = Some e"

definition validate :: "(string \<Rightarrow> string) \<Rightarrow> Config \<Rightarrow> qerr option" where
  "validate quote cfg =
     first_error
       [check_duration quote ''heartbeat_interval'' (cf_heartbeatInterval cfg),
        check_duration quote ''stale_threshold'' (cf_staleThreshold cfg),
        check_duration quote ''recovery_interval'' (cf_recoveryInterval cfg),
        check_duration quote ''poll_interval'' (cf_pollInterval cfg),
        check_queues quote (cf_queues cfg),
        check_cron quote (cf_cron cfg)]"

definition Load :: "(string \<Rightarrow> string) \<Rightarrow> (string \<Rightarrow> string + Config) \<Rightarrow> string + string \<Rightarrow> qerr + Config" where
  "Load quote yaml file =
     (case file of
        Inl e \<Rightarrow> Inl (Wrapped ''winter: read config'' e)
      | Inr data \<Rightarrow>
          (case yaml data of
             Inl e \<Rightarrow> Inl (Wrapped ''winter: parse config'' e)
           | Inr cfg0 \<Rightarrow>
               (let cfg = applyDefaults cfg0
                in case validate quote cfg of Some e \<Rightarrow> Inl e | None \<Rightarrow> Inr cfg)))"

definition ParseDuration :: "string \<Rightarrow> int \<Rightarrow> int" where
  "ParseDuration s fallback =
     (if s = '''' then fallback else case time_ParseDuration s of Inl _ \<Rightarrow> fallback | Inr d \<Rightarrow> d)"

section \<open>A loaded configuration can be used\<close>

lemma check_queues_None:
  "check_queues quote qs = None \<longleftrightarrow> (\<forall>(name, qcfg)\<in>set qs. qc_backoffBase qcfg \<noteq> '''' \<longrightarrow> (\<exists>d. time_ParseDuration (qc_backoffBase qcfg) = Inr d))"
  by (induction quote qs rule: check_queues.induct) (auto split: sum.splits)

lemma check_cron_None:
  "check_cron quote cs = None \<longleftrightarrow> (\<forall>c\<in>set cs. cc_name c \<noteq> '''' \<and> cc_schedule c \<noteq> '''' \<and> cc_kind c \<noteq> '''')"
  by (induction quote cs rule: check_cron.induct) auto

lemma check_duration_None: "check_duration quote what s = None \<longleftrightarrow> (\<exists>d. time_ParseDuration s = Inr d)"
  by (auto simp: check_duration_def split: sum.splits)

lemma first_error_None: "first_error es = None \<longleftrightarrow> (\<forall>e\<in>set es. e = None)"
  by (induction es rule: first_error.induct) auto

lemma validate_None:
  "validate quote cfg = None \<longleftrightarrow>
     (\<forall>s\<in>{cf_heartbeatInterval cfg, cf_staleThreshold cfg, cf_recoveryInterval cfg, cf_pollInterval cfg}. \<exists>d. time_ParseDuration s = Inr d) \<and>
     (\<forall>(name, qcfg)\<in>set (cf_queues cfg). qc_backoffBase qcfg \<noteq> '''' \<longrightarrow> (\<exists>d. time_ParseDuration (qc_backoffBase qcfg) = Inr d)) \<and>
     (\<forall>c\<in>set (cf_cron cfg). cc_name c \<noteq> '''' \<and> cc_schedule c \<noteq> '''' \<and> cc_kind c \<noteq> '''')"
  by (simp add: validate_def first_error_None check_duration_None check_queues_None check_cron_None)

text \<open>
  C35: A configuration that loads can be used: its four intervals are durations of 64 bits, so that reading
  them later never needs the fallback, and 15 s, 60 s, 30 s and 500 ms where the file gives none; every
  backoff base given is a duration, every cron entry has a name, a schedule and a kind, the
  concurrency is positive and no address, port or level is empty; settings that the file gives are kept.
\<close>

theorem loaded_config_is_usable:
  assumes "Load quote yaml (Inr data) = Inr cfg"
  shows "\<exists>cfg0. yaml data = Inr cfg0 \<and> cfg = applyDefaults cfg0 \<and> 0 < cf_concurrency cfg \<and>
     '''' \<notin> {cf_redisAddr cfg, cf_grpcPort cfg, cf_logLevel cfg} \<and>
     (\<forall>(given, s, d)\<in>{(cf_heartbeatInterval cfg0, cf_heartbeatInterval cfg, 15 * 1000000000), (cf_staleThreshold cfg0, cf_staleThreshold cfg, 60 * 1000000000),
          (cf_recoveryInterval cfg0, cf_recoveryInterval cfg, 30 * 1000000000), (cf_pollInterval cfg0, cf_pollInterval cfg, 500 * 1000000)}.
        \<exists>x. int64 x \<and> (\<forall>fallback. ParseDuration s fallback = x) \<and>
          (if given = '''' then x = d else time_ParseDuration given = Inr x)) \<and>
     (\<forall>(name, qcfg)\<in>set (cf_queues cfg). qc_backoffBase qcfg \<noteq> '''' \<longrightarrow> (\<exists>d. time_ParseDuration (qc_backoffBase qcfg) = Inr d)) \<and>
     (\<forall>c\<in>set (cf_cron cfg). cc_name c \<noteq> '''' \<and> cc_schedule c \<noteq> '''' \<and> cc_kind c \<noteq> '''') \<and>
     (cf_grpcPort cfg0 \<noteq> '''' \<longrightarrow> cf_grpcPort cfg = cf_grpcPort cfg0) \<and> (0 < cf_concurrency cfg0 \<longrightarrow> cf_concurrency cfg = cf_concurrency cfg0)"
proof -
  obtain cfg0 where cfg: "yaml data = Inr cfg0" "cfg = applyDefaults cfg0" "validate quote cfg = None"
    using assms by (auto simp: Load_def Let_def split: sum.splits option.splits)
  note valid = cfg(3) [unfolded validate_None]
  have duration: "\<exists>x. int64 x \<and> (\<forall>fallback. ParseDuration s fallback = x) \<and> (if given = '''' then x = d else time_ParseDuration given = Inr x)"
    if "\<exists>x. time_ParseDuration s = Inr x" "s = or_default given std" "time_ParseDuration std = Inr d" "std \<noteq> ''''" for s given d std
    using that time_ParseDuration_range by (cases "given = ''''") (auto simp: or_default_def ParseDuration_def)
  have intervals: "\<forall>(given, s, d)\<in>{(cf_heartbeatInterval cfg0, cf_heartbeatInterval cfg, 15 * 1000000000), (cf_staleThreshold cfg0, cf_staleThreshold cfg, 60 * 1000000000),
        (cf_recoveryInterval cfg0, cf_recoveryInterval cfg, 30 * 1000000000), (cf_pollInterval cfg0, cf_pollInterval cfg, 500 * 1000000)}.
      \<exists>x. int64 x \<and> (\<forall>fallback. ParseDuration s fallback = x) \<and> (if given = '''' then x = d else time_ParseDuration given = Inr x)"
    using valid duration [of "cf_heartbeatInterval cfg" "cf_heartbeatInterval cfg0" "''15s''" 15000000000]
      duration [of "cf_staleThreshold cfg" "cf_staleThreshold cfg0" "''60s''" 60000000000]
      duration [of "cf_recoveryInterval cfg" "cf_recoveryInterval cfg0" "''30s''" 30000000000]
      duration [of "cf_pollInterval cfg" "cf_pollInterval cfg0" "''500ms''" 500000000]
    by (simp add: cfg(2) applyDefaults_def ParseDuration_examples)
  have "0 < cf_concurrency cfg" "'''' \<notin> {cf_redisAddr cfg, cf_grpcPort cfg, cf_logLevel cfg}"
    by (auto simp: cfg(2) applyDefaults_def or_default_def)
  moreover have "cf_grpcPort cfg0 \<noteq> '''' \<longrightarrow> cf_grpcPort cfg = cf_grpcPort cfg0" "0 < cf_concurrency cfg0 \<longrightarrow> cf_concurrency cfg = cf_concurrency cfg0"
    by (auto simp: cfg(2) applyDefaults_def or_default_def)
  ultimately show ?thesis using cfg(1,2) intervals valid by (intro exI [of _ cfg0]) blast
qed

definition empty_config :: Config where
  "empty_config = \<lparr>cf_redisAddr = '''', cf_redisPassword = '''', cf_redisDB = 0, cf_grpcPort = '''', cf_logLevel = '''', cf_queues = [],
     cf_heartbeatInterval = '''', cf_staleThreshold = '''', cf_recoveryInterval = '''', cf_concurrency = 0, cf_pollInterval = '''', cf_cron = []\<rparr>"

theorem loaded_config_is_usable_witness:
  "Load id (\<lambda>_. Inr empty_config) (Inr '''') = Inr (applyDefaults empty_config) \<and> 0 < cf_concurrency (applyDefaults empty_config)"
proof -
  have l: "Load id (\<lambda>_. Inr empty_config) (Inr '''') = Inr (applyDefaults empty_config)"
    by (simp add: Load_def Let_def validate_def check_duration_def applyDefaults_def empty_config_def or_default_def ParseDuration_examples)
  show ?thesis using loaded_config_is_usable [OF l] l by auto
qed

end
