(* ===== verification/Commands.thy ===== *)
theory Commands
  imports Config Grpc Server_Props
begin

text \<open>
  \<^verbatim>\<open>cmd/server/main.go\<close> and \<^verbatim>\<open>cmd/winter/main.go\<close>: the gRPC server process and the command line tool,
  as far as they decide something: the configuration they run with, the loops they start, and what
  the commands of the tool do to the queue and print (lines before the table writer aligns their
  columns). Opening the connection and the listener are arguments that may fail; reading the
  environment, the flags and the files too.
\<close>

section \<open>The gRPC server\<close>

definition envOr :: "(string \<Rightarrow> string) \<Rightarrow> string \<Rightarrow> string \<Rightarrow> string" where
  "envOr getenv key fallback = (let v = getenv key in if v \<noteq> '''' then v else fallback)"

definition defaultConfig :: "(string \<Rightarrow> string) \<Rightarrow> Config" where
  "defaultConfig getenv =
     \<lparr>cf_redisAddr = envOr getenv ''REDIS_ADDR'' ''localhost:6379'', cf_redisPassword = '''', cf_redisDB = 0,
      cf_grpcPort = envOr getenv ''GRPC_PORT'' ''50051'', cf_logLevel = ''info'', cf_queues = [],
      cf_heartbeatInterval = ''15s'', cf_staleThreshold = ''60s'', cf_recoveryInterval = ''30s'', cf_concurrency = 10,
      cf_pollInterval = ''500ms'', cf_cron = []\<rparr>"

definition queueNamesFromConfig :: "Config \<Rightarrow> string list" where
  "queueNamesFromConfig cfg = (if cf_queues cfg = [] then [''default''] else map fst (cf_queues cfg))"

datatype level = LevelDebug | LevelInfo | LevelWarn | LevelError

definition log_level :: "Config \<Rightarrow> level" where
  "log_level cfg =
     (if cf_logLevel cfg = ''debug'' then LevelDebug else if cf_logLevel cfg = ''warn'' then LevelWarn
      else if cf_logLevel cfg = ''error'' then LevelError else LevelInfo)"

definition cron_entry :: "CronConfig \<Rightarrow> CronEntry" where
  "cron_entry c = \<lparr>ce_name = cc_name c, ce_schedule = cc_schedule c, ce_queue = cc_queue c, ce_kind = cc_kind c, ce_payload = cc_payload c\<rparr>"

definition grpc_recovery :: "Config \<Rightarrow> RecoveryConfig" where
  "grpc_recovery cfg =
     NewRecovery \<lparr>rc_interval = ParseDuration (cf_recoveryInterval cfg) (30 * 1000000000), rc_queues = queueNamesFromConfig cfg, rc_limit = 0\<rparr>"

text \<open>How the process ends early, or what it runs with until a signal comes.\<close>

datatype start_error = BadConfig qerr | NoRedis string | NoListener string | BadCron qerr

record grpc_process =
  gp_level :: level
  gp_port :: string
  gp_recovery :: RecoveryConfig
  gp_cron :: "parsedEntry list"

definition grpc_main :: "(string \<Rightarrow> string) \<Rightarrow> (string \<Rightarrow> string + (int \<Rightarrow> int)) \<Rightarrow> (string \<Rightarrow> string) \<Rightarrow>
    (string \<Rightarrow> qerr + Config) \<Rightarrow> string option \<Rightarrow> string option \<Rightarrow> string \<Rightarrow> start_error + grpc_process" where
  "grpc_main quote schedule getenv load ping listen configPath =
     (case (if configPath \<noteq> '''' then load configPath else Inr (defaultConfig getenv)) of
        Inl e \<Rightarrow> Inl (BadConfig e)
      | Inr cfg \<Rightarrow>
          (case ping of
             Some e \<Rightarrow> Inl (NoRedis e)
           | None \<Rightarrow>
               (case listen of
                  Some e \<Rightarrow> Inl (NoListener e)
                | None \<Rightarrow>
                    (case (if cf_cron cfg \<noteq> [] then NewCron quote schedule (map cron_entry (cf_cron cfg)) else Inr []) of
                       Inl e \<Rightarrow> Inl (BadCron e)
                     | Inr entries \<Rightarrow>
                         Inr \<lparr>gp_level = log_level cfg, gp_port = cf_grpcPort cfg, gp_recovery = grpc_recovery cfg, gp_cron = entries\<rparr>))))"

text \<open>The chain of interceptors around a handler: recovery outside of logging.\<close>

definition served :: "string \<Rightarrow> ('req \<Rightarrow> 's \<Rightarrow> 'a rpc \<times> 's) \<Rightarrow> 'req \<Rightarrow> 's \<times> grpc_log list \<Rightarrow> 'a rpc \<times> ('s \<times> grpc_log list)" where
  "served methodName handler = RecoveryInterceptor (LoggingInterceptor methodName handler)"

section \<open>The command line tool\<close>

definition getConfig :: "(string \<Rightarrow> qerr + Config) \<Rightarrow> string \<Rightarrow> string \<Rightarrow> qerr + Config" where
  "getConfig load cfgFile redisAddr =
     (if cfgFile \<noteq> '''' then load cfgFile else Inr (empty_config\<lparr>cf_redisAddr := redisAddr\<rparr>))"

definition serverCmd :: "Config \<Rightarrow> ServerConfig" where
  "serverCmd cfg =
     \<lparr>sc_concurrency = cf_concurrency cfg,
      sc_queues = (if cf_queues cfg = [] then [\<lparr>qw_name = ''default'', qw_weight = 1\<rparr>]
                   else map (\<lambda>(name, _). \<lparr>qw_name = name, qw_weight = 1\<rparr>) (cf_queues cfg)),
      sc_strictPriority = False, sc_cron = map cron_entry (cf_cron cfg),
      sc_pollInterval = ParseDuration (cf_pollInterval cfg) (500 * 1000000), sc_shutdownTimeout = 30 * 1000000000\<rparr>"

text \<open>\<open>T n\<close> is the n-th reading of the clock.\<close>

definition cli_job :: "(nat \<Rightarrow> int) \<Rightarrow> string \<Rightarrow> string \<Rightarrow> string \<Rightarrow> int \<Rightarrow> int \<Rightarrow> JobRecord" where
  "cli_job T queueName kind payload delay priority =
     \<lparr>ID = ''cli-'' @ itoa (T 0), Kind = kind, Queue = queueName, Priority = priority, State = ''pending'', Payload = payload, Attempt = 0,
      MaxRetries = 3, CreatedAt = unixMilli (T 1), ScheduledAt = (if delay > 0 then unixMilli (T 2 + delay) else 0), StartedAt = 0,
      CompletedAt = 0, LastError = '''', UniqueKey = '''', WorkflowID = ''''\<rparr>"

definition enqueueCmd :: "'s server \<Rightarrow> fault \<Rightarrow> (nat \<Rightarrow> int) \<Rightarrow> string \<Rightarrow> string \<Rightarrow> string \<Rightarrow> int \<Rightarrow> int \<Rightarrow> 's \<Rightarrow> (qerr + string) \<times> 's" where
  "enqueueCmd exec flt T queueName kind payload delay priority s =
     (if kind = '''' then (Inl (Plain ''--kind is required''), s)
      else let job = cli_job T queueName kind payload delay priority
           in case Enqueue exec flt job '''' 0 s of
                (Inl e, s') \<Rightarrow> (Inl e, s')
              | (Inr _, s') \<Rightarrow> (Inr (''enqueued '' @ ID job @ '' (kind='' @ kind @ '' queue='' @ queueName @ '')''), s'))"

definition statusCmd :: "'s server \<Rightarrow> fault \<Rightarrow> string \<Rightarrow> 's \<Rightarrow> (qerr + (string \<times> string) list) \<times> 's" where
  "statusCmd exec flt queueName s =
     (case QueueStats exec flt queueName s of
        (Inl e, s') \<Rightarrow> (Inl e, s')
      | (Inr stats, s') \<Rightarrow>
          (Inr [(''Queue'', queueName), (''Ready'', itoa (stat_or_0 stats ''ready'')), (''Active'', itoa (stat_or_0 stats ''active'')),
             (''Delayed'', itoa (stat_or_0 stats ''delayed'')), (''Dead'', itoa (stat_or_0 stats ''dead'')),
             (''Completed'', itoa (stat_or_0 stats ''completed'')), (''Enqueued'', itoa (stat_or_0 stats ''enqueued''))], s'))"

text \<open>The record that the tool prints as JSON.\<close>

definition jobsCmd :: "'s server \<Rightarrow> fault \<Rightarrow> string \<Rightarrow> 's \<Rightarrow> (qerr + JobRecord) \<times> 's" where
  "jobsCmd exec flt jobID s =
     (case GetJob exec flt jobID s of
        (Inl e, s') \<Rightarrow> (Inl e, s')
      | (Inr None, s') \<Rightarrow> (Inl (Plain (''job '' @ jobID @ '' not found'')), s')
      | (Inr (Some rec), s') \<Rightarrow> (Inr rec, s'))"

definition short_error :: "string \<Rightarrow> string" where
  "short_error msg = (if length msg > 60 then take 60 msg @ ''...'' else msg)"

definition deadListCmd :: "'s server \<Rightarrow> fault \<Rightarrow> (nat \<Rightarrow> fault) \<Rightarrow> string \<Rightarrow> 's \<Rightarrow> (qerr + string list list) \<times> 's" where
  "deadListCmd exec flt flts queueName s =
     (case ListDead exec flt flts queueName 0 50 s of
        (Inl e, s') \<Rightarrow> (Inl e, s')
      | (Inr recs, s') \<Rightarrow>
          (Inr (if recs = [] then [[''no dead jobs'']]
                else [''ID'', ''Kind'', ''Attempt'', ''Error''] #
                  map (\<lambda>rec. [ID rec, Kind rec, itoa (Attempt rec), short_error (LastError rec)]) recs), s'))"

definition deadPurgeCmd :: "'s server \<Rightarrow> fault \<Rightarrow> string \<Rightarrow> 's \<Rightarrow> (qerr + string) \<times> 's" where
  "deadPurgeCmd exec flt queueName s =
     (case PurgeDead exec flt queueName s of
        (Inl e, s') \<Rightarrow> (Inl e, s')
      | (Inr n, s') \<Rightarrow> (Inr (''purged '' @ itoa n @ '' dead jobs from '' @ queueName), s'))"

definition retryCmd :: "'s server \<Rightarrow> fault \<Rightarrow> string \<Rightarrow> string \<Rightarrow> 's \<Rightarrow> (qerr + string) \<times> 's" where
  "retryCmd exec flt queueName jobID s =
     (case RetryDead exec flt queueName jobID s of
        (Inl e, s') \<Rightarrow> (Inl e, s')
      | (Inr _, s') \<Rightarrow> (Inr (''retried '' @ jobID @ '' from '' @ queueName @ '' dead queue''), s'))"

section \<open>A worker without handlers\<close>

lemma serverCmd_queues:
  "map qw_name (sc_queues (sv_cfg (newServer uuid (serverCmd cfg)))) = queueNamesFromConfig cfg"
  by (auto simp: newServer_def with_defaults_def serverCmd_def queueNamesFromConfig_def at_least_one_def split: if_splits)

text \<open>
  C36: The command \<open>winter server\<close> polls every configured queue but registers no handler: whatever job it
  takes from a queue, it moves to the dead letters at its first attempt, whatever its retry limit.
\<close>

theorem cli_server_buries_jobs:
  assumes "redis_server exec view" "refines (view s) m" "wf_queue q" "\<not> is_paused view s q" "is_next m q i" "m i = Some a" "int64_job a"
    and "sv = newServer uuid (serverCmd cfg)"
  shows "set (buildWeightedQueues sv) = set (queueNamesFromConfig cfg) \<and>
     (\<exists>rec s1 s2. Dequeue exec NoFault now q uuid s = (Inr (Some rec), s1) \<and>
        processJob exec L sv no_job_faults T u rec s1 = (LogNoHandler, s2) \<and>
        refines (view s2) (m(i \<mapsto> a\<lparr>aj_loc := Dead, aj_state := ''dead'', aj_attempt := aj_attempt a + 1\<rparr>)))"
proof -
  let ?a = "to_active (now + 30000) a"
  obtain rec s1 where d: "Dequeue exec NoFault now q uuid s = (Inr (Some rec), s1)" "refines (view s1) (upd i (to_active (now + 30000)) m)"
    "describes rec i ?a"
    using redis_server.dequeue_contract [OF assms(1-6), of now uuid] assms(7) by blast
  have rec: "ID rec = i" "Queue rec = q" using d(3) assms(5,6) by (auto simp: describes_def to_active_def is_next_def at_loc_def)
  let ?m = "m(i \<mapsto> ?a)"
  have st: "refines (view s1) ?m" "?m i = Some ?a" "at_loc ?m q i is_active"
    using d(2) assms(5,6) by (auto simp: upd_def at_loc_def is_next_def to_active_def)
  have none: "sv_handlers sv (Kind rec) = None" by (simp add: assms(8) newServer_def)
  obtain res s2 where n: "Nack exec NoFault (unixMilli (T 1)) q i (sv_workerID sv) ''no handler registered'' 0 True s1 = (Inr res, s2)"
    "refines (view s2) (upd i (to_failed True (unixMilli (T 1) + 0)) ?m)"
    using redis_server.nack_contract [OF assms(1) st, of "unixMilli (T 1)" "sv_workerID sv" "''no handler registered''" 0 True] by blast
  have "upd i (to_failed True (unixMilli (T 1) + 0)) ?m = m(i \<mapsto> a\<lparr>aj_loc := Dead, aj_state := ''dead'', aj_attempt := aj_attempt a + 1\<rparr>)"
    by (simp add: upd_def to_failed_def exhausted_def to_active_def)
  moreover have "processJob exec L sv no_job_faults T u rec s1 = (LogNoHandler, s2)"
    using none n(1) rec by (simp add: processJob_def begin_job_def)
  moreover have "set (buildWeightedQueues sv) = set (map qw_name (sc_queues (sv_cfg sv)))"
    unfolding assms(8) buildWeightedQueues_def
    by (force simp: newServer_def with_defaults_def serverCmd_def at_least_one_def split: if_splits)
  ultimately show ?thesis using d(1) n(2) serverCmd_queues [of uuid cfg] assms(8) by metis
qed

theorem cli_server_buries_jobs_witness:
  "\<exists>rec s1 s2. Dequeue redis_doc NoFault 1000 ''default'' ''u'' store1 = (Inr (Some rec), s1) \<and>
     processJob redis_doc sample_libs (newServer ''u'' (serverCmd empty_config)) no_job_faults sample_times ''u'' rec s1 =
       (LogNoHandler, s2) \<and> refines s2 [''j1'' \<mapsto> mail_ajob\<lparr>aj_loc := Dead, aj_state := ''dead'', aj_attempt := aj_attempt mail_ajob + 1\<rparr>]"
proof -
  have "int64_job mail_ajob" by (simp add: int64_job_def int64_def min_int64_def max_int64_def)
  moreover have "refines (id store1) [''j1'' \<mapsto> mail_ajob]" using refines_store1 by simp
  moreover have "\<not> is_paused id store1 ''default''" using store1_paused by (simp add: is_paused_def)
  ultimately show ?thesis
    using cli_server_buries_jobs [OF logical.redis_server_axioms _ _ _ next_store1, where s = store1 and a = mail_ajob and now = 1000
        and uuid = "''u''" and L = sample_libs and cfg = empty_config and T = sample_times and u = "''u''", OF _ _ _ _ _ refl]
    by auto
qed

end
