(* ===== verification/Wintertest.thy ===== *)
theory Wintertest
  imports Client
begin

text \<open>
  \<^verbatim>\<open>wintertest/wintertest.go\<close>: assertions about the jobs in Redis. SCAN hands out the keys in pages
  whose cursors only the server understands, so the replies to the successive SCAN calls are an
  argument; \<open>full_scan\<close> is what the documentation of SCAN promises of them while nothing changes. A
  failed assertion ends the test with \<open>Fatalf\<close>, here a value.
\<close>

datatype fatal = MarshalExpected string | ScanJobs string | NoneFound string | NoneMatched nat string | WrongCount int string nat

definition found_job :: "(string \<rightharpoonup> string) \<Rightarrow> JobRecord" where
  "found_job vals = blank_record\<lparr>ID := mget vals ''id'', Kind := mget vals ''kind'', Queue := mget vals ''queue'',
     Payload := mget vals ''payload''\<rparr>"

text \<open>The keys of one page; a key that cannot be read as a hash is passed over.\<close>

fun match_keys :: "'s server \<Rightarrow> (nat \<Rightarrow> fault) \<Rightarrow> string \<Rightarrow> nat \<Rightarrow> string list \<Rightarrow> 's \<Rightarrow> JobRecord list \<times> 's" where
  "match_keys exec F kind n [] s = ([], s)"
| "match_keys exec F kind n (key # keys) s =
     (case run (F n) (lcall exec (HGETALL key)) s of
        (Inl _, s1) \<Rightarrow> match_keys exec F kind (Suc n) keys s1
      | (Inr r, s1) \<Rightarrow>
          (let vals = map_of (rev (field_pairs (elements r)));
               (jobs, s2) = match_keys exec F kind (Suc n) keys s1
           in (if mget vals ''kind'' = kind then found_job vals # jobs else jobs, s2)))"

text \<open>One reply per round of the loop: an error, or a page of keys and the next cursor. \<open>None\<close> is a loop that is not over.\<close>

type_synonym scan_reply = "string + string list \<times> nat"

fun findJobsByKind :: "'s server \<Rightarrow> (nat \<Rightarrow> fault) \<Rightarrow> string \<Rightarrow> nat \<Rightarrow> scan_reply list \<Rightarrow> 's \<Rightarrow> ((string + JobRecord list) \<times> 's) option" where
  "findJobsByKind exec F kind n [] s = None"
| "findJobsByKind exec F kind n (Inl e # _) s = Some (Inl e, s)"
| "findJobsByKind exec F kind n (Inr (keys, next) # replies) s =
     (case match_keys exec F kind n keys s of
        (matched, s1) \<Rightarrow>
          if next = 0 then Some (Inr matched, s1)
          else (case findJobsByKind exec F kind (n + length keys) replies s1 of
                  None \<Rightarrow> None
                | Some (Inl e, s2) \<Rightarrow> Some (Inl e, s2)
                | Some (Inr found, s2) \<Rightarrow> Some (Inr (matched @ found), s2)))"

definition RequireEnqueued :: "'s server \<Rightarrow> (nat \<Rightarrow> fault) \<Rightarrow> scan_reply list \<Rightarrow> Task \<Rightarrow> 's \<Rightarrow> ((fatal + unit) \<times> 's) option" where
  "RequireEnqueued exec F replies expected s =
     (case t_json expected of
        Inl e \<Rightarrow> Some (Inl (MarshalExpected e), s)
      | Inr expectedPayload \<Rightarrow>
          (case findJobsByKind exec F (t_kind expected) 0 replies s of
             None \<Rightarrow> None
           | Some (Inl e, s1) \<Rightarrow> Some (Inl (ScanJobs e), s1)
           | Some (Inr jobs, s1) \<Rightarrow>
               Some (if jobs = [] then Inl (NoneFound (t_kind expected))
                     else if list_ex (\<lambda>job. Payload job = expectedPayload) jobs then Inr ()
                     else Inl (NoneMatched (length jobs) (t_kind expected)), s1)))"

definition RequireEnqueuedN :: "'s server \<Rightarrow> (nat \<Rightarrow> fault) \<Rightarrow> scan_reply list \<Rightarrow> string \<Rightarrow> int \<Rightarrow> 's \<Rightarrow> ((fatal + unit) \<times> 's) option" where
  "RequireEnqueuedN exec F replies kind n s =
     (case findJobsByKind exec F kind 0 replies s of
        None \<Rightarrow> None
      | Some (Inl e, s1) \<Rightarrow> Some (Inl (ScanJobs e), s1)
      | Some (Inr jobs, s1) \<Rightarrow>
          Some (if int (length jobs) \<noteq> n then Inl (WrongCount n kind (length jobs)) else Inr (), s1))"

definition RequireNoneEnqueued :: "'s server \<Rightarrow> (nat \<Rightarrow> fault) \<Rightarrow> scan_reply list \<Rightarrow> string \<Rightarrow> 's \<Rightarrow> ((fatal + unit) \<times> 's) option" where
  "RequireNoneEnqueued exec F replies kind = RequireEnqueuedN exec F replies kind 0"

section \<open>What the assertions say about the queue\<close>

text \<open>The keys of a complete iteration.\<close>

fun iteration :: "scan_reply list \<Rightarrow> string list option" where
  "iteration [] = None"
| "iteration (Inl _ # _) = None"
| "iteration (Inr (keys, next) # replies) = (if next = 0 then Some keys else map_option ((@) keys) (iteration replies))"

definition full_scan :: "dataset \<Rightarrow> scan_reply list \<Rightarrow> string list \<Rightarrow> bool" where
  "full_scan d replies keys \<longleftrightarrow> iteration replies = Some keys \<and> set keys = {k. lookup d k \<noteq> None \<and> prefix ''winter:job:'' k}"

text \<open>Under the prefix of the job hashes there are only these and the results, which are strings.\<close>

definition results_are_strings :: "dataset \<Rightarrow> bool" where
  "results_are_strings d \<longleftrightarrow> (\<forall>i v. lookup d (resultKey i) = Some v \<longrightarrow> rtype_of v = TString)"

definition of_kind :: "astate \<Rightarrow> string \<Rightarrow> string set" where
  "of_kind m kind = {i. \<exists>a. m i = Some a \<and> aj_kind a = kind}"

definition job_found :: "astate \<Rightarrow> string \<Rightarrow> JobRecord" where
  "job_found m i = (case m i of None \<Rightarrow> blank_record
     | Some a \<Rightarrow> blank_record\<lparr>ID := i, Kind := aj_kind a, Queue := aj_queue a, Payload := aj_payload a\<rparr>)"

lemma scanned_key:
  assumes "lookup d k \<noteq> None" "prefix ''winter:job:'' k"
  obtains (job) i where "k = jobKey i" "wf_id i" | (result) i where "k = resultKey i"
proof -
  obtain i where i: "k = jobKey i" using assms(2) by (auto simp: prefix_def jobKey_def)
  show thesis
  proof (cases "wf_id i")
    case False
    then obtain j where "i = j @ '':result''" by (auto simp: wf_id_def suffix_def)
    then show thesis using result [of j] i by (simp add: jobKey_def resultKey_def)
  qed (use job i in blast)
qed

lemma read_key:
  assumes "refines d m" "results_are_strings d" "kind \<noteq> ''''" "lookup d k \<noteq> None" "prefix ''winter:job:'' k"
  shows "match_keys redis_doc (\<lambda>_. NoFault) kind n [k] d = (map (job_found m) (filter (\<lambda>i. i \<in> of_kind m kind) [drop 11 k]), d)"
  using assms(4,5)
proof (cases rule: scanned_key)
  case (job i)
  let ?h = "hash_at d (jobKey i)"
  have vals: "map_of (rev ?h) = job_field d i"
    using job(2) map_of_rev_distinct [of ?h] assms(1) by (auto simp: job_field_def fun_eq_iff)
  have run: "lcall redis_doc (HGETALL k) d = (Inr (RArr (concat (map (\<lambda>(f, v). [f, v]) ?h))), d)"
    using job assms(1) by (simp add: lcall_def redis_doc.simps)
  have "drop 11 k = i" using job(1) by (simp add: jobKey_def)
  then show ?thesis using run vals job_field_absent [OF assms(1) job(2)] job_field_stored [OF assms(1)] assms(3)
    by (cases "m i") (auto simp: of_kind_def mget_def found_job_def job_found_def)
next
  case (result i)
  then have "\<not> has_type THash d k" using assms(2,4) by (auto simp: has_type_def results_are_strings_def)
  then have "lcall redis_doc (HGETALL k) d = (Inl wrongtype, d)" by (simp add: lcall_def redis_doc.simps typed_def)
  moreover have "drop 11 k \<notin> of_kind m kind"
  proof -
    have "drop 11 k = i @ '':result''" using result by (simp add: resultKey_def)
    then have "\<not> wf_id (drop 11 k)" by (auto simp: wf_id_def suffix_def)
    then show ?thesis using refinesD [OF assms(1)] by (auto simp: of_kind_def)
  qed
  ultimately show ?thesis by simp
qed

lemma match_keys_Cons:
  "match_keys exec F kind n (k # ks) s =
     (let (js, s1) = match_keys exec F kind n [k] s; (js', s2) = match_keys exec F kind (Suc n) ks s1 in (js @ js', s2))"
  by (simp add: Let_def split: prod.splits sum.splits)

definition scanned :: "dataset \<Rightarrow> string list \<Rightarrow> bool" where
  "scanned d keys \<longleftrightarrow> (\<forall>k\<in>set keys. lookup d k \<noteq> None \<and> prefix ''winter:job:'' k)"

context redis_server
begin

lemma sim_match_keys: "sim view (match_keys exec F kind n ks) (match_keys redis_doc F kind n ks)"
proof (induction ks arbitrary: n)
  case (Cons k ks)
  show ?case
  proof (rule simI)
    fix s
    obtain r s1 where e: "run (F n) (lcall exec (HGETALL k)) s = (r, s1)" by (metis prod.collapse)
    then have d: "run (F n) (lcall redis_doc (HGETALL k)) (view s) = (r, view s1)"
      using sim_run [OF sim_lcall, of "F n" "HGETALL k"] unfolding sim_def by (metis id_apply map_prod_simp)
    obtain js s2 where e': "match_keys exec F kind (Suc n) ks s1 = (js, s2)" by (metis prod.collapse)
    then have "match_keys redis_doc F kind (Suc n) ks (view s1) = (js, view s2)"
      using Cons.IH [of "Suc n"] unfolding sim_def by (metis id_apply map_prod_simp)
    then show "map_prod id view (match_keys exec F kind n (k # ks) s) = match_keys redis_doc F kind n (k # ks) (view s)"
      using e d e' by (cases r) (simp_all add: Let_def)
  qed
qed (simp add: sim_def)

lemma match_keys_run:
  assumes "refines (view s) m" "results_are_strings (view s)" "kind \<noteq> ''''" "scanned (view s) ks"
  obtains s' where "match_keys exec (\<lambda>_. NoFault) kind n ks s =
      (map (job_found m) (filter (\<lambda>i. i \<in> of_kind m kind) (map (drop 11) ks)), s')" "view s' = view s"
proof -
  have "match_keys redis_doc (\<lambda>_. NoFault) kind n ks (view s) =
      (map (job_found m) (filter (\<lambda>i. i \<in> of_kind m kind) (map (drop 11) ks)), view s)"
    using assms(4)
  proof (induction ks arbitrary: n)
    case (Cons k ks)
    then show ?case
      using read_key [OF assms(1-3), of k n] by (subst match_keys_Cons) (simp add: scanned_def Let_def)
  qed simp
  from sim_result [OF sim_match_keys this] show thesis using that by metis
qed

lemma findJobs_run:
  assumes "refines (view s) m" "results_are_strings (view s)" "kind \<noteq> ''''" "iteration replies = Some ks" "scanned (view s) ks"
  shows "\<exists>s'. findJobsByKind exec (\<lambda>_. NoFault) kind n replies s =
      Some (Inr (map (job_found m) (filter (\<lambda>i. i \<in> of_kind m kind) (map (drop 11) ks))), s') \<and> view s' = view s"
  using assms
proof (induction replies arbitrary: n ks s)
  case (Cons r replies)
  then obtain keys "next" where r: "r = Inr (keys, next)" by (cases r) auto
  have sc: "scanned (view s) keys" using Cons.prems(4,5) r by (auto simp: scanned_def split: if_splits)
  obtain s1 where s1: "match_keys exec (\<lambda>_. NoFault) kind n keys s =
      (map (job_found m) (filter (\<lambda>i. i \<in> of_kind m kind) (map (drop 11) keys)), s1)" "view s1 = view s"
    by (rule match_keys_run [OF Cons.prems(1-3) sc])
  show ?case
  proof (cases "next = 0")
    case True
    then show ?thesis using s1 r Cons.prems(4) by simp
  next
    case False
    then obtain ks' where ks': "iteration replies = Some ks'" "ks = keys @ ks'" using Cons.prems(4) r by auto
    then have "scanned (view s1) ks'" using Cons.prems(5) s1(2) by (simp add: scanned_def)
    then obtain s2 where "findJobsByKind exec (\<lambda>_. NoFault) kind (n + length keys) replies s1 =
        Some (Inr (map (job_found m) (filter (\<lambda>i. i \<in> of_kind m kind) (map (drop 11) ks'))), s2)" "view s2 = view s1"
      using Cons.IH [of s1 ks' "n + length keys"] Cons.prems(1-3) ks'(1) s1(2) by auto
    then show ?thesis using s1 r ks'(2) False by simp
  qed
qed simp

end

lemma full_scanD:
  assumes "refines d m" "full_scan d replies ks"
  shows "iteration replies = Some ks" "scanned d ks" "set (filter (\<lambda>i. i \<in> of_kind m kind) (map (drop 11) ks)) = of_kind m kind"
proof -
  show "iteration replies = Some ks" "scanned d ks" using assms(2) by (auto simp: full_scan_def scanned_def)
  have "i \<in> drop 11 ` set ks" if "i \<in> of_kind m kind" for i
  proof -
    obtain a where a: "m i = Some a" using \<open>i \<in> of_kind m kind\<close> by (auto simp: of_kind_def)
    then have "map_of (hash_at d (jobKey i)) ''id'' = Some i" using job_field_stored(1) [OF assms(1)] by (simp add: job_field_def)
    then have "lookup d (jobKey i) \<noteq> None" by (cases "lookup d (jobKey i)") (simp_all add: hash_at_def)
    then have "jobKey i \<in> set ks" using assms(2) by (auto simp: full_scan_def jobKey_def)
    moreover have "drop 11 (jobKey i) = i" by (simp add: jobKey_def)
    ultimately show ?thesis by force
  qed
  then show "set (filter (\<lambda>i. i \<in> of_kind m kind) (map (drop 11) ks)) = of_kind m kind" by auto
qed

lemma distinct_scanned:
  assumes "scanned d ks" "distinct ks"
  shows "distinct (map (drop 11) ks)"
proof -
  have "k = ''winter:job:'' @ drop 11 k" if "k \<in> set ks" for k
    using that assms(1) by (fastforce simp: scanned_def prefix_def)
  then have "inj_on (drop 11) (set ks)" by (metis inj_onI)
  then show ?thesis using assms(2) by (simp add: distinct_map)
qed

text \<open>
  \<open>RequireEnqueued\<close> passes exactly when the queue has a job of the kind with the payload. \<open>RequireEnqueuedN\<close>
  counts the jobs of the kind when SCAN gives no key twice; Redis may, and then the count is too high.
\<close>

theorem RequireEnqueued_iff:
  assumes "redis_server exec view" "refines (view s) m" "results_are_strings (view s)" "full_scan (view s) replies ks"
    and "t_kind expected \<noteq> ''''" "t_json expected = Inr payload"
  shows "\<exists>r s'. RequireEnqueued exec (\<lambda>_. NoFault) replies expected s = Some (r, s') \<and> view s' = view s \<and>
    (r = Inr () \<longleftrightarrow> (\<exists>i a. m i = Some a \<and> aj_kind a = t_kind expected \<and> aj_payload a = payload))"
proof -
  let ?ids = "filter (\<lambda>i. i \<in> of_kind m (t_kind expected)) (map (drop 11) ks)"
  obtain s' where s': "findJobsByKind exec (\<lambda>_. NoFault) (t_kind expected) 0 replies s = Some (Inr (map (job_found m) ?ids), s')" "view s' = view s"
    using redis_server.findJobs_run [OF assms(1-3,5) full_scanD(1,2) [OF assms(2,4)]] by blast
  have "list_ex (\<lambda>job. Payload job = payload) (map (job_found m) ?ids) \<longleftrightarrow> (\<exists>i\<in>set ?ids. Payload (job_found m i) = payload)"
    by (simp only: list_ex_iff set_map bex_simps)
  also have "\<dots> \<longleftrightarrow> (\<exists>i a. m i = Some a \<and> aj_kind a = t_kind expected \<and> aj_payload a = payload)"
    unfolding full_scanD(3) [OF assms(2,4)] by (fastforce simp: of_kind_def job_found_def)
  finally show ?thesis using s' assms(6) by (auto simp: RequireEnqueued_def split: if_splits)
qed

theorem RequireEnqueuedN_iff:
  assumes "redis_server exec view" "refines (view s) m" "results_are_strings (view s)" "full_scan (view s) replies ks" "kind \<noteq> ''''" "distinct ks"
  shows "\<exists>r s'. RequireEnqueuedN exec (\<lambda>_. NoFault) replies kind n s = Some (r, s') \<and> view s' = view s \<and>
    (r = Inr () \<longleftrightarrow> n = int (card (of_kind m kind)))"
proof -
  let ?ids = "filter (\<lambda>i. i \<in> of_kind m kind) (map (drop 11) ks)"
  note scan = full_scanD [OF assms(2,4)]
  have "length ?ids = card (of_kind m kind)"
    using distinct_card [of ?ids] distinct_scanned [OF scan(2) assms(6)] scan(3) [of kind] by (metis distinct_filter)
  with redis_server.findJobs_run [OF assms(1-3,5) scan(1,2), of 0] show ?thesis
    by (auto simp: RequireEnqueuedN_def)
qed

end
