(* ===== verification/Connect.thy ===== *)
theory Connect
  imports Server Inspector Commands
begin

text \<open>
  How clients, servers, inspectors and the tool come by their connection (\<^verbatim>\<open>client.go\<close>, \<^verbatim>\<open>server.go\<close>,
  \<^verbatim>\<open>inspector.go\<close>, \<^verbatim>\<open>cmd/winter/main.go\<close>) and how a handler finds the client in its context (\<^verbatim>\<open>context.go\<close>). go-redis is an
  argument: opening a pool, a PING, and closing, where the connection supports it, as operations on
  the world \<open>'w\<close> of open connections.
\<close>

section \<open>Clients\<close>

record RedisConfig =
  rd_addr :: string
  rd_password :: string
  rd_db :: int

record ('c, 'w) go_redis =
  gr_open :: "RedisConfig \<Rightarrow> 'w \<Rightarrow> 'c \<times> 'w"
  gr_ping :: "'c \<Rightarrow> 'w \<Rightarrow> string option \<times> 'w"
  gr_closer :: "'c \<Rightarrow> ('w \<Rightarrow> string option \<times> 'w) option"

record 'c queue_handle =
  qh_rdb :: 'c

definition queue_New :: "'c \<Rightarrow> 'c queue_handle" where
  "queue_New rdb = \<lparr>qh_rdb = rdb\<rparr>"

record 'c Client =
  cl_rdb :: 'c
  cl_queue :: "'c queue_handle"

definition NewClientFromRedis :: "'c \<Rightarrow> 'c Client" where
  "NewClientFromRedis rdb = \<lparr>cl_rdb = rdb, cl_queue = queue_New rdb\<rparr>"

definition NewClient :: "('c, 'w) go_redis \<Rightarrow> RedisConfig \<Rightarrow> 'w \<Rightarrow> (qerr + 'c Client) \<times> 'w" where
  "NewClient G cfg w =
     (let (rdb, w1) = gr_open G cfg w in
      case gr_ping G rdb w1 of
        (Some e, w2) \<Rightarrow> (Inl (Wrapped ''winter: redis ping'' e), w2)
      | (None, w2) \<Rightarrow> (Inr \<lparr>cl_rdb = rdb, cl_queue = queue_New rdb\<rparr>, w2))"

definition client_Close :: "('c, 'w) go_redis \<Rightarrow> 'c Client \<Rightarrow> 'w \<Rightarrow> string option \<times> 'w" where
  "client_Close G c w = (case gr_closer G (cl_rdb c) of Some close \<Rightarrow> close w | None \<Rightarrow> (None, w))"

definition client_Queue :: "'c Client \<Rightarrow> 'c queue_handle" where
  "client_Queue c = cl_queue c"

definition client_Redis :: "'c Client \<Rightarrow> 'c" where
  "client_Redis c = cl_rdb c"

section \<open>Servers and inspectors\<close>

text \<open>The client a server keeps beside its settings.\<close>

definition NewServer :: "('c, 'w) go_redis \<Rightarrow> string \<Rightarrow> RedisConfig \<Rightarrow> ServerConfig \<Rightarrow> 'w \<Rightarrow> (qerr + 'c Client \<times> 's Server) \<times> 'w" where
  "NewServer G uuid redisCfg cfg w =
     (case NewClient G redisCfg w of
        (Inl e, w1) \<Rightarrow> (Inl e, w1)
      | (Inr client, w1) \<Rightarrow> (Inr (client, newServer uuid cfg), w1))"

definition NewServerFromRedis :: "string \<Rightarrow> 'c \<Rightarrow> ServerConfig \<Rightarrow> 'c Client \<times> 's Server" where
  "NewServerFromRedis uuid rdb cfg = (NewClientFromRedis rdb, newServer uuid cfg)"

text \<open>A function as a handler: its \<open>Work\<close> is the function itself.\<close>

definition HandlerFunc_Work :: "('t TypedJob \<Rightarrow> 's handler) \<Rightarrow> 't TypedJob \<Rightarrow> 's handler" where
  "HandlerFunc_Work f job = f job"

definition HandleFunc :: "string \<Rightarrow> TaskOptions option \<Rightarrow> (string \<Rightarrow> string + 't) \<Rightarrow> ('t TypedJob \<Rightarrow> 's handler) \<Rightarrow>
    's Server \<Rightarrow> 's Server" where
  "HandleFunc kind opts decode fn sv = Handle kind opts decode (HandlerFunc_Work fn) sv"

record 'c Inspector =
  in_client :: "'c Client"

definition NewInspector :: "('c, 'w) go_redis \<Rightarrow> RedisConfig \<Rightarrow> 'w \<Rightarrow> (qerr + 'c Inspector) \<times> 'w" where
  "NewInspector G cfg w =
     (case NewClient G cfg w of
        (Inl e, w1) \<Rightarrow> (Inl e, w1)
      | (Inr client, w1) \<Rightarrow> (Inr \<lparr>in_client = client\<rparr>, w1))"

definition NewInspectorFromRedis :: "'c \<Rightarrow> 'c Inspector" where
  "NewInspectorFromRedis rdb = \<lparr>in_client = NewClientFromRedis rdb\<rparr>"

definition inspect_Close :: "('c, 'w) go_redis \<Rightarrow> 'c Inspector \<Rightarrow> 'w \<Rightarrow> string option \<times> 'w" where
  "inspect_Close G i w = client_Close G (in_client i) w"

section \<open>The command line tool\<close>

text \<open>The commands of the tool connect first; a failure is printed and ends the tool.\<close>

definition redis_options :: "Config \<Rightarrow> RedisConfig" where
  "redis_options cfg = \<lparr>rd_addr = cf_redisAddr cfg, rd_password = cf_redisPassword cfg, rd_db = cf_redisDB cfg\<rparr>"

datatype tool_exit = ConfigError qerr | ConnectionFailed string

definition connectRedis :: "('c, 'w) go_redis \<Rightarrow> (string \<Rightarrow> qerr + Config) \<Rightarrow> string \<Rightarrow> string \<Rightarrow>
    'w \<Rightarrow> (tool_exit + 'c \<times> 'c queue_handle) \<times> 'w" where
  "connectRedis G load cfgFile redisAddr w =
     (case getConfig load cfgFile redisAddr of
        Inl e \<Rightarrow> (Inl (ConfigError e), w)
      | Inr cfg \<Rightarrow>
          (let (rdb, w1) = gr_open G (redis_options cfg) w in
           case gr_ping G rdb w1 of
             (Some e, w2) \<Rightarrow> (Inl (ConnectionFailed e), w2)
           | (None, w2) \<Rightarrow> (Inr (rdb, queue_New rdb), w2)))"

section \<open>The client in a context\<close>

text \<open>
  Keys are compared with their types: no other package can have a key of the type \<open>ctxKey\<close>. A context
  is the background, one with a value, or one derived without a value (cancelled, with a deadline).
\<close>

datatype ctx_key = CtxKey nat | ForeignKey string

datatype 'c ctx_value = ClientValue "'c Client" | OtherValue string

datatype 'c ctx = Background | WithValue "'c ctx" ctx_key "'c ctx_value" | Derived "'c ctx"

definition clientKey :: ctx_key where
  "clientKey = CtxKey 0"

primrec ctx_Value :: "'c ctx \<Rightarrow> ctx_key \<Rightarrow> 'c ctx_value option" where
  "ctx_Value Background k = None"
| "ctx_Value (WithValue ctx k' v) k = (if k = k' then Some v else ctx_Value ctx k)"
| "ctx_Value (Derived ctx) k = ctx_Value ctx k"

definition withClient :: "'c ctx \<Rightarrow> 'c Client \<Rightarrow> 'c ctx" where
  "withClient ctx c = WithValue ctx clientKey (ClientValue c)"

definition ClientFromContext :: "'c ctx \<Rightarrow> 'c Client option" where
  "ClientFromContext ctx = (case ctx_Value ctx clientKey of Some (ClientValue c) \<Rightarrow> Some c | _ \<Rightarrow> None)"

text \<open>Contexts a handler may derive from the one it gets, with values of its own.\<close>

inductive derives :: "'c ctx \<Rightarrow> 'c ctx \<Rightarrow> bool" where
  derives_refl: "derives ctx ctx"
| derives_value: "derives ctx ctx' \<Longrightarrow> derives ctx (WithValue ctx' (ForeignKey k) v)"
| derives_plain: "derives ctx ctx' \<Longrightarrow> derives ctx (Derived ctx')"

text \<open>
  A handler finds the client of its server in its context and in every context it derives from it;
  outside of a handler there is none.
\<close>

lemma derives_client: "derives ctx ctx' \<Longrightarrow> ClientFromContext ctx' = ClientFromContext ctx"
  by (induction rule: derives.induct) (simp_all add: ClientFromContext_def clientKey_def)

lemma client_in_derived_context: "derives (withClient ctx c) ctx' \<Longrightarrow> ClientFromContext ctx' = Some c"
  using derives_client [of "withClient ctx c" ctx'] by (simp add: ClientFromContext_def withClient_def)

lemma no_client_outside_handlers: "derives Background ctx \<Longrightarrow> ClientFromContext ctx = None"
  using derives_client [of Background ctx] by (simp add: ClientFromContext_def)

text \<open>
  What a constructor returns uses one connection for all its calls, and every constructor fails
  exactly when the PING does, with the same error.
\<close>

lemma constructors_connect:
  assumes "gr_open G cfg w = (rdb, w1)" "gr_ping G rdb w1 = (r, w2)"
  shows "case r of
      None \<Rightarrow> NewClient G cfg w = (Inr (NewClientFromRedis rdb), w2) \<and>
        NewServer G uuid cfg sc w = (Inr (NewServerFromRedis uuid rdb sc), w2) \<and>
        NewInspector G cfg w = (Inr (NewInspectorFromRedis rdb), w2)
    | Some e \<Rightarrow> NewClient G cfg w = (Inl (Wrapped ''winter: redis ping'' e), w2) \<and>
        NewServer G uuid cfg sc w = (Inl (Wrapped ''winter: redis ping'' e), w2) \<and>
        NewInspector G cfg w = (Inl (Wrapped ''winter: redis ping'' e), w2)"
  using assms
  by (cases r) (simp_all add: NewClient_def NewServer_def NewInspector_def NewClientFromRedis_def NewServerFromRedis_def
      NewInspectorFromRedis_def)

text \<open>The tool connects as a client with the same options does.\<close>

lemma connectRedis_as_client:
  assumes "getConfig load cfgFile redisAddr = Inr cfg"
  shows "connectRedis G load cfgFile redisAddr w =
    (case NewClient G (redis_options cfg) w of
       (Inl (Wrapped _ e), w1) \<Rightarrow> (Inl (ConnectionFailed e), w1)
     | (Inr c, w1) \<Rightarrow> (Inr (client_Redis c, client_Queue c), w1))"
  using assms by (simp add: connectRedis_def NewClient_def client_Redis_def client_Queue_def split: prod.split option.split)

lemma one_connection: "qh_rdb (client_Queue (NewClientFromRedis rdb)) = client_Redis (NewClientFromRedis rdb)"
  by (simp add: client_Queue_def client_Redis_def NewClientFromRedis_def queue_New_def)

end
