(* ===== verification/Spec2Isabelle.thy ===== *)
theory Spec2Isabelle
  imports Queue_Props Queue_Contracts Queue_Locks Queue_Order Queue_Inspect Client Rate_Limit Cron_Run Workflow_Group Workflow_Api
    Recovery Fleet Server_Process Server_Workflow Grpc_Workers Config Inspector Commands Wintertest Connect
begin

text \<open>
  Winter is a task queue for Go on top of Redis. Clients enqueue jobs; worker processes take them
  with a lease, run a handler and report the outcome; a recovery loop takes jobs back from workers
  that died; a scheduler enqueues cron jobs; workflows chain jobs together; a gRPC service and an
  inspector expose the queue. All shared state is in Redis, and every change of a job's state is one
  Lua script, which Redis runs atomically. This development models these parts and proves what they
  promise, from the single Redis command up to a worker that drives a workflow.

  \<^bold>\<open>Ground.\<close>
  \<^item> \<open>Winter_Prelude\<close>: rule collections and shared lemmas; decimal rendering and parsing of integers.
  \<^item> \<open>Redis\<close>: the commands the program issues and a documented semantics \<open>redis_doc\<close> of them on a logical
    dataset with a clock and keys that expire. Redis is not part of the repository: every operation
    takes the server as its argument \<open>exec\<close>, and the locale \<open>redis_server\<close> says that \<open>exec\<close> answers as
    documented through some \<open>view\<close> of its state. The properties hold for every such server; the logical
    dataset is one (interpretation \<open>logical\<close>).
  \<^item> \<open>Lua\<close>: scripts as state passing computations (\<open>redis.call\<close> raises on an error reply), and a Go call
    of a script under the faults of the connection: none, an error before the script ran, a reply lost
    after it ran. \<open>sim\<close> carries every result on the logical dataset to every server.
  \<^item> \<open>Go_Json\<close>: what the program uses of \<open>encoding/json\<close>: strings over UTF-8 with their escapes, base64 for
    byte slices, numbers, arrays, objects, and a reader; a printed value reads back.
  \<^item> \<open>Float64\<close>: rounding to doubles, \<open>%.17g\<close> and \<open>strtod\<close>, with the theorem that 17 digits recover every double.
    \<open>Go_Time\<close>: \<open>time.ParseDuration\<close> and \<open>Duration.String\<close>.
  \<^item> \<open>Keys\<close>: the key formats, with the conditions on queue names and identifiers under which they are apart.

  \<^bold>\<open>The queue\<close> (\<^verbatim>\<open>internal/queue\<close>).
  \<^item> \<open>Scripts\<close> has one definition per Lua script of \<^verbatim>\<open>scripts.go\<close>, \<open>Queue\<close> one per method of \<^verbatim>\<open>queue.go\<close>.
  \<^item> \<open>Job_View\<close>, \<open>Lifecycle_Spec\<close>: the abstract queue, a map from identifiers to jobs that are each in one
    place, and the relation \<open>refines\<close> between dataset and abstract queue, which is also the invariant.
  \<^item> \<open>Queue_Refine\<close>, \<open>Queue_Flow\<close>, \<open>Queue_Sweeps\<close>: each operation implements its abstract counterpart.
  \<^item> \<open>Persistence\<close>: the queue's structures never expire. \<open>Queue_Safety\<close>: the queue as a state machine
    \<open>qop\<close> (any operation, any fault, time passing) with its runs \<open>qrun\<close>. The scripts that settle a job
    (ack, nack, reschedule, cancel) do not check that it is still active, and a worker that lost its lease
    can call them: a run is \<open>timely\<close> when this does not happen. The steps of timely runs, \<open>qstep\<close>, are
    simulated by the abstract machine \<open>astep\<close>.
  \<^item> \<open>Queue_Props\<close>: refinement and invariants of timely runs (a job is in one place, retries are
    bounded, finished jobs stay finished); \<open>Queue_Inspect\<close> shows by a late ack that they need not hold in others.
  \<^item> \<open>Queue_Contracts\<close>: the locale \<open>job_queue\<close>, the interface its clients rely on; every \<open>redis_server\<close>
    provides it (sublocale). \<open>Queue_Locks\<close>: unique locks. \<open>Queue_Batch\<close>: batches against single
    enqueues. \<open>Queue_Order\<close>: successive dequeues against sorting. \<open>Frames\<close>: what a computation leaves alone. \<open>Queue_Inspect\<close>: reading back, statistics, dead
    letters, lease recovery, and the late acknowledgement.

  \<^bold>\<open>Clients of the queue.\<close>
  \<^item> \<open>Winter\<close> (\<^verbatim>\<open>winter.go\<close>): states, error sentinels, options, backoff at 64 bits. \<open>Client\<close> (\<^verbatim>\<open>client.go\<close>).
  \<^item> \<open>Rate_Limit\<close> (\<^verbatim>\<open>internal/ratelimit\<close>): the token bucket over rounded rationals (locale \<open>lua_numbers\<close>);
    the limit over every period for any such rounding, and so for doubles (interpretation \<open>doubles\<close>).
  \<^item> \<open>Cron\<close>, \<open>Cron_Run\<close> (\<^verbatim>\<open>internal/scheduler\<close>): ticks of one and of competing instances; whole runs of the
    scheduler against the schedules of its entries.
  \<^item> \<open>Workflow\<close>, \<open>Workflow_Props\<close>, \<open>Workflow_Chain\<close>, \<open>Workflow_Group\<close> (\<^verbatim>\<open>internal/workflow\<close>) and
    \<open>Workflow_Api\<close> (\<^verbatim>\<open>workflow.go\<close>): chains, groups, chords, and the races their separate calls leave open.
  \<^item> \<open>Recovery\<close> (\<^verbatim>\<open>internal/worker\<close>): the sweep over the watched queues.
  \<^item> \<open>Server\<close> (\<^verbatim>\<open>server.go\<close>, \<^verbatim>\<open>middleware.go\<close>): handlers, hooks, middleware, \<open>processJob\<close> with every branch,
    one round of each poller, one tick of each loop. \<open>Server_Props\<close>: a job is settled as its handler
    says. \<open>Server_Loops\<close>: lost jobs are recovered. \<open>Fleet\<close>: any number of workers on one Redis as a step
    relation over single calls, each by its own clock; no job runs twice at a time while leases are
    extended before they end. \<open>Server_Polling\<close>: order of
    polling (locale \<open>sort_func\<close> for \<open>slices.SortFunc\<close>). \<open>Server_Process\<close>: the goroutines of \<open>Start\<close>, the
    cancelled context and the drain deadline as a step relation: each goroutine with its program points, the
    channel that holds the slots and the wait group as counters that its statements change, calls in
    flight when the context is cancelled, ticks that a loop still takes up, and other processes as a
    parameter. The bound on jobs being processed, what a shutdown leaves, that it ends, and that it can outlast a
    lease. What one tick of a loop calls is one step there; \<open>Fleet\<close> interleaves single calls.
    \<open>Server_Workflow\<close>: worker and workflow manager together.
  \<^item> \<open>Grpc\<close> (\<^verbatim>\<open>internal/server\<close>), \<open>Grpc_Workers\<close> (what workers miss that use it: no call extends a lease or
    advances a workflow), \<open>Config\<close> (\<^verbatim>\<open>internal/config\<close>), \<open>Inspector\<close> (\<^verbatim>\<open>inspector.go\<close>).
  \<^item> \<open>Commands\<close> (\<^verbatim>\<open>cmd\<close>): what the gRPC server process starts with, and the commands of the tool.
    \<open>Wintertest\<close> (\<^verbatim>\<open>wintertest\<close>): when the assertions of the test helpers pass.
    \<open>Connect\<close>: the constructors of clients, servers, inspectors and the tool, and the client in a context (\<^verbatim>\<open>context.go\<close>).

  \<^bold>\<open>Choices.\<close> The clock, fresh identifiers and faults of the connection are arguments: a function from
  the number of the call to its value where an operation makes several. User code (handlers, hooks,
  middleware) is a function on the state, which may also do whatever other processes do meanwhile.
  Errors are values, a panic of a handler is the exit \<open>Panicked\<close>. Durations are 64-bit words where Go
  multiplies or compares them after arithmetic that can wrap (backoff, gRPC timeouts, 32-bit fields);
  elsewhere integers are unbounded, and 64-bit ranges are hypotheses where parsing depends on them.
  Lua numbers in the queue's scripts are integers, where Lua has doubles: up to \<open>2 ^ 53\<close> both agree, in value and
  in text (lemma \<open>lua_integers\<close>; a time of today in milliseconds is below \<open>2 ^ 41\<close>), and beyond it the
  scripts of the model are idealised. The seconds of a unique period go through doubles as in Go, and the token
  bucket is over doubles throughout. A key expires at the
  millisecond its time to live ends. Loops that wait take the list of
  their rounds: \<open>WaitForResult\<close> those until its context ends; the gRPC \<open>Dequeue\<close> has for each round the time of its
  call, the random part of the sleep and how late the timer was, and gives \<open>None\<close> when the list is too
  short; C34 shows how many rounds suffice. The JSON reader has the length of its text as fuel, which \<open>parse_json_print\<close> shows to be
  enough. The workflow manager takes the encoding of its records as an argument with the law that a
  record reads back (locale \<open>json_codec\<close>); \<open>go_json\<close>, the encoding of \<open>encoding/json\<close> for these records, is
  its interpretation. Code outside the repository is an argument: Redis and Lua's numbers, SHA-256,
  UUIDs, the cron parser, the YAML parser; so are what Go leaves open (the conversion of a float that
  does not fit, the order \<open>slices.SortFunc\<close> gives to equal elements), the quoting of \<open>%q\<close>, which depends
  on tables of Unicode, and the JSON of the users' own types.

  \<^bold>\<open>Not modelled.\<close> What go-redis, grpc-go and cobra do behind their calls; when the tickers of the loops fire (the
  step relations leave it open); the alignment of the tool's output; the examples, which are programs
  on top of the library, and the generated protobuf code, whose messages are records here.
\<close>

end
